(* ===== verification/Prelude.thy ===== *)
theory Prelude
  imports Main "HOL-Library.Word" "HOL-Library.List_Lexorder"
    "HOL-Library.Code_Target_Nat"
begin

text \<open>
  Shared vocabulary of the development: strings as lists of Unicode code points, the string and
  number operations of the Rust standard library that the program calls, the results of fallible
  and of polled operations, and the collections of simplification rules the component theories
  extend.

  A Rust \<open>String\<close> is modelled by its \<open>chars()\<close>, a list of code points (\<open>rstr\<close>). Operations that
  look at bytes (\<open>len\<close>, \<open>as_bytes\<close>, \<open>from_utf8\<close>) go through the UTF-8 functions of this theory.
  Code-point order is the order of \<open>str\<close>, because UTF-8 keeps it.
\<close>

section \<open>Collections\<close>

named_theorems frame_simps
  \<open>facts that say which fields an operation leaves alone\<close>
named_theorems inv_intros
  \<open>facts that say which invariants an operation keeps\<close>

section \<open>Results of operations\<close>

text \<open>
  \<open>io::Error\<close> is a kind and the text it is displayed as. \<open>io::Error::new\<close> wraps an inner error, which is
  that text; an error of the operating system has none inside it. An operation that can fail or panic returns \<open>exn + 'a\<close>; a
  panic is a value of its own, so that absence of panics is something to prove. A polled operation
  returns \<open>exn + 'a async\<close>, as \<open>Poll<T, io::Error>\<close> does.
\<close>

type_synonym rchar = nat
type_synonym rstr = "rchar list"
type_synonym u8 = "8 word"

datatype io_kind = WouldBlock | InvalidData | UnexpectedEof | Interrupted | Other

datatype io_error =
    IoError (err_kind: io_kind) (err_msg: rstr)
  | OsError (err_kind: io_kind) (err_msg: rstr)

datatype exn = Panic string | IoErr io_error

datatype 'a async = Ready 'a | NotReady

fun is_panic :: "exn + 'a \<Rightarrow> bool" where
  "is_panic (Inl (Panic _)) = True"
| "is_panic _ = False"

lemma is_panic_Inr [simp]: "\<not> is_panic (Inr x)"
  by simp

lemma is_panic_IoErr [simp]: "\<not> is_panic (Inl (IoErr e))"
  by simp

lemma map_sum_id_Inr [simp]: "map_sum id f x = Inr y \<longleftrightarrow> (\<exists>z. x = Inr z \<and> y = f z)"
  by (cases x) auto

lemma map_sum_id_Inl [simp]: "map_sum id f x = Inl e \<longleftrightarrow> x = Inl e"
  by (cases x) auto

section \<open>String literals\<close>

definition lit :: "string \<Rightarrow> rstr" where
  "lit s = map of_char s"

lemma lit_inject [simp]: "lit a = lit b \<longleftrightarrow> a = b"
  by (simp add: lit_def inj_map_eq_map inj_on_def)

lemma lit_Nil [simp]: "lit [] = []"
  by (simp add: lit_def)

lemma lit_eq_Nil [simp]: "lit s = [] \<longleftrightarrow> s = []" "[] = lit s \<longleftrightarrow> s = []"
  by (simp_all add: lit_def)

lemma length_lit [simp]: "length (lit s) = length s"
  by (simp add: lit_def)

section \<open>Searching and splitting\<close>

text \<open>\<open>str::starts_with\<close>, \<open>str::strip_prefix\<close> and \<open>str::strip_suffix\<close>.\<close>

definition starts_with :: "rstr \<Rightarrow> rstr \<Rightarrow> bool" where
  "starts_with p s \<longleftrightarrow> take (length p) s = p"

definition strip_prefix :: "rstr \<Rightarrow> rstr \<Rightarrow> rstr option" where
  "strip_prefix p s = (if starts_with p s then Some (drop (length p) s) else None)"

definition strip_suffix :: "rstr \<Rightarrow> rstr \<Rightarrow> rstr option" where
  "strip_suffix p s = map_option rev (strip_prefix (rev p) (rev s))"

lemma starts_with_append [simp]: "starts_with p (p @ s)"
  by (simp add: starts_with_def)

lemma starts_with_iff: "starts_with p s \<longleftrightarrow> (\<exists>t. s = p @ t)"
  by (metis append_eq_conv_conj append_take_drop_id starts_with_def)

lemma strip_prefix_Some_iff: "strip_prefix p s = Some t \<longleftrightarrow> s = p @ t"
  by (auto simp: strip_prefix_def starts_with_iff)

lemma strip_suffix_Some_iff: "strip_suffix p s = Some t \<longleftrightarrow> s = t @ p"
proof -
  have "strip_suffix p s = Some t \<longleftrightarrow> strip_prefix (rev p) (rev s) = Some (rev t)"
    by (auto simp: strip_suffix_def rev_swap)
  then show ?thesis
    by (simp add: strip_prefix_Some_iff rev_swap)
qed

text \<open>\<open>str::split('\n')\<close>: one piece more than there are separators, never none.\<close>

fun split_on :: "'a \<Rightarrow> 'a list \<Rightarrow> 'a list list" where
  "split_on d [] = [[]]"
| "split_on d (c # cs) =
     (if c = d then [] # split_on d cs
      else (case split_on d cs of [] \<Rightarrow> [[c]] | p # ps \<Rightarrow> (c # p) # ps))"

fun join_on :: "'a \<Rightarrow> 'a list list \<Rightarrow> 'a list" where
  "join_on d [] = []"
| "join_on d [p] = p"
| "join_on d (p # ps) = p @ d # join_on d ps"

lemma split_on_nonempty [simp]: "split_on d s \<noteq> []"
  by (induction s) (auto split: list.splits)

lemma split_on_pieces: "p \<in> set (split_on d s) \<Longrightarrow> d \<notin> set p"
  by (induction s arbitrary: p) (auto split: if_splits list.splits)

lemma split_on_subset: "p \<in> set (split_on d s) \<Longrightarrow> set p \<subseteq> set s"
proof (induction s arbitrary: p)
  case (Cons c s)
  obtain q qs where "split_on d s = q # qs"
    by (meson neq_Nil_conv split_on_nonempty)
  with Cons.prems Cons.IH [of q] Cons.IH [of p] show ?case by (auto split: if_splits)
qed simp

lemma join_split_on: "join_on d (split_on d s) = s"
proof (induction s)
  case (Cons c s)
  obtain q qs where "split_on d s = q # qs"
    by (meson neq_Nil_conv split_on_nonempty)
  with Cons show ?case by (cases qs) auto
qed simp

lemma split_on_none: "d \<notin> set s \<Longrightarrow> split_on d s = [s]"
  by (induction s) auto

lemma split_on_append: "d \<notin> set p \<Longrightarrow> split_on d (p @ d # s) = p # split_on d s"
  by (induction p) auto

lemma split_join_on: "ps \<noteq> [] \<Longrightarrow> \<forall>p \<in> set ps. d \<notin> set p \<Longrightarrow> split_on d (join_on d ps) = ps"
  by (induction d ps rule: join_on.induct) (auto simp: split_on_none split_on_append)

lemma length_split_on: "length (split_on d s) = Suc (count_list s d)"
  by (induction s) (auto split: list.splits)

section \<open>Trimming\<close>

text \<open>\<open>char::is_whitespace\<close> is the Unicode property White\_Space.\<close>

definition is_whitespace :: "rchar \<Rightarrow> bool" where
  "is_whitespace c \<longleftrightarrow> (9 \<le> c \<and> c \<le> 13) \<or> c = 32 \<or> c = 0x85 \<or> c = 0xA0 \<or> c = 0x1680
     \<or> (0x2000 \<le> c \<and> c \<le> 0x200A) \<or> c = 0x2028 \<or> c = 0x2029 \<or> c = 0x202F \<or> c = 0x205F \<or> c = 0x3000"

definition trim_end :: "rstr \<Rightarrow> rstr" where
  "trim_end s = rev (dropWhile is_whitespace (rev s))"

definition trim :: "rstr \<Rightarrow> rstr" where
  "trim s = trim_end (dropWhile is_whitespace s)"

lemma trim_end_Nil [simp]: "trim_end [] = []"
  by (simp add: trim_end_def)

lemma trim_end_snoc_ws [simp]: "is_whitespace c \<Longrightarrow> trim_end (s @ [c]) = trim_end s"
  by (simp add: trim_end_def)

lemma trim_end_snoc_other: "\<not> is_whitespace c \<Longrightarrow> trim_end (s @ [c]) = s @ [c]"
  by (simp add: trim_end_def)

lemma trim_end_id: "s = [] \<or> \<not> is_whitespace (last s) \<Longrightarrow> trim_end s = s"
  by (cases s rule: rev_cases) (auto simp: trim_end_def)

lemma trim_end_last: "trim_end s \<noteq> [] \<Longrightarrow> \<not> is_whitespace (last (trim_end s))"
  by (metis hd_dropWhile last_rev rev_is_Nil_conv trim_end_def)

lemma set_trim_end: "set (trim_end s) \<subseteq> set s"
  by (metis set_dropWhileD set_rev subsetI trim_end_def)

section \<open>Decimal numbers\<close>

text \<open>\<open>format!("{}", n)\<close> of an unsigned number.\<close>

fun decimal :: "nat \<Rightarrow> rstr" where
  "decimal n = (if n < 10 then [48 + n] else decimal (n div 10) @ [48 + n mod 10])"

declare decimal.simps [simp del]

lemma decimal_nonempty [simp]: "decimal n \<noteq> []"
  by (subst decimal.simps) simp

lemma decimal_digits: "c \<in> set (decimal n) \<Longrightarrow> 48 \<le> c \<and> c \<le> 57"
proof (induction n arbitrary: c rule: decimal.induct)
  case (1 n)
  show ?case
  proof (cases "n < 10")
    case True
    with "1.prems" show ?thesis by (auto simp: decimal.simps [of n])
  next
    case False
    with "1.prems" have "c \<in> set (decimal (n div 10)) \<or> c = 48 + n mod 10"
      by (auto simp: decimal.simps [of n])
    with "1.IH" False show ?thesis by auto
  qed
qed

fun digits_value :: "nat \<Rightarrow> rstr \<Rightarrow> nat" where
  "digits_value a [] = a"
| "digits_value a (c # cs) = digits_value (10 * a + (c - 48)) cs"

lemma digits_value_append: "digits_value a (s @ t) = digits_value (digits_value a s) t"
  by (induction s arbitrary: a) auto

lemma digits_value_decimal: "digits_value 0 (decimal n) = n"
proof (induction n rule: decimal.induct)
  case (1 n)
  show ?case
  proof (cases "n < 10")
    case True
    then show ?thesis by (simp add: decimal.simps [of n])
  next
    case False
    with "1.IH" show ?thesis
      by (simp add: decimal.simps [of n] digits_value_append)
  qed
qed

lemma decimal_inject [simp]: "decimal m = decimal n \<longleftrightarrow> m = n"
  by (metis digits_value_decimal)

text \<open>
  \<open>FromStr\<close> of an unsigned type with largest value \<open>mx\<close>: an optional plus sign, at least one
  digit, no other character, no overflow.
\<close>

definition is_digit :: "rchar \<Rightarrow> bool" where
  "is_digit c \<longleftrightarrow> 48 \<le> c \<and> c \<le> 57"

definition parse_uint :: "nat \<Rightarrow> rstr \<Rightarrow> nat option" where
  "parse_uint mx s =
     (let ds = (case s of c # cs \<Rightarrow> if c = 43 then cs else s | [] \<Rightarrow> []) in
      if ds \<noteq> [] \<and> list_all is_digit ds \<and> digits_value 0 ds \<le> mx
      then Some (digits_value 0 ds) else None)"

lemma parse_uint_decimal: "n \<le> mx \<Longrightarrow> parse_uint mx (decimal n) = Some n"
proof -
  assume n: "n \<le> mx"
  obtain c cs where d: "decimal n = c # cs"
    by (meson decimal_nonempty neq_Nil_conv)
  have "list_all is_digit (decimal n)"
    by (auto simp: list_all_iff is_digit_def dest: decimal_digits)
  moreover have "c \<noteq> 43"
    using decimal_digits [of c n] d by auto
  ultimately show ?thesis
    using n d digits_value_decimal [of n] by (simp add: parse_uint_def)
qed

lemma parse_uint_bound: "parse_uint mx s = Some n \<Longrightarrow> n \<le> mx"
  by (auto simp: parse_uint_def Let_def split: if_splits)

end
