(* ===== verification/Utf8.thy ===== *)
theory Utf8
  imports Prelude
begin

text \<open>
  UTF-8 as the Rust standard library defines it for \<open>str\<close>: \<open>as_bytes\<close> (\<open>utf8_bytes\<close>),
  \<open>String::from_utf8\<close> (\<open>from_utf8\<close>) and \<open>len\<close> (\<open>byte_len\<close>). The decoder is strict: overlong forms,
  surrogates and values above 10FFFF are rejected. The two directions are inverse to each other on
  the strings a \<open>String\<close> can hold (\<open>valid_str\<close>), which lets the transport speak of strings.
\<close>

section \<open>Code points and their encoding\<close>

definition scalar :: "rchar \<Rightarrow> bool" where
  "scalar c \<longleftrightarrow> c < 0xD800 \<or> (0xE000 \<le> c \<and> c \<le> 0x10FFFF)"

definition valid_str :: "rstr \<Rightarrow> bool" where
  "valid_str s \<longleftrightarrow> list_all scalar s"

definition encode_char :: "rchar \<Rightarrow> nat list" where
  "encode_char c =
     (if c < 0x80 then [c]
      else if c < 0x800 then [0xC0 + c div 64, 0x80 + c mod 64]
      else if c < 0x10000 then [0xE0 + c div 4096, 0x80 + c div 64 mod 64, 0x80 + c mod 64]
      else [0xF0 + c div 262144, 0x80 + c div 4096 mod 64, 0x80 + c div 64 mod 64, 0x80 + c mod 64])"

definition encode :: "rstr \<Rightarrow> nat list" where
  "encode s = concat (map encode_char s)"

definition cont :: "nat \<Rightarrow> bool" where
  "cont b \<longleftrightarrow> 0x80 \<le> b \<and> b < 0xC0"

fun decode_char :: "nat list \<Rightarrow> (rchar \<times> nat list) option" where
  "decode_char [] = None"
| "decode_char (a # r) =
     (if a < 0x80 then Some (a, r)
      else if 0xC2 \<le> a \<and> a < 0xE0 then
        (case r of
           b # r' \<Rightarrow> if cont b then Some ((a - 0xC0) * 64 + (b - 0x80), r') else None
         | _ \<Rightarrow> None)
      else if 0xE0 \<le> a \<and> a < 0xF0 then
        (case r of
           b # c # r' \<Rightarrow>
             (let p = (a - 0xE0) * 4096 + (b - 0x80) * 64 + (c - 0x80) in
              if cont b \<and> cont c \<and> 0x800 \<le> p \<and> scalar p then Some (p, r') else None)
         | _ \<Rightarrow> None)
      else if 0xF0 \<le> a \<and> a < 0xF5 then
        (case r of
           b # c # d # r' \<Rightarrow>
             (let p = (a - 0xF0) * 262144 + (b - 0x80) * 4096 + (c - 0x80) * 64 + (d - 0x80) in
              if cont b \<and> cont c \<and> cont d \<and> 0x10000 \<le> p \<and> scalar p then Some (p, r') else None)
         | _ \<Rightarrow> None)
      else None)"

lemma decode_char_shorter: "decode_char bs = Some (c, r) \<Longrightarrow> length r < length bs"
  by (cases bs) (auto simp: Let_def split: if_splits list.splits)

function decode :: "nat list \<Rightarrow> rstr option" where
  "decode bs =
     (if bs = [] then Some []
      else case decode_char bs of
        None \<Rightarrow> None
      | Some (c, r) \<Rightarrow> map_option (Cons c) (decode r))"
  by pat_completeness auto
termination
  by (relation "measure length") (auto dest: decode_char_shorter)

declare decode.simps [simp del]

lemma decode_Nil [simp]: "decode [] = Some []"
  by (simp add: decode.simps)

section \<open>The two directions are inverse\<close>

lemma encode_Nil [simp]: "encode [] = []"
  by (simp add: encode_def)

lemma encode_Cons: "encode (c # s) = encode_char c @ encode s"
  by (simp add: encode_def)

lemma encode_append: "encode (s @ t) = encode s @ encode t"
  by (simp add: encode_def)

lemma encode_char_nonempty [simp]: "encode_char c \<noteq> []"
  by (simp add: encode_char_def)

text \<open>Base-64 digits: how \<open>div\<close> and \<open>mod\<close> take a code point apart again.\<close>

lemma base64_2:
  fixes x y :: nat
  assumes "y < 64"
  shows "(x * 64 + y) div 64 = x" "(x * 64 + y) mod 64 = y"
  using assms by simp_all

lemma base64_3:
  fixes x y z :: nat
  assumes "y < 64" "z < 64"
  shows "(x * 4096 + y * 64 + z) div 4096 = x"
    "(x * 4096 + y * 64 + z) div 64 mod 64 = y"
    "(x * 4096 + y * 64 + z) mod 64 = z"
proof -
  have eq: "x * 4096 + y * 64 + z = (x * 64 + y) * 64 + z" by simp
  have "(x * 4096 + y * 64 + z) div 64 = x * 64 + y"
    unfolding eq by (rule base64_2 [OF assms(2)])
  moreover have "(x * 4096 + y * 64 + z) div 4096 = (x * 4096 + y * 64 + z) div 64 div 64"
    by (simp add: div_mult2_eq [of _ 64 64, simplified])
  ultimately show "(x * 4096 + y * 64 + z) div 4096 = x"
    and "(x * 4096 + y * 64 + z) div 64 mod 64 = y"
    using assms(1) by simp_all
  show "(x * 4096 + y * 64 + z) mod 64 = z"
    unfolding eq by (rule base64_2 [OF assms(2)])
qed

lemma base64_4:
  fixes w x y z :: nat
  assumes "x < 64" "y < 64" "z < 64"
  shows "(w * 262144 + x * 4096 + y * 64 + z) div 262144 = w"
    "(w * 262144 + x * 4096 + y * 64 + z) div 4096 mod 64 = x"
    "(w * 262144 + x * 4096 + y * 64 + z) div 64 mod 64 = y"
    "(w * 262144 + x * 4096 + y * 64 + z) mod 64 = z"
proof -
  have eq: "w * 262144 + x * 4096 + y * 64 + z = (w * 64 + x) * 4096 + y * 64 + z" by simp
  have "(w * 262144 + x * 4096 + y * 64 + z) div 4096 = w * 64 + x"
    unfolding eq by (rule base64_3 [OF assms(2,3)])
  moreover have "(w * 262144 + x * 4096 + y * 64 + z) div 262144
      = (w * 262144 + x * 4096 + y * 64 + z) div 4096 div 64"
    by (simp add: div_mult2_eq [of _ 4096 64, simplified])
  ultimately show "(w * 262144 + x * 4096 + y * 64 + z) div 262144 = w"
    and "(w * 262144 + x * 4096 + y * 64 + z) div 4096 mod 64 = x"
    using assms(1) by simp_all
  show "(w * 262144 + x * 4096 + y * 64 + z) div 64 mod 64 = y"
    and "(w * 262144 + x * 4096 + y * 64 + z) mod 64 = z"
    unfolding eq by (rule base64_3 [OF assms(2,3)])+
qed

lemma base64_2_obtain:
  fixes c :: nat
  obtains x y where "c = x * 64 + y" "y < 64"
  by (metis div_mult_mod_eq mod_less_divisor zero_less_numeral)

lemma base64_3_obtain:
  fixes c :: nat
  obtains x y z where "c = x * 4096 + y * 64 + z" "y < 64" "z < 64"
proof -
  obtain x' z where c: "c = x' * 64 + z" and z: "z < 64" by (rule base64_2_obtain)
  obtain x y where x': "x' = x * 64 + y" and y: "y < 64" by (rule base64_2_obtain)
  show thesis by (rule that [of x y z]) (use c x' y z in simp_all)
qed

lemma base64_4_obtain:
  fixes c :: nat
  obtains w x y z where "c = w * 262144 + x * 4096 + y * 64 + z" "x < 64" "y < 64" "z < 64"
proof -
  obtain x' y z where c: "c = x' * 4096 + y * 64 + z" and yz: "y < 64" "z < 64"
    by (rule base64_3_obtain)
  obtain w x where x': "x' = w * 64 + x" and x: "x < 64" by (rule base64_2_obtain)
  show thesis by (rule that [of w x y z]) (use c x' x yz in simp_all)
qed

lemma encode_char_1: "c < 0x80 \<Longrightarrow> encode_char c = [c]"
  by (simp add: encode_char_def)

lemma encode_char_2:
  assumes "y < 64" "2 \<le> x" "x < 32"
  shows "encode_char (x * 64 + y) = [0xC0 + x, 0x80 + y]"
  using assms by (simp add: encode_char_def base64_2)

lemma encode_char_3:
  assumes "y < 64" "z < 64" "x < 16" "0x800 \<le> x * 4096 + y * 64 + z"
  shows "encode_char (x * 4096 + y * 64 + z) = [0xE0 + x, 0x80 + y, 0x80 + z]"
proof -
  have "x * 4096 + y * 64 + z < 0x10000" using assms by linarith
  with assms(4) show ?thesis
    by (simp add: encode_char_def base64_3 [OF assms(1,2)])
qed

lemma encode_char_4:
  assumes "x < 64" "y < 64" "z < 64" "0x10000 \<le> w * 262144 + x * 4096 + y * 64 + z"
  shows "encode_char (w * 262144 + x * 4096 + y * 64 + z) = [0xF0 + w, 0x80 + x, 0x80 + y, 0x80 + z]"
  using assms(4) by (simp add: encode_char_def base64_4 [OF assms(1-3)])

lemma cont_iff: "cont b \<longleftrightarrow> (\<exists>y < 64. b = 0x80 + y)"
  unfolding cont_def by presburger

lemma cont_digit [simp]: "y < 64 \<Longrightarrow> cont (0x80 + y)"
  by (simp add: cont_def)

lemma decode_encode_char:
  assumes "scalar c"
  shows "decode_char (encode_char c @ r) = Some (c, r)"
proof -
  consider "c < 0x80" | "0x80 \<le> c" "c < 0x800" | "0x800 \<le> c" "c < 0x10000" | "0x10000 \<le> c"
    by linarith
  then show ?thesis
  proof cases
    case 1
    then show ?thesis by (simp add: encode_char_1)
  next
    case 2
    obtain x y where c: "c = x * 64 + y" "y < 64" by (rule base64_2_obtain)
    then have x: "2 \<le> x" "x < 32" using 2 by linarith+
    show ?thesis
      unfolding c(1) encode_char_2 [OF c(2) x] using c(2) x by simp
  next
    case 3
    obtain x y z where c: "c = x * 4096 + y * 64 + z" "y < 64" "z < 64" by (rule base64_3_obtain)
    then have x: "x < 16" "0x800 \<le> x * 4096 + y * 64 + z" using 3 by linarith+
    have "encode_char c = [0xE0 + x, 0x80 + y, 0x80 + z]"
      unfolding c(1) by (rule encode_char_3 [OF c(2,3) x])
    with x c assms show ?thesis by (simp add: Let_def)
  next
    case 4
    obtain w x y z where c: "c = w * 262144 + x * 4096 + y * 64 + z" "x < 64" "y < 64" "z < 64"
      by (rule base64_4_obtain)
    have w: "w < 5" "0x10000 \<le> w * 262144 + x * 4096 + y * 64 + z"
      using assms 4 c by (auto simp: scalar_def)
    have "encode_char c = [0xF0 + w, 0x80 + x, 0x80 + y, 0x80 + z]"
      unfolding c(1) by (rule encode_char_4 [OF c(2-4) w(2)])
    with w c assms show ?thesis by (simp add: Let_def)
  qed
qed

lemma encode_decode_char:
  assumes "decode_char bs = Some (c, r)"
  shows "bs = encode_char c @ r \<and> scalar c"
proof -
  obtain a as where bs: "bs = a # as"
    using assms by (cases bs) auto
  consider "a < 0x80" | "0xC2 \<le> a \<and> a < 0xE0" | "0xE0 \<le> a \<and> a < 0xF0" | "0xF0 \<le> a \<and> a < 0xF5"
    using assms bs by (fastforce split: if_splits)
  then show ?thesis
  proof cases
    case 1
    with assms bs show ?thesis
      by (auto simp: encode_char_1 scalar_def)
  next
    case 2
    then obtain x where a: "a = 0xC0 + x" "2 \<le> x" "x < 32"
      by (auto simp: le_iff_add)
    with assms bs obtain y where "as = (0x80 + y) # r" and y: "y < 64" and "c = x * 64 + y"
      by (auto simp: cont_iff split: if_splits list.splits)
    with a bs show ?thesis
      by (auto simp: encode_char_2 scalar_def)
  next
    case 3
    then obtain x where a: "a = 0xE0 + x" "x < 16"
      by (auto simp: le_iff_add)
    with assms bs obtain y z where "as = (0x80 + y) # (0x80 + z) # r" and yz: "y < 64" "z < 64"
      and c: "c = x * 4096 + y * 64 + z" "0x800 \<le> c" "scalar c"
      by (auto simp: cont_iff Let_def split: if_splits list.splits)
    with a bs show ?thesis
      using encode_char_3 [OF yz a(2)] by simp
  next
    case 4
    then obtain w where a: "a = 0xF0 + w"
      by (auto simp: le_iff_add)
    with 4 assms bs obtain x y z where "as = (0x80 + x) # (0x80 + y) # (0x80 + z) # r"
      and xyz: "x < 64" "y < 64" "z < 64"
      and c: "c = w * 262144 + x * 4096 + y * 64 + z" "0x10000 \<le> c" "scalar c"
      by (auto simp: cont_iff Let_def split: if_splits list.splits)
    with a bs show ?thesis
      using encode_char_4 [OF xyz] by simp
  qed
qed

lemma decode_encode: "valid_str s \<Longrightarrow> decode (encode s) = Some s"
proof (induction s)
  case Nil
  then show ?case by simp
next
  case (Cons c s)
  then have "decode_char (encode (c # s)) = Some (c, encode s)"
    by (simp add: encode_Cons decode_encode_char valid_str_def)
  with Cons show ?case
    by (subst decode.simps) (auto simp: encode_Cons valid_str_def)
qed

lemma encode_decode: "decode bs = Some s \<Longrightarrow> encode s = bs \<and> valid_str s"
proof (induction bs arbitrary: s rule: decode.induct)
  case (1 bs)
  show ?case
  proof (cases "bs = []")
    case True
    with "1.prems" show ?thesis by (simp add: valid_str_def)
  next
    case False
    then obtain c r t where dc: "decode_char bs = Some (c, r)" and dr: "decode r = Some t"
      and s: "s = c # t"
      using "1.prems" by (subst (asm) decode.simps) (auto split: option.splits)
    from "1.IH" [OF False dc refl dr] have "encode t = r" "valid_str t" by auto
    with encode_decode_char [OF dc] s show ?thesis
      by (simp add: encode_Cons valid_str_def)
  qed
qed

section \<open>Bytes as 8-bit words\<close>

definition utf8_bytes :: "rstr \<Rightarrow> u8 list" where
  "utf8_bytes s = map of_nat (encode s)"

definition from_utf8 :: "u8 list \<Rightarrow> rstr option" where
  "from_utf8 bs = decode (map unat bs)"

definition byte_len :: "rstr \<Rightarrow> nat" where
  "byte_len s = length (utf8_bytes s)"

lemma encode_char_byte: "scalar c \<Longrightarrow> b \<in> set (encode_char c) \<Longrightarrow> b < 256"
proof -
  assume c: "scalar c" and b: "b \<in> set (encode_char c)"
  have "x div 64 mod 64 < 64" "x div 4096 mod 64 < 64" "x mod 64 < 64" for x :: nat
    by simp_all
  moreover have "c div 262144 < 16" using c by (auto simp: scalar_def)
  moreover have "c < 0x10000 \<Longrightarrow> c div 4096 < 16" "c < 0x800 \<Longrightarrow> c div 64 < 32"
    by simp_all
  ultimately show "b < 256"
    using b unfolding encode_char_def
    by (auto split: if_splits intro: less_trans [of _ "128 + 64"] simp: less_diff_conv)
qed

lemma encode_byte: "valid_str s \<Longrightarrow> b \<in> set (encode s) \<Longrightarrow> b < 256"
  by (auto simp: encode_def valid_str_def list_all_iff dest: encode_char_byte)

lemma from_utf8_bytes [simp]: "valid_str s \<Longrightarrow> from_utf8 (utf8_bytes s) = Some s"
proof -
  assume s: "valid_str s"
  have "map unat (utf8_bytes s) = encode s"
    unfolding utf8_bytes_def using encode_byte [OF s]
    by (auto simp: map_idI unat_of_nat intro!: map_idI)
  with decode_encode [OF s] show ?thesis
    by (simp add: from_utf8_def)
qed

lemma from_utf8_SomeD:
  assumes "from_utf8 bs = Some s"
  shows "utf8_bytes s = bs \<and> valid_str s"
proof -
  from assms have "encode s = map unat bs" and v: "valid_str s"
    using encode_decode [of "map unat bs" s] by (simp_all add: from_utf8_def)
  then show ?thesis by (simp add: utf8_bytes_def o_def)
qed

lemma from_utf8_Some_iff: "from_utf8 bs = Some s \<longleftrightarrow> bs = utf8_bytes s \<and> valid_str s"
  using from_utf8_SomeD by fastforce

lemma utf8_bytes_inject: "valid_str s \<Longrightarrow> valid_str t \<Longrightarrow> utf8_bytes s = utf8_bytes t \<longleftrightarrow> s = t"
  by (metis from_utf8_bytes option.inject)

lemma utf8_bytes_append: "utf8_bytes (s @ t) = utf8_bytes s @ utf8_bytes t"
  by (simp add: utf8_bytes_def encode_append)

lemma utf8_bytes_Nil [simp]: "utf8_bytes [] = []"
  by (simp add: utf8_bytes_def)

lemma valid_str_Nil [simp]: "valid_str []"
  by (simp add: valid_str_def)

lemma valid_str_append [simp]: "valid_str (s @ t) \<longleftrightarrow> valid_str s \<and> valid_str t"
  by (simp add: valid_str_def)

lemma valid_str_Cons [simp]: "valid_str (c # s) \<longleftrightarrow> scalar c \<and> valid_str s"
  by (simp add: valid_str_def)

lemma valid_str_lit [simp]: "valid_str (lit s)"
proof -
  have "of_char c < (0xD800 :: nat)" for c
    by (rule less_trans [of _ 256]) simp_all
  then show ?thesis
    by (auto simp: valid_str_def lit_def list_all_iff scalar_def)
qed

text \<open>ASCII bytes occur in the encoding exactly where the code points do.\<close>

lemma encode_char_ascii: "b < 0x80 \<Longrightarrow> b \<in> set (encode_char c) \<longleftrightarrow> b = c"
  by (auto simp: encode_char_def)

lemma encode_ascii: "b < 0x80 \<Longrightarrow> b \<in> set (encode s) \<longleftrightarrow> b \<in> set s"
  by (auto simp: encode_def encode_char_ascii)

lemma utf8_newline: "valid_str s \<Longrightarrow> (10 :: u8) \<in> set (utf8_bytes s) \<longleftrightarrow> 10 \<in> set s"
proof -
  assume s: "valid_str s"
  have "(of_nat b :: u8) = 10 \<longleftrightarrow> b = 10" if "b \<in> set (encode s)" for b
  proof -
    have "b < 256" using encode_byte [OF s that] .
    then show ?thesis
      using word_unat_eq_iff [of "of_nat b :: u8" 10] by (simp add: unat_of_nat)
  qed
  then have "(10 :: u8) \<in> set (utf8_bytes s) \<longleftrightarrow> 10 \<in> set (encode s)"
    by (auto simp: utf8_bytes_def image_iff)
  then show ?thesis by (simp add: encode_ascii)
qed

end
