(* ===== verification/Irc_Protocol.thy ===== *)
theory Irc_Protocol
  imports Utf8
begin

text \<open>
  \<open>src/irc/protocol.rs\<close>: commands, the grammar of IRC lines, the parser \<open>parse_irc_line\<close> built on
  it, the typed commands \<open>IrcCommand\<close> and the numeric replies.

  The grammar is the one of the \<open>impl_rdp!\<close> block. Its operators (sequence, ordered choice,
  repetition without backtracking, option) are those of a parsing expression grammar: a parser takes
  the rest of the line and gives the tokens it pushed and what is left, or fails without effect.
  A token is the rule and the slice \<open>line[token.start..token.end]\<close> it matched.
\<close>

section \<open>Commands\<close>

datatype command =
    CNick | CUser | CJoin | CPart | CQuit | CPing | CMode | CPong | CPass
  | CPrivMsg | CTopic | CWho | CAway
  | CNumeric "16 word" "u8 \<times> u8 \<times> u8"
  | CUnknown

datatype irc_command =
    Nick rstr
  | User rstr rstr
  | Join rstr
  | Part rstr
  | Quit
  | Ping rstr
  | Mode rstr "rstr option"
  | Pong rstr
  | Pass rstr
  | PrivMsg rstr rstr
  | Topic rstr rstr
  | Who rstr
  | Away rstr

record irc_line =
  il_prefix :: "rstr option"
  il_command :: command
  il_args :: "rstr list"

text \<open>The literals both \<open>From\<close> implementations match first.\<close>

definition keyword :: "rstr \<Rightarrow> command option" where
  "keyword cmd =
     (if cmd = lit ''NICK'' then Some CNick
      else if cmd = lit ''USER'' then Some CUser
      else if cmd = lit ''JOIN'' then Some CJoin
      else if cmd = lit ''PART'' then Some CPart
      else if cmd = lit ''QUIT'' then Some CQuit
      else if cmd = lit ''PING'' then Some CPing
      else if cmd = lit ''PONG'' then Some CPong
      else if cmd = lit ''MODE'' then Some CMode
      else if cmd = lit ''PASS'' then Some CPass
      else if cmd = lit ''PRIVMSG'' then Some CPrivMsg
      else if cmd = lit ''TOPIC'' then Some CTopic
      else if cmd = lit ''WHO'' then Some CWho
      else if cmd = lit ''AWAY'' then Some CAway
      else None)"

text \<open>Indexing a slice panics out of range.\<close>

definition index :: "'a list \<Rightarrow> nat \<Rightarrow> exn + 'a" where
  "index xs i = (if i < length xs then Inr (xs ! i) else Inl (Panic ''index out of bounds''))"

definition index3 :: "u8 list \<Rightarrow> nat \<Rightarrow> nat \<Rightarrow> nat \<Rightarrow> exn + (u8 \<times> u8 \<times> u8)" where
  "index3 bs i j k =
     (case index bs i of Inl e \<Rightarrow> Inl e | Inr a \<Rightarrow>
        (case index bs j of Inl e \<Rightarrow> Inl e | Inr b \<Rightarrow>
           (case index bs k of Inl e \<Rightarrow> Inl e | Inr c \<Rightarrow> Inr (a, b, c))))"

text \<open>\<open>From<&str>\<close>: the third byte is read at index 3.\<close>

definition command_from_str :: "rstr \<Rightarrow> exn + command" where
  "command_from_str cmd =
     (case keyword cmd of
        Some c \<Rightarrow> Inr c
      | None \<Rightarrow>
          if byte_len cmd = 3 then
            (case parse_uint 65535 cmd of
               Some c \<Rightarrow>
                 (case index3 (utf8_bytes cmd) 0 1 3 of
                    Inl e \<Rightarrow> Inl e
                  | Inr s \<Rightarrow> Inr (CNumeric (of_nat c) s))
             | None \<Rightarrow> Inr CUnknown)
          else Inr CUnknown)"

text \<open>\<open>From<String>\<close>.\<close>

definition command_from_string :: "rstr \<Rightarrow> exn + command" where
  "command_from_string cmd =
     (case keyword cmd of
        Some c \<Rightarrow> Inr c
      | None \<Rightarrow>
          if byte_len cmd = 3 then
            (case parse_uint 65535 cmd of
               Some c \<Rightarrow>
                 (case index3 (utf8_bytes cmd) 0 1 2 of
                    Inl e \<Rightarrow> Inl e
                  | Inr s \<Rightarrow> Inr (CNumeric (of_nat c) s))
             | None \<Rightarrow> Inr CUnknown)
          else Inr CUnknown)"

fun command_to_str :: "command \<Rightarrow> exn + rstr" where
  "command_to_str CNick = Inr (lit ''NICK'')"
| "command_to_str CUser = Inr (lit ''USER'')"
| "command_to_str CJoin = Inr (lit ''JOIN'')"
| "command_to_str CPart = Inr (lit ''PART'')"
| "command_to_str CQuit = Inr (lit ''QUIT'')"
| "command_to_str CPing = Inr (lit ''PING'')"
| "command_to_str CMode = Inr (lit ''MODE'')"
| "command_to_str CPong = Inr (lit ''PONG'')"
| "command_to_str CPass = Inr (lit ''PASS'')"
| "command_to_str CPrivMsg = Inr (lit ''PRIVMSG'')"
| "command_to_str CTopic = Inr (lit ''TOPIC'')"
| "command_to_str CWho = Inr (lit ''WHO'')"
| "command_to_str CAway = Inr (lit ''AWAY'')"
| "command_to_str (CNumeric _ (a, b, c)) =
     (case from_utf8 [a, b, c] of
        Some s \<Rightarrow> Inr s
      | None \<Rightarrow> Inl (Panic ''Numeric code''))"
| "command_to_str CUnknown = Inr (lit ''<UNKNOWN>'')"

section \<open>Typed commands\<close>

text \<open>\<open>Iterator::next\<close> and \<open>Iterator::nth\<close> of a consumed vector: the element and what is left.\<close>

definition it_next :: "'a list \<Rightarrow> 'a option \<times> 'a list" where
  "it_next xs = (case xs of [] \<Rightarrow> (None, []) | x # r \<Rightarrow> (Some x, r))"

definition it_nth :: "nat \<Rightarrow> 'a list \<Rightarrow> 'a option \<times> 'a list" where
  "it_nth n xs = (if n < length xs then (Some (xs ! n), drop (Suc n) xs) else (None, []))"

definition from_irc_line :: "irc_line \<Rightarrow> irc_command option" where
  "from_irc_line l = (let args = il_args l in
     case il_command l of
       CNick \<Rightarrow> map_option Nick (fst (it_next args))
     | CUser \<Rightarrow>
         (case it_nth 0 args of (user, it) \<Rightarrow>
            (case it_nth 2 it of (real_name, _) \<Rightarrow>
               (case (user, real_name) of
                  (Some u, Some r) \<Rightarrow> Some (User u r)
                | _ \<Rightarrow> None)))
     | CJoin \<Rightarrow> map_option Join (fst (it_next args))
     | CPart \<Rightarrow> map_option Part (fst (it_next args))
     | CQuit \<Rightarrow> Some Quit
     | CPing \<Rightarrow> map_option Ping (fst (it_next args))
     | CMode \<Rightarrow>
         (case it_next args of
            (Some target, it) \<Rightarrow> Some (Mode target (fst (it_next it)))
          | (None, _) \<Rightarrow> None)
     | CPong \<Rightarrow> map_option Pong (fst (it_next args))
     | CPass \<Rightarrow> map_option Pass (fst (it_next args))
     | CPrivMsg \<Rightarrow>
         (case it_nth 0 args of (channel, it) \<Rightarrow>
            (case it_nth 0 it of (text, _) \<Rightarrow>
               (case (channel, text) of
                  (Some c, Some t) \<Rightarrow> Some (PrivMsg c t)
                | _ \<Rightarrow> None)))
     | CTopic \<Rightarrow>
         (case it_nth 0 args of (channel, it) \<Rightarrow>
            (case it_nth 0 it of (topic, _) \<Rightarrow>
               (case (channel, topic) of
                  (Some c, Some t) \<Rightarrow> Some (Topic c t)
                | _ \<Rightarrow> None)))
     | CWho \<Rightarrow> map_option Who (fst (it_next args))
     | CNumeric _ _ \<Rightarrow> None
     | CUnknown \<Rightarrow> None
     | CAway \<Rightarrow>
         (case it_next args of
            (Some message, _) \<Rightarrow> Some (Away message)
          | (None, _) \<Rightarrow> Some (Away [])))"

fun command_of :: "irc_command \<Rightarrow> command" where
  "command_of (Nick _) = CNick"
| "command_of (User _ _) = CUser"
| "command_of (Join _) = CJoin"
| "command_of (Part _) = CPart"
| "command_of Quit = CQuit"
| "command_of (Ping _) = CPing"
| "command_of (Mode _ _) = CMode"
| "command_of (Pong _) = CPong"
| "command_of (Pass _) = CPass"
| "command_of (PrivMsg _ _) = CPrivMsg"
| "command_of (Topic _ _) = CTopic"
| "command_of (Who _) = CWho"
| "command_of (Away _) = CAway"

section \<open>Operators of the grammar\<close>

datatype rule = R_prefix | R_command | R_param | R_trailing_param | R_any | R_soi | R_eoi

type_synonym token = "rule \<times> rstr"
type_synonym rdp = "rstr \<Rightarrow> (token list \<times> rstr) option"

definition p_str :: "string \<Rightarrow> rdp" where
  "p_str t s = (if starts_with (lit t) s then Some ([], drop (length t) s) else None)"

definition p_range :: "rchar \<Rightarrow> rchar \<Rightarrow> rdp" where
  "p_range lo hi s =
     (case s of [] \<Rightarrow> None | c # cs \<Rightarrow> if lo \<le> c \<and> c \<le> hi then Some ([], cs) else None)"

definition p_seq :: "rdp \<Rightarrow> rdp \<Rightarrow> rdp" where
  "p_seq p q s =
     (case p s of
        None \<Rightarrow> None
      | Some (ts, s') \<Rightarrow> map_option (apfst ((@) ts)) (q s'))"

definition p_alt :: "rdp \<Rightarrow> rdp \<Rightarrow> rdp" where
  "p_alt p q s = (case p s of Some r \<Rightarrow> Some r | None \<Rightarrow> q s)"

definition p_opt :: "rdp \<Rightarrow> rdp" where
  "p_opt p s = (case p s of Some r \<Rightarrow> Some r | None \<Rightarrow> Some ([], s))"

text \<open>
  Repetition. A body that succeeds without consuming would repeat for ever; no body of the grammar
  does (\<open>consuming\<close> below), and the case is cut off so that the function is total.
\<close>

function p_star :: "rdp \<Rightarrow> rdp" where
  "p_star p s =
     (case p s of
        None \<Rightarrow> Some ([], s)
      | Some (ts, s') \<Rightarrow>
          if length s' < length s then map_option (apfst ((@) ts)) (p_star p s') else None)"
  by pat_completeness auto
termination
  by (relation "measure (\<lambda>(p, s). length s)") auto

declare p_star.simps [simp del]

definition p_plus :: "rdp \<Rightarrow> rdp" where
  "p_plus p = p_seq p (p_star p)"

text \<open>A rule with braces pushes a token for the text it matched, before the tokens inside it.\<close>

definition p_rule :: "rule \<Rightarrow> rdp \<Rightarrow> rdp" where
  "p_rule r p s =
     (case p s of
        None \<Rightarrow> None
      | Some (ts, s') \<Rightarrow> Some ((r, take (length s - length s') s) # ts, s'))"

section \<open>The grammar\<close>

definition g_digit :: rdp where
  "g_digit = p_range 48 57"

definition g_space :: rdp where
  "g_space = p_plus (p_str '' '')"

definition g_nospcrlfcl :: rdp where
  "g_nospcrlfcl =
     p_alt (p_range 0x01 0x09) (p_alt (p_range 0x0B 0x0C) (p_alt (p_range 0x0E 0x1F)
       (p_alt (p_range 0x21 0x39) (p_alt (p_range 0x3B 0x7F) (p_alt (p_range 0x80 0x7FF)
         (p_alt (p_range 0x800 0xFFFF) (p_range 0x10000 0x1FFFF)))))))"

definition g_prefix :: rdp where
  "g_prefix = p_rule R_prefix (p_plus (p_alt (p_str '':'') g_nospcrlfcl))"

definition g_command :: rdp where
  "g_command = p_rule R_command
     (p_alt (p_plus (p_range 65 90)) (p_seq g_digit (p_seq g_digit g_digit)))"

definition g_param :: rdp where
  "g_param = p_rule R_param (p_seq g_nospcrlfcl (p_star (p_alt (p_str '':'') g_nospcrlfcl)))"

definition g_trailing_param :: rdp where
  "g_trailing_param = p_rule R_trailing_param
     (p_star (p_alt (p_str '':'') (p_alt (p_str '' '') g_nospcrlfcl)))"

definition g_params :: rdp where
  "g_params = p_seq (p_star (p_seq g_space g_param))
     (p_opt (p_seq g_space (p_seq (p_str '':'') g_trailing_param)))"

definition g_expression :: rdp where
  "g_expression = p_seq (p_opt (p_seq (p_str '':'') (p_seq g_prefix g_space)))
     (p_seq g_command g_params)"

section \<open>The line parser\<close>

record irc_line_builder =
  ib_prefix :: "rstr option"
  ib_command :: "rstr option"
  ib_args :: "rstr list"

definition builder_default :: irc_line_builder where
  "builder_default = \<lparr>ib_prefix = None, ib_command = None, ib_args = []\<rparr>"

fun build_step :: "token \<Rightarrow> irc_line_builder \<Rightarrow> irc_line_builder" where
  "build_step (R_prefix, t) b = b\<lparr>ib_prefix := Some t\<rparr>"
| "build_step (R_command, t) b = b\<lparr>ib_command := Some t\<rparr>"
| "build_step (R_param, t) b = b\<lparr>ib_args := ib_args b @ [t]\<rparr>"
| "build_step (R_trailing_param, t) b = b\<lparr>ib_args := ib_args b @ [t]\<rparr>"
| "build_step (R_any, t) b = b"
| "build_step (R_soi, t) b = b"
| "build_step (R_eoi, t) b = b"

definition parse_irc_line :: "rstr \<Rightarrow> exn + irc_line option" where
  "parse_irc_line line =
     (case g_expression line of
        None \<Rightarrow> Inr None
      | Some (queue, rest) \<Rightarrow>
          if rest \<noteq> [] then Inr None
          else
            (let b = fold build_step queue builder_default in
             case ib_command b of
               None \<Rightarrow> Inl (Panic ''expected command'')
             | Some c \<Rightarrow>
                 (case command_from_string c of
                    Inl e \<Rightarrow> Inl e
                  | Inr k \<Rightarrow> Inr (Some \<lparr>il_prefix = ib_prefix b, il_command = k, il_args = ib_args b\<rparr>))))"

text \<open>\<open>FromStr for IrcCommand\<close>: the inner \<open>option\<close> is the \<open>Result<_, ()>\<close>.\<close>

definition irc_command_from_str :: "rstr \<Rightarrow> exn + irc_command option" where
  "irc_command_from_str line =
     (case parse_irc_line line of
        Inl e \<Rightarrow> Inl e
      | Inr None \<Rightarrow> Inr None
      | Inr (Some l) \<Rightarrow> Inr (from_irc_line l))"

section \<open>Numeric replies\<close>

datatype numeric =
    RplWelcome | RplChannelmodeis | RplUnaway | RplNowaway | RplTopic | RplEndofwho | RplWhoreply
  | RplNamreply | RplEndofnames | RplMotd | RplMotdstart | RplEndofmotd | RplForwardedChannel
  | ErrNeedmoreparams | ErrPasswdmismatch

fun discriminant :: "numeric \<Rightarrow> nat" where
  "discriminant RplWelcome = 1"
| "discriminant RplChannelmodeis = 324"
| "discriminant RplUnaway = 305"
| "discriminant RplNowaway = 306"
| "discriminant RplTopic = 332"
| "discriminant RplEndofwho = 315"
| "discriminant RplWhoreply = 352"
| "discriminant RplNamreply = 353"
| "discriminant RplEndofnames = 366"
| "discriminant RplMotd = 372"
| "discriminant RplMotdstart = 375"
| "discriminant RplEndofmotd = 376"
| "discriminant RplForwardedChannel = 470"
| "discriminant ErrNeedmoreparams = 461"
| "discriminant ErrPasswdmismatch = 464"

fun numeric_as_str :: "numeric \<Rightarrow> rstr" where
  "numeric_as_str RplWelcome = lit ''001''"
| "numeric_as_str RplUnaway = lit ''305''"
| "numeric_as_str RplNowaway = lit ''306''"
| "numeric_as_str RplChannelmodeis = lit ''324''"
| "numeric_as_str RplTopic = lit ''332''"
| "numeric_as_str RplEndofwho = lit ''315''"
| "numeric_as_str RplWhoreply = lit ''352''"
| "numeric_as_str RplNamreply = lit ''353''"
| "numeric_as_str RplEndofnames = lit ''366''"
| "numeric_as_str RplMotd = lit ''372''"
| "numeric_as_str RplMotdstart = lit ''375''"
| "numeric_as_str RplEndofmotd = lit ''376''"
| "numeric_as_str RplForwardedChannel = lit ''470''"
| "numeric_as_str ErrNeedmoreparams = lit ''461''"
| "numeric_as_str ErrPasswdmismatch = lit ''464''"

end
