(* ===== verification/Irc_Grammar.thy ===== *)
theory Irc_Grammar
  imports Irc_Protocol
begin

text \<open>
  What the line parser accepts. A declarative grammar of IRC lines (inductive predicates over whole
  strings, with no order of alternatives and no greed) is shown equivalent to the parser: it accepts
  a line exactly when the line has a derivation, and returns the parts of that derivation. The rest
  follows from this equivalence: the round trip of rendered lines, the shape of the arguments, and
  the absence of panics.
\<close>

section \<open>Character classes\<close>

definition sat :: "(rchar \<Rightarrow> bool) \<Rightarrow> rdp" where
  "sat P s = (case s of [] \<Rightarrow> None | c # cs \<Rightarrow> if P c then Some ([], cs) else None)"

definition nospc :: "rchar \<Rightarrow> bool" where
  "nospc c \<longleftrightarrow> 1 \<le> c \<and> c \<le> 0x1FFFF \<and> c \<noteq> 10 \<and> c \<noteq> 13 \<and> c \<noteq> 32 \<and> c \<noteq> 58"

definition mid_char :: "rchar \<Rightarrow> bool" where
  "mid_char c \<longleftrightarrow> c = 58 \<or> nospc c"

definition trail_char :: "rchar \<Rightarrow> bool" where
  "trail_char c \<longleftrightarrow> c = 58 \<or> c = 32 \<or> nospc c"

definition upper :: "rchar \<Rightarrow> bool" where
  "upper c \<longleftrightarrow> 65 \<le> c \<and> c \<le> 90"

abbreviation blank :: "rchar \<Rightarrow> bool" where
  "blank c \<equiv> c = 32"

lemma class_simps [simp]:
  "\<not> nospc 32" "\<not> nospc 58" "\<not> mid_char 32" "mid_char 58" "\<not> upper 32" "\<not> upper 58" "trail_char 58"
  "\<not> is_digit 32" "\<not> is_digit 58" "nospc c \<Longrightarrow> mid_char c" "mid_char c \<Longrightarrow> trail_char c"
  "is_digit c \<Longrightarrow> \<not> upper c"
  by (auto simp: nospc_def mid_char_def trail_char_def upper_def is_digit_def)

lemma p_range_sat: "p_range lo hi = sat (\<lambda>c. lo \<le> c \<and> c \<le> hi)"
  by (simp add: p_range_def sat_def fun_eq_iff)

lemma p_str_sat: "p_str [ch] = sat (\<lambda>c. c = of_char ch)"
  by (auto simp: p_str_def sat_def fun_eq_iff starts_with_def lit_def split: list.splits)

lemma p_alt_sat: "p_alt (sat P) (sat Q) = sat (\<lambda>c. P c \<or> Q c)"
  by (auto simp: p_alt_def sat_def fun_eq_iff split: list.splits)

lemma p_star_sat: "p_star (sat P) s = Some ([], dropWhile P s)"
  by (induction s) (simp_all add: p_star.simps sat_def apfst_def map_prod_def)

lemma p_plus_sat:
  "p_plus (sat P) s = (if takeWhile P s = [] then None else Some ([], dropWhile P s))"
  by (cases s) (auto simp: p_plus_def p_seq_def p_star_sat, auto simp: sat_def p_star_sat apfst_def)

lemma p_rule_dropWhile:
  "p s = Some ([], dropWhile P s) \<Longrightarrow> p_rule r p s = Some ([(r, takeWhile P s)], dropWhile P s)"
proof -
  have "length s - length (dropWhile P s) = length (takeWhile P s)"
    by (metis add_diff_cancel_right' length_append takeWhile_dropWhile_id)
  then show "p s = Some ([], dropWhile P s) \<Longrightarrow> p_rule r p s = Some ([(r, takeWhile P s)], dropWhile P s)"
    by (simp add: p_rule_def takeWhile_eq_take [symmetric])
qed

section \<open>The rules of the grammar on whole strings\<close>

lemma g_nospcrlfcl_sat: "g_nospcrlfcl = sat nospc"
proof -
  have "(0x01 \<le> c \<and> c \<le> 0x09 \<or> 0x0B \<le> c \<and> c \<le> 0x0C \<or> 0x0E \<le> c \<and> c \<le> 0x1F \<or> 0x21 \<le> c \<and> c \<le> 0x39
      \<or> 0x3B \<le> c \<and> c \<le> 0x7F \<or> 0x80 \<le> c \<and> c \<le> 0x7FF \<or> 0x800 \<le> c \<and> c \<le> 0xFFFF
      \<or> 0x10000 \<le> c \<and> c \<le> 0x1FFFF) = nospc c" for c
    unfolding nospc_def by presburger
  then show ?thesis
    unfolding g_nospcrlfcl_def p_range_sat p_alt_sat by simp
qed

lemma g_space_eq:
  "g_space s = (if takeWhile blank s = [] then None else Some ([], dropWhile blank s))"
  by (simp add: g_space_def p_str_sat p_plus_sat)

lemma g_mid_sat: "p_alt (p_str '':'') g_nospcrlfcl = sat mid_char"
  by (simp add: g_nospcrlfcl_sat p_str_sat p_alt_sat mid_char_def [abs_def])

lemma g_prefix_eq:
  "g_prefix s = (if takeWhile mid_char s = [] then None
     else Some ([(R_prefix, takeWhile mid_char s)], dropWhile mid_char s))"
proof (cases "takeWhile mid_char s = []")
  case True
  then show ?thesis by (simp add: g_prefix_def g_mid_sat p_rule_def p_plus_sat)
next
  case False
  then show ?thesis
    by (simp add: g_prefix_def g_mid_sat p_plus_sat p_rule_dropWhile)
qed

lemma g_param_eq:
  "g_param s = (if s \<noteq> [] \<and> nospc (hd s)
     then Some ([(R_param, takeWhile mid_char s)], dropWhile mid_char s) else None)"
proof (cases "s \<noteq> [] \<and> nospc (hd s)")
  case True
  then have "p_seq g_nospcrlfcl (p_star (p_alt (p_str '':'') g_nospcrlfcl)) s
      = Some ([], dropWhile mid_char s)"
    by (cases s) (simp_all add: g_mid_sat p_seq_def, simp_all add: g_nospcrlfcl_sat sat_def p_star_sat)
  with True show ?thesis
    by (simp add: g_param_def p_rule_dropWhile)
next
  case False
  then show ?thesis
    by (cases s) (auto simp: g_param_def p_rule_def p_seq_def g_nospcrlfcl_sat sat_def)
qed

lemma g_trailing_param_eq:
  "g_trailing_param s = Some ([(R_trailing_param, takeWhile trail_char s)], dropWhile trail_char s)"
proof -
  have "p_alt (p_str '':'') (p_alt (p_str '' '') g_nospcrlfcl) = sat trail_char"
    by (simp add: g_nospcrlfcl_sat p_str_sat p_alt_sat trail_char_def [abs_def])
  then show ?thesis
    by (simp add: g_trailing_param_def p_star_sat p_rule_dropWhile)
qed

lemma g_digits_eq:
  "p_seq g_digit (p_seq g_digit g_digit) s =
     (if 3 \<le> length s \<and> list_all is_digit (take 3 s) then Some ([], drop 3 s) else None)"
proof (cases "3 \<le> length s")
  case True
  then obtain a b c r where "s = a # b # c # r"
    by (metis (no_types) Suc_le_length_iff numeral_3_eq_3)
  then show ?thesis
    by (simp add: g_digit_def p_range_sat p_seq_def sat_def is_digit_def apfst_def)
next
  case False
  then have "s = [] \<or> (\<exists>a. s = [a]) \<or> (\<exists>a b. s = [a, b])"
    by (cases s; cases "tl s"; cases "tl (tl s)") auto
  then show ?thesis
    by (auto simp: g_digit_def p_range_sat p_seq_def sat_def)
qed

lemma g_command_eq:
  "g_command s =
     (if takeWhile upper s \<noteq> [] then Some ([(R_command, takeWhile upper s)], dropWhile upper s)
      else if 3 \<le> length s \<and> list_all is_digit (take 3 s) then Some ([(R_command, take 3 s)], drop 3 s)
      else None)"
proof -
  have alt: "p_plus (p_range 65 90) = p_plus (sat upper)"
    by (simp add: p_range_sat upper_def [abs_def])
  show ?thesis
  proof (cases "takeWhile upper s = []")
    case True
    then show ?thesis
      by (simp add: g_command_def p_rule_def p_alt_def alt p_plus_sat g_digits_eq)
  next
    case False
    then have "p_alt (p_plus (p_range 65 90)) (p_seq g_digit (p_seq g_digit g_digit)) s
        = Some ([], dropWhile upper s)"
      by (simp add: p_alt_def alt p_plus_sat)
    with False show ?thesis
      by (simp add: g_command_def p_rule_dropWhile)
  qed
qed

section \<open>A declarative grammar\<close>

definition is_spaces :: "rstr \<Rightarrow> bool" where
  "is_spaces s \<longleftrightarrow> s \<noteq> [] \<and> list_all blank s"

definition is_prefix :: "rstr \<Rightarrow> bool" where
  "is_prefix s \<longleftrightarrow> s \<noteq> [] \<and> list_all mid_char s"

definition is_middle :: "rstr \<Rightarrow> bool" where
  "is_middle s \<longleftrightarrow> s \<noteq> [] \<and> nospc (hd s) \<and> list_all mid_char s"

definition is_trailing :: "rstr \<Rightarrow> bool" where
  "is_trailing s \<longleftrightarrow> list_all trail_char s"

definition is_command :: "rstr \<Rightarrow> bool" where
  "is_command s \<longleftrightarrow> (s \<noteq> [] \<and> list_all upper s) \<or> (length s = 3 \<and> list_all is_digit s)"

inductive derives_params :: "rstr \<Rightarrow> token list \<Rightarrow> bool" where
  none: "derives_params [] []"
| middle: "is_spaces sp \<Longrightarrow> is_middle m \<Longrightarrow> derives_params s ts
    \<Longrightarrow> derives_params (sp @ m @ s) ((R_param, m) # ts)"
| trailing: "is_spaces sp \<Longrightarrow> is_trailing t
    \<Longrightarrow> derives_params (sp @ 58 # t) [(R_trailing_param, t)]"

inductive derives_line :: "rstr \<Rightarrow> rstr option \<Rightarrow> rstr \<Rightarrow> rstr list \<Rightarrow> bool" where
  no_prefix: "is_command c \<Longrightarrow> derives_params s ts \<Longrightarrow> derives_line (c @ s) None c (map snd ts)"
| with_prefix: "is_prefix p \<Longrightarrow> is_spaces sp \<Longrightarrow> is_command c \<Longrightarrow> derives_params s ts
    \<Longrightarrow> derives_line (58 # p @ sp @ c @ s) (Some p) c (map snd ts)"

inductive_cases derives_lineE: "derives_line s p c as"

section \<open>The parser and the declarative grammar agree\<close>

lemma takeWhile_block:
  "list_all P xs \<Longrightarrow> ys = [] \<or> \<not> P (hd ys) \<Longrightarrow> takeWhile P (xs @ ys) = xs"
  by (induction xs) (auto, cases ys, auto)

lemma dropWhile_block:
  "list_all P xs \<Longrightarrow> ys = [] \<or> \<not> P (hd ys) \<Longrightarrow> dropWhile P (xs @ ys) = ys"
  by (induction xs) (auto, cases ys, auto)

lemma split_block:
  obtains xs ys where "s = xs @ ys" "list_all P xs" "ys = [] \<or> \<not> P (hd ys)"
    "takeWhile P s = xs" "dropWhile P s = ys"
proof (rule that [of "takeWhile P s" "dropWhile P s"])
  show "list_all P (takeWhile P s)"
    by (auto simp: list_all_iff dest: set_takeWhileD)
  show "dropWhile P s = [] \<or> \<not> P (hd (dropWhile P s))"
    using hd_dropWhile by blast
qed simp_all

lemma derives_params_hd: "derives_params s ts \<Longrightarrow> s = [] \<or> hd s = 32"
  by (induction rule: derives_params.induct) (auto simp: is_spaces_def hd_append list_all_iff)

lemma is_spaces_hd: "is_spaces s \<Longrightarrow> hd s = 32"
  by (cases s) (auto simp: is_spaces_def)

lemma is_command_hd: "is_command c \<Longrightarrow> c \<noteq> [] \<and> hd c \<noteq> 32 \<and> hd c \<noteq> 58"
  by (cases c) (auto simp: is_command_def)

lemma is_middle_hd: "is_middle m \<Longrightarrow> m \<noteq> [] \<and> hd m \<noteq> 32"
  by (metis class_simps(1) is_middle_def)

text \<open>Putting tokens in front of what a parser returned.\<close>

lemma prepend_Nil [simp]: "map_option (apfst ((@) [])) x = x"
  by (cases x) (auto simp: apfst_def)

lemma prepend_prepend [simp]:
  "map_option (apfst ((@) ts)) (map_option (apfst ((@) us)) x) = map_option (apfst ((@) (ts @ us))) x"
  by (cases x) (auto simp: apfst_def)

text \<open>One parameter, and the recursion equation of \<open>params\<close> it gives.\<close>

lemma g_space_block:
  "is_spaces sp \<Longrightarrow> s = [] \<or> hd s \<noteq> 32 \<Longrightarrow> g_space (sp @ s) = Some ([], s)"
  by (auto simp: g_space_eq is_spaces_def takeWhile_block dropWhile_block)

lemma g_space_SomeD:
  "g_space s = Some (ts, r) \<Longrightarrow> \<exists>sp. s = sp @ r \<and> is_spaces sp \<and> (r = [] \<or> hd r \<noteq> 32) \<and> ts = []"
  by (rule split_block [of s blank]) (auto simp: g_space_eq is_spaces_def split: if_splits)

lemma g_param_SomeD:
  "g_param s = Some (ts, r) \<Longrightarrow> \<exists>m. s = m @ r \<and> is_middle m \<and> ts = [(R_param, m)]"
proof (rule split_block [of s mid_char])
  fix xs ys
  assume a: "g_param s = Some (ts, r)" and s: "s = xs @ ys" "list_all mid_char xs"
    and tw: "takeWhile mid_char s = xs" "dropWhile mid_char s = ys"
  from a have h: "s \<noteq> []" "nospc (hd s)" and eq: "ts = [(R_param, xs)]" "r = ys"
    by (auto simp: g_param_eq tw split: if_splits)
  from h tw have "xs \<noteq> []" by (cases s) auto
  with h s eq show ?thesis by (auto simp: is_middle_def)
qed

lemma g_param_block:
  "is_middle m \<Longrightarrow> s = [] \<or> hd s = 32 \<Longrightarrow> g_param (m @ s) = Some ([(R_param, m)], s)"
  using takeWhile_block [of mid_char m s] dropWhile_block [of mid_char m s]
  by (fastforce simp: g_param_eq is_middle_def hd_append)

definition g_one_param :: rdp where
  "g_one_param = p_seq g_space g_param"

lemma g_one_param_SomeD:
  "g_one_param s = Some (ts, r) \<Longrightarrow>
     \<exists>sp m. s = sp @ m @ r \<and> is_spaces sp \<and> is_middle m \<and> ts = [(R_param, m)]"
  by (fastforce simp: g_one_param_def p_seq_def split: option.splits
      dest!: g_space_SomeD g_param_SomeD)

lemma g_one_param_block:
  "is_spaces sp \<Longrightarrow> is_middle m \<Longrightarrow> s = [] \<or> hd s = 32 \<Longrightarrow>
     g_one_param (sp @ m @ s) = Some ([(R_param, m)], s)"
  using g_space_block [of sp "m @ s"] g_param_block [of m s] is_middle_hd [of m]
  by (simp add: g_one_param_def p_seq_def)

lemma g_one_param_shorter: "g_one_param s = Some (ts, r) \<Longrightarrow> length r < length s"
  by (auto simp: is_spaces_def dest!: g_one_param_SomeD)

lemma g_params_rec:
  "g_params s =
     (case g_one_param s of
        Some (ts, r) \<Rightarrow> map_option (apfst ((@) ts)) (g_params r)
      | None \<Rightarrow> p_opt (p_seq g_space (p_seq (p_str '':'') g_trailing_param)) s)"
proof (cases "g_one_param s")
  case None
  then have "p_star (p_seq g_space g_param) s = Some ([], s)"
    by (subst p_star.simps) (simp add: g_one_param_def)
  with None show ?thesis
    by (simp add: g_params_def p_seq_def [of "p_star _"])
next
  case (Some tr)
  then obtain ts r where tr: "g_one_param s = Some (ts, r)"
    by (cases tr) auto
  then have "p_star (p_seq g_space g_param) s
      = map_option (apfst ((@) ts)) (p_star (p_seq g_space g_param) r)"
    using g_one_param_shorter [OF tr]
    by (subst p_star.simps) (simp add: g_one_param_def)
  with tr show ?thesis
    by (cases "p_star (p_seq g_space g_param) r")
      (auto simp: g_params_def p_seq_def [of "p_star _"])
qed

lemma g_params_complete: "derives_params s ts \<Longrightarrow> g_params s = Some (ts, [])"
proof (induction rule: derives_params.induct)
  case none
  show ?case
    by (subst g_params_rec) (simp add: g_one_param_def p_seq_def g_space_eq p_opt_def)
next
  case (middle sp m s ts)
  then show ?case
    by (subst g_params_rec) (simp add: g_one_param_block derives_params_hd apfst_def)
next
  case (trailing sp t)
  then have sp: "g_space (sp @ 58 # t) = Some ([], 58 # t)"
    by (intro g_space_block) simp_all
  then have "g_one_param (sp @ 58 # t) = None"
    by (simp add: g_one_param_def p_seq_def g_param_eq)
  with sp trailing.hyps(2) show ?case
    by (subst g_params_rec)
      (simp add: p_opt_def p_seq_def p_str_sat, simp add: sat_def g_trailing_param_eq is_trailing_def
        list_all_iff apfst_def)
qed

lemma g_params_sound: "g_params s = Some (ts, []) \<Longrightarrow> derives_params s ts"
proof (induction s arbitrary: ts rule: length_induct)
  case (1 s)
  show ?case
  proof (cases "g_one_param s")
    case (Some a)
    then obtain us r where one: "g_one_param s = Some (us, r)" by (cases a) auto
    with "1.prems" obtain vs where vs: "g_params r = Some (vs, [])" "ts = us @ vs"
      by (subst (asm) g_params_rec) (auto simp: apfst_def)
    from one obtain sp m where s: "s = sp @ m @ r" and wf: "is_spaces sp" "is_middle m"
      and us: "us = [(R_param, m)]"
      using g_one_param_SomeD by blast
    have "derives_params r vs"
      using "1.IH" g_one_param_shorter [OF one] vs(1) by blast
    with s us vs(2) wf show ?thesis
      by (simp add: derives_params.middle)
  next
    case None
    let ?tail = "p_seq g_space (p_seq (p_str '':'') g_trailing_param)"
    from None "1.prems" have opt: "p_opt ?tail s = Some (ts, [])"
      by (subst (asm) g_params_rec) simp
    show ?thesis
    proof (cases "?tail s")
      case None
      with opt show ?thesis by (simp add: p_opt_def derives_params.none)
    next
      case (Some a)
      with opt have "?tail s = Some (ts, [])" by (simp add: p_opt_def)
      then obtain r us where sp: "g_space s = Some ([], r)"
        and r: "p_seq (p_str '':'') g_trailing_param r = Some (ts, [])"
        by (auto simp: p_seq_def [of g_space] split: option.splits dest: g_space_SomeD)
      then obtain t where r: "r = 58 # t"
        and t: "ts = [(R_trailing_param, takeWhile trail_char t)]" "dropWhile trail_char t = []"
        by (auto simp: p_seq_def p_str_sat sat_def g_trailing_param_eq apfst_def
            split: option.splits list.splits if_splits)
      from t(2) have "is_trailing t" and "takeWhile trail_char t = t"
        by (auto simp: is_trailing_def list_all_iff takeWhile_eq_all_conv)
      with sp r t(1) show ?thesis
        by (auto dest!: g_space_SomeD intro: derives_params.trailing)
    qed
  qed
qed

lemma g_params_iff: "g_params s = Some (ts, []) \<longleftrightarrow> derives_params s ts"
  using g_params_complete g_params_sound by blast

text \<open>The command and what follows it.\<close>

lemma g_command_block:
  assumes "is_command c" "s = [] \<or> hd s = 32"
  shows "g_command (c @ s) = Some ([(R_command, c)], s)"
proof (cases "c \<noteq> [] \<and> list_all upper c")
  case True
  have "s = [] \<or> \<not> upper (hd s)"
    using assms(2) by auto
  with True have "takeWhile upper (c @ s) = c" "dropWhile upper (c @ s) = s"
    by (simp_all only: takeWhile_block dropWhile_block)
  with True show ?thesis
    by (simp add: g_command_eq)
next
  case False
  with assms(1) have c: "length c = 3" "list_all is_digit c"
    by (auto simp: is_command_def)
  then have "takeWhile upper (c @ s) = []"
    by (cases c) auto
  with c show ?thesis
    by (simp add: g_command_eq)
qed

lemma g_command_SomeD:
  "g_command s = Some (ts, r) \<Longrightarrow> \<exists>c. s = c @ r \<and> is_command c \<and> ts = [(R_command, c)]"
proof (rule split_block [of s upper])
  fix xs ys
  assume a: "g_command s = Some (ts, r)" and s: "s = xs @ ys" "list_all upper xs"
    and tw: "takeWhile upper s = xs" "dropWhile upper s = ys"
  show ?thesis
  proof (cases "xs = []")
    case True
    with a tw have "ts = [(R_command, take 3 s)]" "r = drop 3 s" "is_command (take 3 s)"
      by (auto simp: g_command_eq is_command_def split: if_splits)
    then show ?thesis by (metis append_take_drop_id)
  next
    case False
    with a s tw show ?thesis
      by (auto simp: g_command_eq is_command_def)
  qed
qed

definition g_rest :: rdp where
  "g_rest = p_seq g_command g_params"

lemma g_rest_iff:
  "g_rest s = Some (ts, []) \<longleftrightarrow>
     (\<exists>c r us. s = c @ r \<and> is_command c \<and> derives_params r us \<and> ts = (R_command, c) # us)"
    (is "?l = ?r")
proof
  assume ?l
  then obtain us r vs where "g_command s = Some (us, r)" "g_params r = Some (vs, [])" "ts = us @ vs"
    by (auto simp: g_rest_def p_seq_def split: option.splits)
  then show ?r
    by (auto simp: g_params_iff dest!: g_command_SomeD)
next
  assume ?r
  then show ?l
    by (auto simp: g_rest_def p_seq_def g_command_block derives_params_hd g_params_complete)
qed

text \<open>The optional prefix.\<close>

definition g_head :: rdp where
  "g_head = p_seq (p_str '':'') (p_seq g_prefix g_space)"

lemma g_head_SomeD:
  "g_head s = Some (ts, r) \<Longrightarrow>
     \<exists>p sp. s = 58 # p @ sp @ r \<and> is_prefix p \<and> is_spaces sp \<and> ts = [(R_prefix, p)]"
proof -
  assume "g_head s = Some (ts, r)"
  then obtain t where s: "s = 58 # t" and rest: "p_seq g_prefix g_space t = Some (ts, r)"
    by (auto simp: g_head_def p_str_sat p_seq_def [of "sat _"] sat_def split: list.splits if_splits)
  show ?thesis
  proof (rule split_block [of t mid_char])
    fix xs ys
    assume t: "t = xs @ ys" "list_all mid_char xs"
      and tw: "takeWhile mid_char t = xs" "dropWhile mid_char t = ys"
    from rest have "xs \<noteq> []" "g_space ys = Some ([], r)" "ts = [(R_prefix, xs)]"
      by (auto simp: p_seq_def g_prefix_eq tw split: if_splits option.splits dest: g_space_SomeD)
    with s t show ?thesis
      by (auto simp: is_prefix_def dest!: g_space_SomeD)
  qed
qed

lemma g_head_block:
  assumes "is_prefix p" "is_spaces sp" "r = [] \<or> hd r \<noteq> 32"
  shows "g_head (58 # p @ sp @ r) = Some ([(R_prefix, p)], r)"
proof -
  have "sp @ r \<noteq> []" "hd (sp @ r) = 32"
    using assms(2) by (auto simp: is_spaces_def is_spaces_hd hd_append)
  then have "takeWhile mid_char (p @ sp @ r) = p" "dropWhile mid_char (p @ sp @ r) = sp @ r"
    using assms(1) by (auto simp: is_prefix_def intro!: takeWhile_block dropWhile_block)
  moreover have "g_space (sp @ r) = Some ([], r)"
    using assms(2,3) by (rule g_space_block)
  ultimately show ?thesis
    using assms(1) by (simp add: g_head_def p_seq_def p_str_sat sat_def g_prefix_eq is_prefix_def)
qed

lemma g_head_None: "s = [] \<or> hd s \<noteq> 58 \<Longrightarrow> g_head s = None"
  by (cases s) (auto simp: g_head_def p_seq_def p_str_sat sat_def)

lemma g_expression_alt:
  "g_expression s =
     (case g_head s of
        Some (ts, r) \<Rightarrow> map_option (apfst ((@) ts)) (g_rest r)
      | None \<Rightarrow> g_rest s)"
  by (auto simp: g_expression_def g_head_def g_rest_def p_seq_def [of "p_opt _"] p_opt_def
      split: option.splits)

lemma g_rest_colon: "g_rest (58 # s) = None"
proof -
  have "g_command (58 # s) = None"
    by (auto simp: g_command_eq)
  then show ?thesis by (simp add: g_rest_def p_seq_def)
qed

lemma g_expression_plain:
  assumes "s = [] \<or> hd s \<noteq> 58"
  shows "g_expression s = g_rest s"
  by (simp add: g_expression_alt g_head_None [OF assms])

lemma fold_build_params:
  "derives_params s ts \<Longrightarrow> fold build_step ts b = b\<lparr>ib_args := ib_args b @ map snd ts\<rparr>"
  by (induction arbitrary: b rule: derives_params.induct) simp_all

lemma g_expression_complete:
  assumes "derives_line s p c as"
  shows "\<exists>ts. g_expression s = Some (ts, []) \<and>
    fold build_step ts builder_default = \<lparr>ib_prefix = p, ib_command = Some c, ib_args = as\<rparr>"
  using assms
proof cases
  case (no_prefix t ts)
  then have "s = [] \<or> hd s \<noteq> 58"
    using is_command_hd [of c] by auto
  moreover have "g_rest s = Some ((R_command, c) # ts, [])"
    using no_prefix by (auto simp: g_rest_iff)
  ultimately show ?thesis
    using no_prefix by (simp add: g_expression_plain fold_build_params builder_default_def)
next
  case (with_prefix q sp t ts)
  have "g_head s = Some ([(R_prefix, q)], c @ t)"
    unfolding with_prefix(1)
    by (rule g_head_block) (use with_prefix is_command_hd [of c] in auto)
  moreover have "g_rest (c @ t) = Some ((R_command, c) # ts, [])"
    using with_prefix by (auto simp: g_rest_iff)
  ultimately show ?thesis
    using with_prefix by (simp add: g_expression_alt fold_build_params builder_default_def)
qed

lemma g_expression_sound:
  assumes "g_expression s = Some (ts, [])"
  shows "\<exists>p c as. derives_line s p c as \<and>
    fold build_step ts builder_default = \<lparr>ib_prefix = p, ib_command = Some c, ib_args = as\<rparr>"
proof (cases "g_head s")
  case None
  with assms obtain c r us where "s = c @ r" "is_command c" "derives_params r us"
    "ts = (R_command, c) # us"
    by (auto simp: g_expression_alt g_rest_iff)
  then show ?thesis
    by (auto simp: fold_build_params builder_default_def intro: no_prefix)
next
  case (Some a)
  then obtain hs r where h: "g_head s = Some (hs, r)" by (cases a) auto
  with assms obtain vs where "g_rest r = Some (vs, [])" "ts = hs @ vs"
    by (auto simp: g_expression_alt)
  with g_head_SomeD [OF h] show ?thesis
    by (auto simp: g_rest_iff fold_build_params builder_default_def intro!: with_prefix)
qed

section \<open>Consequences\<close>

lemma command_from_string_total: "\<exists>k. command_from_string c = Inr k"
proof -
  have "\<exists>s. index3 (utf8_bytes c) 0 1 2 = Inr s" if "byte_len c = 3"
    using that by (simp add: index3_def index_def byte_len_def)
  then show ?thesis
    unfolding command_from_string_def by (auto split: option.splits)
qed

lemma command_from_string_no_panic [simp]: "command_from_string c \<noteq> Inl e"
  using command_from_string_total [of c] by auto

lemma parse_Some_iff:
  "parse_irc_line s = Inr (Some l) \<longleftrightarrow>
     (\<exists>c. derives_line s (il_prefix l) c (il_args l) \<and> command_from_string c = Inr (il_command l))"
    (is "?l = ?r")
proof
  assume l: ?l
  then obtain ts where ts: "g_expression s = Some (ts, [])"
    by (auto simp: parse_irc_line_def split: option.splits if_splits)
  obtain p c as where "derives_line s p c as"
    "fold build_step ts builder_default = \<lparr>ib_prefix = p, ib_command = Some c, ib_args = as\<rparr>"
    using g_expression_sound [OF ts] by blast
  with l ts show ?r
    by (auto simp: parse_irc_line_def Let_def split: sum.splits)
next
  assume ?r
  then obtain c ts where "g_expression s = Some (ts, [])"
    "fold build_step ts builder_default
       = \<lparr>ib_prefix = il_prefix l, ib_command = Some c, ib_args = il_args l\<rparr>"
    "command_from_string c = Inr (il_command l)"
    using g_expression_complete by blast
  then show ?l
    by (simp add: parse_irc_line_def)
qed

lemma parse_total: "\<exists>r. parse_irc_line s = Inr r"
proof (cases "\<exists>ts. g_expression s = Some (ts, [])")
  case True
  then obtain ts p c as where "g_expression s = Some (ts, [])" "derives_line s p c as"
    "fold build_step ts builder_default = \<lparr>ib_prefix = p, ib_command = Some c, ib_args = as\<rparr>"
    using g_expression_sound by blast
  then show ?thesis
    using command_from_string_total [of c] by (auto simp: parse_irc_line_def)
next
  case False
  then show ?thesis
    by (auto simp: parse_irc_line_def split: option.splits)
qed

lemma parse_no_error [simp]: "parse_irc_line s \<noteq> Inl e"
  using parse_total [of s] by auto

lemma irc_command_from_str_total: "\<exists>r. irc_command_from_str s = Inr r"
  using parse_total [of s] by (auto simp: irc_command_from_str_def split: option.splits)

lemma irc_command_from_str_no_error [simp]: "irc_command_from_str s \<noteq> Inl e"
  using irc_command_from_str_total [of s] by auto

text \<open>The shape of parsed arguments.\<close>

lemma derives_params_args:
  "derives_params s ts \<Longrightarrow>
     list_all is_trailing (map snd ts) \<and> list_all is_middle (butlast (map snd ts))"
proof (induction rule: derives_params.induct)
  case (middle sp m s ts)
  moreover have "is_middle m \<Longrightarrow> is_trailing m"
    by (auto simp: is_middle_def is_trailing_def list_all_iff)
  ultimately show ?case by simp
qed simp_all

lemma derives_line_args:
  "derives_line s p c as \<Longrightarrow> list_all is_trailing as \<and> list_all is_middle (butlast as)"
  by (auto elim!: derives_lineE dest: derives_params_args)

lemma is_trailing_clean: "is_trailing t \<Longrightarrow> 0 \<notin> set t \<and> 10 \<notin> set t \<and> 13 \<notin> set t"
  by (auto simp: is_trailing_def list_all_iff trail_char_def nospc_def)

section \<open>Rendering\<close>

text \<open>A line built from its parts, with single spaces and an optional trailing argument.\<close>

definition render_params :: "rstr list \<Rightarrow> rstr option \<Rightarrow> rstr" where
  "render_params mids tr =
     concat (map (Cons 32) mids) @ (case tr of None \<Rightarrow> [] | Some t \<Rightarrow> 32 # 58 # t)"

definition render_line :: "rstr option \<Rightarrow> rstr \<Rightarrow> rstr list \<Rightarrow> rstr option \<Rightarrow> rstr" where
  "render_line p c mids tr =
     (case p of None \<Rightarrow> [] | Some q \<Rightarrow> 58 # q @ [32]) @ c @ render_params mids tr"

lemma is_spaces_single [simp]: "is_spaces [32]"
  by (simp add: is_spaces_def)

lemma derives_render_params:
  assumes "list_all is_middle mids" "pred_option is_trailing tr"
  shows "derives_params (render_params mids tr)
    (map (Pair R_param) mids @ map (Pair R_trailing_param) (case tr of None \<Rightarrow> [] | Some t \<Rightarrow> [t]))"
  using assms(1)
proof (induction mids)
  case Nil
  then show ?case
    using assms(2) derives_params.trailing [OF is_spaces_single]
    by (cases tr) (auto simp: render_params_def intro: derives_params.none)
next
  case (Cons m mids)
  then show ?case
    using derives_params.middle [OF is_spaces_single, of m "render_params mids tr"]
    by (simp add: render_params_def)
qed

lemma derives_render_line:
  assumes "pred_option is_prefix p" "is_command c" "list_all is_middle mids"
    "pred_option is_trailing tr"
  shows "derives_line (render_line p c mids tr) p c (mids @ (case tr of None \<Rightarrow> [] | Some t \<Rightarrow> [t]))"
proof -
  note ps = derives_render_params [OF assms(3,4)]
  have args: "map snd (map (Pair R_param) mids
      @ map (Pair R_trailing_param) (case tr of None \<Rightarrow> [] | Some t \<Rightarrow> [t]))
      = mids @ (case tr of None \<Rightarrow> [] | Some t \<Rightarrow> [t])"
    by (simp add: o_def)
  show ?thesis
  proof (cases p)
    case None
    with derives_line.no_prefix [OF assms(2) ps] show ?thesis
      unfolding args by (simp add: render_line_def)
  next
    case (Some q)
    with assms(1) have "is_prefix q" by simp
    from derives_line.with_prefix [OF this is_spaces_single assms(2) ps] Some show ?thesis
      unfolding args by (simp add: render_line_def)
  qed
qed

section \<open>Typed commands\<close>

fun min_args :: "command \<Rightarrow> nat option" where
  "min_args CQuit = Some 0"
| "min_args CAway = Some 0"
| "min_args CUser = Some 4"
| "min_args CPrivMsg = Some 2"
| "min_args CTopic = Some 2"
| "min_args (CNumeric _ _) = None"
| "min_args CUnknown = None"
| "min_args _ = Some 1"

lemma from_irc_line_None_iff:
  "from_irc_line l = None \<longleftrightarrow>
     (case min_args (il_command l) of None \<Rightarrow> True | Some n \<Rightarrow> length (il_args l) < n)"
  by (cases "il_command l")
    (auto simp: from_irc_line_def Let_def it_next_def it_nth_def split: list.splits)

lemma from_irc_line_command: "from_irc_line l = Some c \<Longrightarrow> command_of c = il_command l"
  by (cases "il_command l")
    (auto simp: from_irc_line_def Let_def split: list.splits prod.splits option.splits)

end
