(* ===== verification/Io_Env.thy ===== *)
theory Io_Env
  imports Prelude
begin

text \<open>
  The environment of a connection. A socket (\<open>S: AsyncRead + AsyncWrite\<close>) is a parameter of the
  program; here it is a script of the outcomes its calls will have, so that a theorem for every
  script is a theorem for every finite behaviour of a socket. A read may return fewer bytes than
  asked for, an empty read is end of file, a write may accept fewer bytes than offered, and every
  call may fail. A script that has run out blocks.
\<close>

record io_env =
  rd :: "(io_error + u8 list) list"
  wr :: "(io_error + nat) list"
  fl :: "(io_error + unit) list"
  sent :: "u8 list"

definition would_block :: io_error where
  "would_block = OsError WouldBlock []"

definition env_read :: "nat \<Rightarrow> io_env \<Rightarrow> (io_error + u8 list) \<times> io_env" where
  "env_read k e =
     (case rd e of
        [] \<Rightarrow> (Inl would_block, e)
      | Inl x # r \<Rightarrow> (Inl x, e\<lparr>rd := r\<rparr>)
      | Inr bs # r \<Rightarrow>
          if length bs \<le> k then (Inr bs, e\<lparr>rd := r\<rparr>)
          else (Inr (take k bs), e\<lparr>rd := Inr (drop k bs) # r\<rparr>))"

definition env_write :: "u8 list \<Rightarrow> io_env \<Rightarrow> (io_error + nat) \<times> io_env" where
  "env_write bs e =
     (case wr e of
        [] \<Rightarrow> (Inl would_block, e)
      | Inl x # r \<Rightarrow> (Inl x, e\<lparr>wr := r\<rparr>)
      | Inr n # r \<Rightarrow>
          (let m = min n (length bs) in (Inr m, e\<lparr>wr := r, sent := sent e @ take m bs\<rparr>)))"

definition env_flush :: "io_env \<Rightarrow> (io_error + unit) \<times> io_env" where
  "env_flush e =
     (case fl e of
        [] \<Rightarrow> (Inr (), e)
      | x # r \<Rightarrow> (x, e\<lparr>fl := r\<rparr>))"

text \<open>The bytes a script will still deliver, and its size.\<close>

fun script_data :: "(io_error + u8 list) list \<Rightarrow> u8 list" where
  "script_data [] = []"
| "script_data (Inl _ # r) = script_data r"
| "script_data (Inr bs # r) = bs @ script_data r"

definition env_data :: "io_env \<Rightarrow> u8 list" where
  "env_data e = script_data (rd e)"

definition env_size :: "io_env \<Rightarrow> nat" where
  "env_size e = 2 * length (env_data e) + length (rd e)"

lemma env_read_InrD:
  assumes "env_read k e = (Inr bs, e')"
  shows "env_data e = bs @ env_data e'" "length bs \<le> k" "wr e' = wr e" "fl e' = fl e" "sent e' = sent e"
    and "bs \<noteq> [] \<Longrightarrow> 0 < k \<Longrightarrow> env_size e' + length bs < env_size e"
  using assms
  by (auto simp: env_read_def env_data_def env_size_def split: list.splits sum.splits if_splits)

lemma env_read_InlD:
  assumes "env_read k e = (Inl x, e')"
  shows "env_data e' = env_data e" "wr e' = wr e" "fl e' = fl e" "sent e' = sent e"
    "env_size e' \<le> env_size e"
  using assms
  by (auto simp: env_read_def env_data_def env_size_def split: list.splits sum.splits if_splits)

text \<open>The entries of a script that stop a reader: an end of file and a failure. A read takes data before it.\<close>

lemma env_read_stops:
  assumes "env_read k e = (res, e')" "0 < k"
  shows "res = Inr bs \<Longrightarrow> bs \<noteq> [] \<Longrightarrow> x \<in> set (rd e') \<Longrightarrow> x = Inr [] \<or> isl x \<Longrightarrow> x \<in> set (rd e)"
    and "res = Inr [] \<Longrightarrow> Inr [] \<in> set (rd e)"
    and "res = Inl y \<Longrightarrow> rd e = [] \<and> y = would_block \<or> Inl y \<in> set (rd e)"
  using assms by (auto simp: env_read_def split: list.splits sum.splits if_splits)

lemma env_write_InrD:
  assumes "env_write bs e = (Inr n, e')"
  shows "sent e' = sent e @ take n bs" "n \<le> length bs" "rd e' = rd e" "fl e' = fl e"
    "length (wr e') < length (wr e)"
  using assms by (auto simp: env_write_def Let_def split: list.splits sum.splits)

lemma env_write_InlD:
  assumes "env_write bs e = (Inl x, e')"
  shows "sent e' = sent e" "rd e' = rd e" "fl e' = fl e"
  using assms by (auto simp: env_write_def Let_def split: list.splits sum.splits)

lemma env_flushD:
  assumes "env_flush e = (r, e')"
  shows "sent e' = sent e" "rd e' = rd e" "wr e' = wr e"
  using assms by (auto simp: env_flush_def split: list.splits)

lemma env_cong: "rd e' = rd e \<Longrightarrow> env_data e' = env_data e \<and> env_size e' = env_size e"
  by (simp add: env_data_def env_size_def)

end
