(* ===== verification/Stream_Fold.thy ===== *)
theory Stream_Fold
  imports Prelude
begin

text \<open>
  \<open>src/stream_fold.rs\<close>: a future that folds the items of a stream into a value until the function
  says it is done, and then hands back both the value and the stream. The stream is a parameter
  (\<open>poll\<close>). A stream that never stops producing would keep \<open>poll\<close> busy for ever, so the loop is a
  partial function; the locale \<open>item_stream\<close> gives the condition under which it returns, and the
  facts the callers use. The interpretations are in the theories of the streams.
\<close>

section \<open>The future\<close>

datatype ('s, 'v) stream_fold_state = Empty | Full 's 'v

type_synonym ('i, 's) poll_fn = "'s \<Rightarrow> (exn + 'i option async) \<times> 's"

partial_function (option) sf_loop ::
  "('i, 's) poll_fn \<Rightarrow> ('i \<Rightarrow> 'v \<Rightarrow> bool \<times> 'v) \<Rightarrow> 's \<Rightarrow> 'v \<Rightarrow>
     ((exn + ('v \<times> 's) option async) \<times> ('s, 'v) stream_fold_state) option" where
  "sf_loop poll func stream value =
     (case poll stream of
        (Inl e, _) \<Rightarrow> Some (Inl e, Empty)
      | (Inr (Ready (Some item)), stream') \<Rightarrow>
          (case func item value of
             (done, value') \<Rightarrow>
               if done then Some (Inr (Ready (Some (value', stream'))), Empty)
               else sf_loop poll func stream' value')
      | (Inr (Ready None), _) \<Rightarrow> Some (Inr (Ready None), Empty)
      | (Inr NotReady, stream') \<Rightarrow> Some (Inr NotReady, Full stream' value))"

declare sf_loop.simps [code]

definition sf_new :: "'s \<Rightarrow> 'v \<Rightarrow> ('s, 'v) stream_fold_state" where
  "sf_new stream value = Full stream value"

definition sf_poll ::
  "('i, 's) poll_fn \<Rightarrow> ('i \<Rightarrow> 'v \<Rightarrow> bool \<times> 'v) \<Rightarrow> ('s, 'v) stream_fold_state \<Rightarrow>
     ((exn + ('v \<times> 's) option async) \<times> ('s, 'v) stream_fold_state) option" where
  "sf_poll poll func st =
     (case st of
        Empty \<Rightarrow> Some (Inl (Panic ''cannot poll Fold twice''), Empty)
      | Full stream value \<Rightarrow> sf_loop poll func stream value)"

section \<open>Runs of a stream\<close>

text \<open>\<open>emitted poll s is s'\<close>: polling \<open>s\<close> gives the items \<open>is\<close>, one after the other, and ends in \<open>s'\<close>.\<close>

inductive emitted :: "('i, 's) poll_fn \<Rightarrow> 's \<Rightarrow> 'i list \<Rightarrow> 's \<Rightarrow> bool" for poll where
  stop: "emitted poll s [] s"
| item: "poll s = (Inr (Ready (Some i)), s') \<Longrightarrow> emitted poll s' is t \<Longrightarrow> emitted poll s (i # is) t"

inductive_simps emitted_Nil [simp]: "emitted poll s [] t"
inductive_simps emitted_Cons: "emitted poll s (i # is) t"

lemma emitted_append:
  "emitted poll s is t \<Longrightarrow> emitted poll t js u \<Longrightarrow> emitted poll s (is @ js) u"
  by (induction rule: emitted.induct) (auto intro: emitted.item)

text \<open>\<open>polled poll s is s'\<close>: polling \<open>s\<close> again and again, also after polls that had nothing to give and
  waited, gives the items \<open>is\<close> and ends in \<open>s'\<close>.\<close>

inductive polled :: "('i, 's) poll_fn \<Rightarrow> 's \<Rightarrow> 'i list \<Rightarrow> 's \<Rightarrow> bool" for poll where
  polled_stop: "polled poll s [] s"
| polled_item: "poll s = (Inr (Ready (Some i)), s') \<Longrightarrow> polled poll s' is t \<Longrightarrow> polled poll s (i # is) t"
| polled_wait: "poll s = (Inr NotReady, s') \<Longrightarrow> polled poll s' is t \<Longrightarrow> polled poll s is t"

text \<open>The value after the items, and the requirement that no item before the last one was final.\<close>

fun fold_items :: "('i \<Rightarrow> 'v \<Rightarrow> bool \<times> 'v) \<Rightarrow> 'i list \<Rightarrow> 'v \<Rightarrow> 'v" where
  "fold_items f [] v = v"
| "fold_items f (i # is) v = fold_items f is (snd (f i v))"

fun none_final :: "('i \<Rightarrow> 'v \<Rightarrow> bool \<times> 'v) \<Rightarrow> 'i list \<Rightarrow> 'v \<Rightarrow> bool" where
  "none_final f [] v = True"
| "none_final f (i # is) v = (\<not> fst (f i v) \<and> none_final f is (snd (f i v)))"

lemma fold_items_append: "fold_items f (is @ js) v = fold_items f js (fold_items f is v)"
  by (induction "is" arbitrary: v) auto

lemma sf_loop_step:
  "poll s = (Inr (Ready (Some i)), s') \<Longrightarrow> f i v = (False, v') \<Longrightarrow>
     sf_loop poll f s v = sf_loop poll f s' v'"
  by (subst sf_loop.simps) simp

lemma sf_loop_run:
  "emitted poll s is s' \<Longrightarrow> none_final f is v \<Longrightarrow>
     sf_loop poll f s v = sf_loop poll f s' (fold_items f is v)"
proof (induction arbitrary: v rule: emitted.induct)
  case (item s i s' "is" t)
  then show ?case
    by (cases "f i v") (simp add: sf_loop_step)
qed simp

text \<open>
  The two ways the loop can end after the items \<open>is\<close>: the stream had no further item (it failed,
  ended or blocked), or the last item was final.
\<close>

definition sf_paused ::
  "('i, 's) poll_fn \<Rightarrow> ('i \<Rightarrow> 'v \<Rightarrow> bool \<times> 'v) \<Rightarrow> 'v \<Rightarrow> 'i list \<Rightarrow> 's \<Rightarrow>
     (exn + ('v \<times> 's) option async) \<Rightarrow> ('s, 'v) stream_fold_state \<Rightarrow> bool" where
  "sf_paused poll f v is s' r st \<longleftrightarrow> none_final f is v \<and>
     (case poll s' of
        (Inl e, _) \<Rightarrow> r = Inl e \<and> st = Empty
      | (Inr (Ready None), _) \<Rightarrow> r = Inr (Ready None) \<and> st = Empty
      | (Inr (Ready (Some _)), _) \<Rightarrow> False
      | (Inr NotReady, t) \<Rightarrow> r = Inr NotReady \<and> st = Full t (fold_items f is v))"

definition sf_finished ::
  "('i \<Rightarrow> 'v \<Rightarrow> bool \<times> 'v) \<Rightarrow> 'v \<Rightarrow> 'i list \<Rightarrow> 's \<Rightarrow>
     (exn + ('v \<times> 's) option async) \<Rightarrow> ('s, 'v) stream_fold_state \<Rightarrow> bool" where
  "sf_finished f v is s' r st \<longleftrightarrow>
     is \<noteq> [] \<and> none_final f (butlast is) v \<and> fst (f (last is) (fold_items f (butlast is) v))
     \<and> r = Inr (Ready (Some (fold_items f is v, s'))) \<and> st = Empty"

lemma sf_paused_Cons:
  assumes "f i v = (False, v1)"
  shows "sf_paused poll f v (i # is) s' r st \<longleftrightarrow> sf_paused poll f v1 is s' r st"
  unfolding sf_paused_def fold_items.simps none_final.simps assms fst_conv snd_conv by simp

lemma sf_finished_Cons:
  "f i v = (False, v1) \<Longrightarrow> sf_finished f v1 is s' r st \<Longrightarrow> sf_finished f v (i # is) s' r st"
  by (auto simp: sf_finished_def)

section \<open>Streams that run dry\<close>

locale item_stream =
  fixes poll :: "('i, 's) poll_fn"
    and invar :: "'s \<Rightarrow> bool"
    and pending :: "'s \<Rightarrow> nat"
  assumes item_consumes:
      "invar s \<Longrightarrow> poll s = (Inr (Ready (Some i)), s') \<Longrightarrow> pending s' < pending s"
    and invar_poll: "invar s \<Longrightarrow> poll s = (r, s') \<Longrightarrow> invar s'"
begin

lemma invar_emitted: "emitted poll s is t \<Longrightarrow> invar s \<Longrightarrow> invar t"
  by (induction rule: emitted.induct) (auto dest: invar_poll)

lemma emitted_bound: "emitted poll s is t \<Longrightarrow> invar s \<Longrightarrow> length is + pending t \<le> pending s"
  by (induction rule: emitted.induct) (fastforce dest: invar_poll item_consumes)+

text \<open>The loop returns, and its result is that of folding the items the stream gave.\<close>

theorem loop_returns:
  assumes "invar s"
  shows "\<exists>is s' r st. emitted poll s is s' \<and> sf_loop poll f s v = Some (r, st)
    \<and> (sf_paused poll f v is s' r st \<or> sf_finished f v is s' r st)"
  using assms
proof (induction "pending s" arbitrary: s v rule: less_induct)
  case less
  obtain res s1 where p: "poll s = (res, s1)" by (cases "poll s")
  show ?case
  proof (cases "\<exists>i. res = Inr (Ready (Some i))")
    case False
    with p show ?thesis
      by (intro exI [of _ "[]"] exI [of _ s])
        (subst sf_loop.simps, auto simp: sf_paused_def split: sum.splits async.splits option.splits)
  next
    case True
    with p obtain i where i: "poll s = (Inr (Ready (Some i)), s1)" by blast
    obtain d v1 where f: "f i v = (d, v1)" by (cases "f i v")
    show ?thesis
    proof (cases d)
      case True
      with i f show ?thesis
        by (intro exI [of _ "[i]"] exI [of _ s1])
          (subst sf_loop.simps, auto simp: emitted_Cons sf_finished_def)
    next
      case False
      with f have f': "f i v = (False, v1)" by simp
      have "pending s1 < pending s" "invar s1"
        using item_consumes [OF less.prems i] invar_poll [OF less.prems i] .
      from less.hyps [OF this, of v1] obtain "is" s' r st where
        run: "emitted poll s1 is s'" "sf_loop poll f s1 v1 = Some (r, st)" and
        res: "sf_paused poll f v1 is s' r st \<or> sf_finished f v1 is s' r st"
        by blast
      have "emitted poll s (i # is) s'"
        using i run(1) by (rule emitted.item)
      moreover have "sf_loop poll f s v = Some (r, st)"
        using sf_loop_step [of poll s i s1 f v v1] i f' run(2) by simp
      moreover have "sf_paused poll f v (i # is) s' r st \<or> sf_finished f v (i # is) s' r st"
        using res sf_paused_Cons [of f i v v1 poll "is"] sf_finished_Cons [of f i v v1 "is" s' r st] f' by auto
      ultimately show ?thesis by blast
    qed
  qed
qed

lemma sf_poll_returns: "invar s \<Longrightarrow> \<exists>r st. sf_poll poll f (Full s v) = Some (r, st)"
  using loop_returns [of s f v] by (auto simp: sf_poll_def)

end

end
