(* ===== verification/Irc_Transport.thy ===== *)
theory Irc_Transport
  imports Irc_Grammar Io_Env Stream_Fold
begin

text \<open>
  \<open>src/irc/transport.rs\<close>: the buffered, line-oriented connection to an IRC client. The state is
  \<open>IrcServerConnection\<close> with its inner write buffer (a cursor: bytes and position) flattened into it;
  the socket is the script of \<open>Io_Env\<close>. The task handle in \<open>write_notify\<close> is only registered and
  notified, so the model keeps whether it is registered and how often it was notified.
\<close>

section \<open>State\<close>

record irc_server_connection =
  isc_conn :: io_env
  isc_read_buffer :: "u8 list"
  isc_write_buffer :: "u8 list"
  isc_write_pos :: nat
  isc_write_notify :: bool
  isc_notifies :: nat
  isc_closed :: bool
  isc_server_name :: rstr

definition isc_new :: "io_env \<Rightarrow> rstr \<Rightarrow> irc_server_connection" where
  "isc_new conn server_name =
     \<lparr>isc_conn = conn, isc_read_buffer = [], isc_write_buffer = [], isc_write_pos = 0,
      isc_write_notify = False, isc_notifies = 0, isc_closed = False,
      isc_server_name = server_name\<rparr>"

section \<open>Writing\<close>

text \<open>
  \<open>poll_write\<close>: every pass of the loop offers the unwritten rest of the buffer. The subtraction
  \<open>len() - pos\<close> cannot underflow, because the position never passes the end (\<open>cursor_ok\<close> below).
\<close>

function poll_write :: "irc_server_connection \<Rightarrow> (exn + unit async) \<times> irc_server_connection" where
  "poll_write c0 =
     (let c = c0\<lparr>isc_write_notify := True\<rparr>;
          pos = isc_write_pos c in
      if isc_write_buffer c = [] then (Inr (Ready ()), c)
      else if length (isc_write_buffer c) - pos = 0 then
        (Inr (Ready ()), c\<lparr>isc_write_buffer := [], isc_write_pos := 0\<rparr>)
      else
        (case env_write (drop pos (isc_write_buffer c)) (isc_conn c) of
           (Inl e, conn) \<Rightarrow>
             if err_kind e = WouldBlock then (Inr NotReady, c\<lparr>isc_conn := conn\<rparr>)
             else (Inl (IoErr e), c\<lparr>isc_conn := conn\<rparr>)
         | (Inr bytes_written, conn) \<Rightarrow>
             (case env_flush conn of
                (Inl e, conn') \<Rightarrow>
                  if err_kind e = WouldBlock then
                    (Inr NotReady, c\<lparr>isc_conn := conn', isc_write_pos := pos + bytes_written\<rparr>)
                  else
                    (Inl (IoErr e), c\<lparr>isc_conn := conn', isc_write_pos := pos + bytes_written\<rparr>)
              | (Inr _, conn') \<Rightarrow>
                  poll_write (c\<lparr>isc_conn := conn', isc_write_pos := pos + bytes_written\<rparr>))))"
  by pat_completeness auto
termination
  by (relation "measure (\<lambda>c. length (wr (isc_conn c)))")
    (auto dest!: env_write_InrD(5) [OF sym] env_flushD(3) [OF sym])

declare poll_write.simps [simp del]

definition write_line :: "rstr \<Rightarrow> irc_server_connection \<Rightarrow> irc_server_connection" where
  "write_line line c =
     (let c1 = c\<lparr>isc_write_buffer := isc_write_buffer c @ utf8_bytes line @ [10]\<rparr>;
          c2 = (if isc_write_notify c1 then c1\<lparr>isc_notifies := Suc (isc_notifies c1)\<rparr> else c1)
      in snd (poll_write c2))"

definition write_numeric :: "numeric \<Rightarrow> rstr \<Rightarrow> rstr \<Rightarrow> irc_server_connection \<Rightarrow> irc_server_connection" where
  "write_numeric numeric nick rest_of_line c =
     write_line (lit '':'' @ isc_server_name c @ lit '' '' @ numeric_as_str numeric @ lit '' ''
       @ nick @ lit '' '' @ rest_of_line) c"

definition isc_write_invalid_password :: "rstr \<Rightarrow> irc_server_connection \<Rightarrow> irc_server_connection" where
  "isc_write_invalid_password nick = write_numeric ErrPasswdmismatch nick (lit '':Invalid password'')"

definition write_password_required :: "rstr \<Rightarrow> irc_server_connection \<Rightarrow> irc_server_connection" where
  "write_password_required nick = write_numeric ErrNeedmoreparams nick (lit ''PASS :Password required'')"

definition isc_welcome :: "rstr \<Rightarrow> irc_server_connection \<Rightarrow> irc_server_connection" where
  "isc_welcome nick c0 =
     (let c1 = write_numeric RplWelcome nick (lit '':Welcome to the Matrix Internet Relay Network'') c0;
          motd_start = lit '':- '' @ isc_server_name c1 @ lit '' Message of the day -'';
          c2 = write_numeric RplMotdstart nick motd_start c1;
          c3 = write_numeric RplMotd nick (lit '':-'') c2;
          c4 = write_numeric RplMotd nick (lit '':- This is a bridge into Matrix'') c3;
          c5 = write_numeric RplMotd nick (lit '':-'') c4
      in write_numeric RplEndofmotd nick (lit '':End of MOTD'') c5)"

definition write_join :: "rstr \<Rightarrow> rstr \<Rightarrow> irc_server_connection \<Rightarrow> irc_server_connection" where
  "write_join nick channel = write_line (lit '':'' @ nick @ lit '' JOIN '' @ channel)"

definition write_topic :: "rstr \<Rightarrow> rstr \<Rightarrow> rstr \<Rightarrow> irc_server_connection \<Rightarrow> irc_server_connection" where
  "write_topic nick channel topic = write_numeric RplTopic nick (channel @ lit '' :'' @ topic)"

text \<open>\<open>slice::chunks\<close> with a positive chunk size.\<close>

function chunks :: "nat \<Rightarrow> 'a list \<Rightarrow> 'a list list" where
  "chunks n xs = (if xs = [] \<or> n = 0 then [] else take n xs # chunks n (drop n xs))"
  by pat_completeness auto
termination
  by (relation "measure (\<lambda>(n, xs). length xs)") auto

declare chunks.simps [simp del]

definition name_entry :: "rstr \<times> bool \<Rightarrow> rstr" where
  "name_entry p = (if snd p then lit ''@'' else lit '''') @ fst p @ lit '' ''"

definition names_line :: "rstr \<Rightarrow> (rstr \<times> bool) list \<Rightarrow> rstr" where
  "names_line channel chunk =
     trim (lit ''@ '' @ channel @ lit '' :'' @ concat (map name_entry chunk))"

definition write_names ::
  "rstr \<Rightarrow> rstr \<Rightarrow> (rstr \<times> bool) list \<Rightarrow> irc_server_connection \<Rightarrow> irc_server_connection" where
  "write_names nick channel names c =
     write_numeric RplEndofnames nick (channel @ lit '' :End of /NAMES'')
       (fold (\<lambda>chunk. write_numeric RplNamreply nick (names_line channel chunk)) (chunks 10 names) c)"

section \<open>Reading\<close>

text \<open>\<open>position\<close> of the first newline and \<open>drain(..pos + 1)\<close>.\<close>

definition next_line :: "u8 list \<Rightarrow> (u8 list \<times> u8 list) option" where
  "next_line bs =
     (if 10 \<in> set bs then Some (takeWhile (\<lambda>b. b \<noteq> 10) bs @ [10], tl (dropWhile (\<lambda>b. b \<noteq> 10) bs))
      else None)"

definition max_line :: nat where
  "max_line = 2048"

lemma next_line_SomeD:
  assumes "next_line bs = Some (l, r)"
  shows "bs = l @ r" "\<exists>p. l = p @ [10] \<and> 10 \<notin> set p" "length r < length bs"
proof -
  have nl: "10 \<in> set bs" and l: "l = takeWhile (\<lambda>b. b \<noteq> 10) bs @ [10]"
    and r: "r = tl (dropWhile (\<lambda>b. b \<noteq> 10) bs)"
    using assms by (auto simp: next_line_def split: if_splits)
  then have "dropWhile (\<lambda>b. b \<noteq> 10) bs \<noteq> []" "hd (dropWhile (\<lambda>b. b \<noteq> 10) bs) = 10"
    using hd_dropWhile [of "\<lambda>b. b \<noteq> 10" bs] by (auto simp: dropWhile_eq_Nil_conv)
  then have "dropWhile (\<lambda>b. b \<noteq> 10) bs = 10 # r"
    using r by (metis list.collapse)
  then show bs: "bs = l @ r"
    using l takeWhile_dropWhile_id [of "\<lambda>b. b \<noteq> 10" bs] by simp
  show "length r < length bs"
    by (subst bs) (simp add: l)
  show "\<exists>p. l = p @ [10] \<and> 10 \<notin> set p"
    using l by (auto dest: set_takeWhileD)
qed

lemma next_line_NoneD: "next_line bs = None \<longleftrightarrow> 10 \<notin> set bs"
  by (simp add: next_line_def)

lemma next_line_block: "10 \<notin> set p \<Longrightarrow> next_line (p @ 10 # r) = Some (p @ [10], r)"
  by (induction p) (auto simp: next_line_def)

text \<open>
  \<open>poll_read\<close>: the inner loop takes complete lines off the buffer, the outer one reads. A pass either
  shortens the buffer or moves bytes from the socket into it.
\<close>

definition read_size :: "irc_server_connection \<Rightarrow> nat" where
  "read_size c = length (isc_read_buffer c) + env_size (isc_conn c)"

lemma read_size_pop:
  "next_line (isc_read_buffer c) = Some x \<Longrightarrow> (l, r) = x \<Longrightarrow> read_size (c\<lparr>isc_read_buffer := r\<rparr>) < read_size c"
  using next_line_SomeD(3) [of "isc_read_buffer c" l r] by (simp add: read_size_def)

lemma read_size_read:
  assumes "(Inr bs, conn) = env_read (max_line - length (isc_read_buffer c)) (isc_conn c)"
    "bs \<noteq> []" "\<not> max_line \<le> length (isc_read_buffer c)"
  shows "read_size (c\<lparr>isc_conn := conn, isc_read_buffer := isc_read_buffer c @ bs\<rparr>) < read_size c"
proof -
  have "env_size conn + length bs < env_size (isc_conn c)"
    using assms by (intro env_read_InrD(6) [OF assms(1) [symmetric]]) auto
  then show ?thesis by (simp add: read_size_def)
qed

function poll_read :: "irc_server_connection \<Rightarrow> (exn + irc_command async) \<times> irc_server_connection" where
  "poll_read c =
     (case next_line (isc_read_buffer c) of
        Some (to_return, r) \<Rightarrow>
          (let c1 = c\<lparr>isc_read_buffer := r\<rparr> in
           case from_utf8 to_return of
             None \<Rightarrow> (Inl (IoErr (IoError InvalidData (lit ''Invalid UTF-8''))), c1)
           | Some line \<Rightarrow>
               (case irc_command_from_str (trim_end line) of
                  Inl e \<Rightarrow> (Inl e, c1)
                | Inr (Some cmd) \<Rightarrow> (Inr (Ready cmd), c1)
                | Inr None \<Rightarrow> poll_read c1))
      | None \<Rightarrow>
          (let start_len = length (isc_read_buffer c) in
           if start_len \<ge> max_line then
             (Inl (IoErr (IoError InvalidData (lit ''Line too long''))), c)
           else
             (case env_read (max_line - start_len) (isc_conn c) of
                (Inr bs, conn) \<Rightarrow>
                  if bs = [] then (Inr NotReady, c\<lparr>isc_conn := conn, isc_closed := True\<rparr>)
                  else poll_read (c\<lparr>isc_conn := conn, isc_read_buffer := isc_read_buffer c @ bs\<rparr>)
              | (Inl e, conn) \<Rightarrow>
                  if err_kind e = WouldBlock then (Inr NotReady, c\<lparr>isc_conn := conn\<rparr>)
                  else (Inl (IoErr e),
                    c\<lparr>isc_conn := conn,
                      isc_read_buffer := isc_read_buffer c @ replicate (max_line - start_len) 0\<rparr>))))"
  by pat_completeness auto
termination
  by (relation "measure read_size") (auto dest: read_size_pop read_size_read)

declare poll_read.simps [simp del]

text \<open>\<open>Stream::poll\<close>.\<close>

definition isc_poll ::
  "irc_server_connection \<Rightarrow> (exn + irc_command option async) \<times> irc_server_connection" where
  "isc_poll c =
     (if isc_closed c then (Inr (Ready None), c)
      else
        (case poll_write c of
           (Inl e, c1) \<Rightarrow> (Inl e, c1)
         | (Inr _, c1) \<Rightarrow>
             (case poll_read c1 of
                (Inl e, c2) \<Rightarrow> (Inl e, c2)
              | (Inr (Ready line), c2) \<Rightarrow> (Inr (Ready (Some line)), c2)
              | (Inr NotReady, c2) \<Rightarrow>
                  if isc_closed c2 then (Inr (Ready None), c2) else (Inr NotReady, c2))))"

section \<open>What writing does\<close>

text \<open>
  The abstract view of the write side is one byte stream: what the socket has accepted, followed by
  what is still in the buffer. Its reading side is left alone by all writers.
\<close>

definition cursor_ok :: "irc_server_connection \<Rightarrow> bool" where
  "cursor_ok c \<longleftrightarrow> isc_write_pos c \<le> length (isc_write_buffer c)"

definition queued :: "irc_server_connection \<Rightarrow> u8 list" where
  "queued c = sent (isc_conn c) @ drop (isc_write_pos c) (isc_write_buffer c)"

definition same_reader :: "irc_server_connection \<Rightarrow> irc_server_connection \<Rightarrow> bool" where
  "same_reader c c' \<longleftrightarrow> rd (isc_conn c') = rd (isc_conn c)
     \<and> isc_read_buffer c' = isc_read_buffer c \<and> isc_closed c' = isc_closed c
     \<and> isc_server_name c' = isc_server_name c"

definition same_writer :: "irc_server_connection \<Rightarrow> irc_server_connection \<Rightarrow> bool" where
  "same_writer c c' \<longleftrightarrow> sent (isc_conn c') = sent (isc_conn c)
     \<and> isc_write_buffer c' = isc_write_buffer c \<and> isc_write_pos c' = isc_write_pos c
     \<and> isc_server_name c' = isc_server_name c"

lemma same_reader_refl [simp]: "same_reader c c"
  by (simp add: same_reader_def)

lemma same_reader_trans: "same_reader a b \<Longrightarrow> same_reader b c \<Longrightarrow> same_reader a c"
  by (simp add: same_reader_def)

definition line_bytes :: "rstr \<Rightarrow> u8 list" where
  "line_bytes l = utf8_bytes l @ [10]"

text \<open>What a run of \<open>poll_write\<close> guarantees, whatever the socket does.\<close>

definition write_step ::
  "irc_server_connection \<Rightarrow> exn + unit async \<Rightarrow> irc_server_connection \<Rightarrow> bool" where
  "write_step c r c' \<longleftrightarrow> cursor_ok c' \<and> queued c' = queued c \<and> same_reader c c'
     \<and> isc_write_notify c' \<and> \<not> is_panic r
     \<and> (\<exists>bs. sent (isc_conn c') = sent (isc_conn c) @ bs)
     \<and> (r = Inr (Ready ()) \<longrightarrow> isc_write_buffer c' = [] \<and> isc_write_pos c' = 0)"

lemma write_step_trans:
  "write_step c1 r c2 \<Longrightarrow> queued c1 = queued c \<Longrightarrow> same_reader c c1
     \<Longrightarrow> (\<exists>bs. sent (isc_conn c1) = sent (isc_conn c) @ bs) \<Longrightarrow> write_step c r c2"
  by (auto simp: write_step_def same_reader_def)

lemma poll_write_step: "cursor_ok c \<Longrightarrow> poll_write c = (r, c') \<Longrightarrow> write_step c r c'"
proof (induction c arbitrary: r c' rule: poll_write.induct)
  case (1 c)
  let ?c = "c\<lparr>isc_write_notify := True\<rparr>"
  let ?pos = "isc_write_pos c"
  show ?case
  proof (cases "length (isc_write_buffer c) - ?pos = 0")
    case True
    with 1 show ?thesis
      by (auto simp: poll_write.simps [of c] Let_def write_step_def cursor_ok_def queued_def
          same_reader_def split: if_splits)
  next
    case False
    then have ne: "isc_write_buffer c \<noteq> []" by auto
    obtain wres conn where w: "env_write (drop ?pos (isc_write_buffer c)) (isc_conn c) = (wres, conn)"
      by (cases "env_write (drop ?pos (isc_write_buffer c)) (isc_conn c)")
    show ?thesis
    proof (cases wres)
      case (Inl e)
      with 1 False ne w env_write_InlD [of "drop ?pos (isc_write_buffer c)" "isc_conn c" e conn]
      show ?thesis
        by (auto simp: poll_write.simps [of c] Let_def write_step_def cursor_ok_def queued_def
            same_reader_def split: if_splits)
    next
      case (Inr n)
      obtain fres conn' where f: "env_flush conn = (fres, conn')"
        by (cases "env_flush conn")
      define c1 where "c1 = ?c\<lparr>isc_conn := conn', isc_write_pos := ?pos + n\<rparr>"
      note wr = env_write_InrD [OF w [unfolded Inr]] and fl = env_flushD [OF f]
      have c1: "cursor_ok c1" "queued c1 = queued c" "same_reader c c1"
        "sent (isc_conn c1) = sent (isc_conn c) @ take n (drop ?pos (isc_write_buffer c))"
        using "1.prems"(1) False wr fl
        by (auto simp: c1_def cursor_ok_def queued_def same_reader_def add.commute
            append_take_drop_id simp flip: drop_drop)
      show ?thesis
      proof (cases fres)
        case (Inl e)
        with \<open>wres = Inr n\<close> "1.prems" False ne w f have "c' = c1" "\<not> is_panic r" "r \<noteq> Inr (Ready ())"
          by (auto simp: poll_write.simps [of c] Let_def c1_def split: if_splits)
        with c1 show ?thesis
          by (auto simp: write_step_def) (simp add: c1_def)
      next
        case (Inr u)
        with \<open>wres = Inr n\<close> "1.prems" False ne w f have "poll_write c1 = (r, c')"
          by (simp add: poll_write.simps [of c] Let_def c1_def)
        with "1.IH" [of ?c ?pos] \<open>wres = Inr n\<close> Inr False ne w f c1 have "write_step c1 r c'"
          by (simp add: c1_def)
        with c1 show ?thesis
          by (blast intro: write_step_trans)
      qed
    qed
  qed
qed

section \<open>What the writers queue\<close>

text \<open>\<open>emits c c' ls\<close>: the operation queued exactly the lines \<open>ls\<close>, in this order.\<close>

definition emits :: "irc_server_connection \<Rightarrow> irc_server_connection \<Rightarrow> rstr list \<Rightarrow> bool" where
  "emits c c' ls \<longleftrightarrow> cursor_ok c' \<and> queued c' = queued c @ concat (map line_bytes ls)
     \<and> same_reader c c'"

lemma emits_Nil: "cursor_ok c \<Longrightarrow> emits c c []"
  by (simp add: emits_def)

lemma emits_trans: "emits a b ls \<Longrightarrow> emits b c ms \<Longrightarrow> emits a c (ls @ ms)"
  by (auto simp: emits_def intro: same_reader_trans)

lemma emits_cursor: "emits c c' ls \<Longrightarrow> cursor_ok c'"
  by (simp add: emits_def)

lemma emits_server_name: "emits c c' ls \<Longrightarrow> isc_server_name c' = isc_server_name c"
  by (simp add: emits_def same_reader_def)

lemma emits_write_line:
  assumes "cursor_ok c"
  shows "emits c (write_line line c) [line]"
proof -
  let ?c1 = "c\<lparr>isc_write_buffer := isc_write_buffer c @ utf8_bytes line @ [10]\<rparr>"
  let ?c2 = "if isc_write_notify ?c1 then ?c1\<lparr>isc_notifies := Suc (isc_notifies ?c1)\<rparr> else ?c1"
  have c2: "cursor_ok ?c2" "queued ?c2 = queued c @ line_bytes line" "same_reader c ?c2"
    using assms by (auto simp: cursor_ok_def queued_def same_reader_def line_bytes_def)
  obtain r c' where p: "poll_write ?c2 = (r, c')"
    by (cases "poll_write ?c2")
  then have "write_line line c = c'"
    by (simp add: write_line_def Let_def)
  with poll_write_step [OF c2(1) p] c2 show ?thesis
    by (auto simp: emits_def write_step_def intro: same_reader_trans)
qed

definition numeric_line :: "rstr \<Rightarrow> numeric \<Rightarrow> rstr \<Rightarrow> rstr \<Rightarrow> rstr" where
  "numeric_line server numeric nick rest_of_line =
     lit '':'' @ server @ lit '' '' @ numeric_as_str numeric @ lit '' '' @ nick @ lit '' '' @ rest_of_line"

lemma emits_write_numeric:
  "cursor_ok c \<Longrightarrow>
     emits c (write_numeric n nick rest c) [numeric_line (isc_server_name c) n nick rest]"
  unfolding write_numeric_def numeric_line_def by (rule emits_write_line)

text \<open>A sequence of lines, and a sequence of replies.\<close>

lemma emits_fold:
  assumes "\<And>x c. cursor_ok c \<Longrightarrow> isc_server_name c = s \<Longrightarrow> emits c (f x c) (g x)"
  shows "cursor_ok c \<Longrightarrow> isc_server_name c = s \<Longrightarrow> emits c (fold f xs c) (concat (map g xs))"
proof (induction xs arbitrary: c)
  case Nil
  then show ?case by (simp add: emits_Nil)
next
  case (Cons x xs)
  have 1: "emits c (f x c) (g x)" by (rule assms) (use Cons.prems in simp_all)
  moreover have "emits (f x c) (fold f xs (f x c)) (concat (map g xs))"
    by (rule Cons.IH) (use 1 Cons.prems in \<open>simp_all add: emits_cursor emits_server_name\<close>)
  ultimately show ?case by (auto dest: emits_trans)
qed

definition welcome_lines :: "rstr \<Rightarrow> rstr \<Rightarrow> rstr list" where
  "welcome_lines server nick =
     [numeric_line server RplWelcome nick (lit '':Welcome to the Matrix Internet Relay Network''),
      numeric_line server RplMotdstart nick (lit '':- '' @ server @ lit '' Message of the day -''),
      numeric_line server RplMotd nick (lit '':-''),
      numeric_line server RplMotd nick (lit '':- This is a bridge into Matrix''),
      numeric_line server RplMotd nick (lit '':-''),
      numeric_line server RplEndofmotd nick (lit '':End of MOTD'')]"

lemma emits_snoc_numeric:
  "emits c c' ls \<Longrightarrow>
     emits c (write_numeric n nick rest c') (ls @ [numeric_line (isc_server_name c) n nick rest])"
  using emits_write_numeric [of c' n nick rest]
  by (metis emits_cursor emits_server_name emits_trans)

lemma emits_welcome:
  assumes "cursor_ok c"
  shows "emits c (isc_welcome nick c) (welcome_lines (isc_server_name c) nick)"
proof -
  let ?s = "isc_server_name c"
  let ?c1 = "write_numeric RplWelcome nick (lit '':Welcome to the Matrix Internet Relay Network'') c"
  have 1: "emits c ?c1
      [numeric_line ?s RplWelcome nick (lit '':Welcome to the Matrix Internet Relay Network'')]"
    by (rule emits_write_numeric [OF assms])
  note more = 1 [THEN emits_snoc_numeric, THEN emits_snoc_numeric, THEN emits_snoc_numeric,
      THEN emits_snoc_numeric, THEN emits_snoc_numeric]
  show ?thesis
    unfolding isc_welcome_def welcome_lines_def Let_def emits_server_name [OF 1]
    using more by (simp only: append.simps)
qed

definition names_lines :: "rstr \<Rightarrow> rstr \<Rightarrow> rstr \<Rightarrow> (rstr \<times> bool) list \<Rightarrow> rstr list" where
  "names_lines server nick channel names =
     map (\<lambda>chunk. numeric_line server RplNamreply nick (names_line channel chunk)) (chunks 10 names)
     @ [numeric_line server RplEndofnames nick (channel @ lit '' :End of /NAMES'')]"

lemma emits_write_names:
  assumes "cursor_ok c"
  shows "emits c (write_names nick channel names c) (names_lines (isc_server_name c) nick channel names)"
proof -
  let ?s = "isc_server_name c"
  have "emits c (fold (\<lambda>chunk. write_numeric RplNamreply nick (names_line channel chunk)) (chunks 10 names) c)
      (concat (map (\<lambda>chunk. [numeric_line ?s RplNamreply nick (names_line channel chunk)]) (chunks 10 names)))"
    by (rule emits_fold [where s = ?s]) (use assms in \<open>simp_all, metis emits_write_numeric\<close>)
  from emits_snoc_numeric [OF this] show ?thesis
    by (simp add: write_names_def names_lines_def concat_map_singleton)
qed

lemma chunks_concat: "0 < n \<Longrightarrow> concat (chunks n xs) = xs"
  by (induction n xs rule: chunks.induct) (subst chunks.simps, auto)

lemma chunks_size: "c \<in> set (chunks n xs) \<Longrightarrow> c \<noteq> [] \<and> length c \<le> n"
proof (induction n xs rule: chunks.induct)
  case (1 n xs)
  then show ?case
    by (subst (asm) (2) chunks.simps) (auto split: if_splits)
qed

section \<open>What reading does\<close>

text \<open>
  The abstract view of the read side is one byte stream too: the buffer followed by what the socket
  will deliver. Its complete lines are commands, lines to skip, or not UTF-8.
\<close>

definition in_stream :: "irc_server_connection \<Rightarrow> u8 list" where
  "in_stream c = isc_read_buffer c @ env_data (isc_conn c)"

definition complete_line :: "u8 list \<Rightarrow> bool" where
  "complete_line l \<longleftrightarrow> (\<exists>p. l = p @ [10] \<and> 10 \<notin> set p)"

datatype line_outcome = Command irc_command | Skipped | Bad_utf8

definition line_outcome :: "u8 list \<Rightarrow> line_outcome" where
  "line_outcome l =
     (case from_utf8 l of
        None \<Rightarrow> Bad_utf8
      | Some s \<Rightarrow>
          (case irc_command_from_str (trim_end s) of
             Inr (Some cmd) \<Rightarrow> Command cmd
           | _ \<Rightarrow> Skipped))"

function commands_of :: "u8 list \<Rightarrow> irc_command list" where
  "commands_of bs =
     (case next_line bs of
        None \<Rightarrow> []
      | Some (l, r) \<Rightarrow>
          (case line_outcome l of
             Command cmd \<Rightarrow> cmd # commands_of r
           | Skipped \<Rightarrow> commands_of r
           | Bad_utf8 \<Rightarrow> []))"
  by pat_completeness auto
termination
  by (relation "measure length") (auto dest: next_line_SomeD(3))

declare commands_of.simps [simp del]

lemma commands_of_line:
  assumes "complete_line l"
  shows "commands_of (l @ r) =
    (case line_outcome l of
       Command cmd \<Rightarrow> cmd # commands_of r | Skipped \<Rightarrow> commands_of r | Bad_utf8 \<Rightarrow> [])"
proof -
  from assms obtain p where "l = p @ [10]" "10 \<notin> set p" by (auto simp: complete_line_def)
  then have "next_line (l @ r) = Some (l, r)"
    using next_line_block [of p r] by simp
  then show ?thesis by (subst commands_of.simps) simp
qed

lemma next_line_complete: "next_line bs = Some (l, r) \<Longrightarrow> complete_line l"
  using next_line_SomeD(2) by (auto simp: complete_line_def)

text \<open>
  One run of \<open>poll_read\<close> consumes some complete lines to skip, and then either one command line, or
  nothing more. It never panics, keeps the buffer within its bound and leaves the write side alone.
\<close>

definition skipped_lines :: "u8 list list \<Rightarrow> bool" where
  "skipped_lines ls \<longleftrightarrow> list_all (\<lambda>l. complete_line l \<and> line_outcome l = Skipped) ls"

lemma commands_of_skipped:
  "skipped_lines ls \<Longrightarrow> commands_of (concat ls @ r) = commands_of r"
  by (induction ls) (auto simp: skipped_lines_def commands_of_line)

definition read_step ::
  "irc_server_connection \<Rightarrow> exn + irc_command async \<Rightarrow> irc_server_connection \<Rightarrow> bool" where
  "read_step c r c' \<longleftrightarrow>
     (\<exists>ls. skipped_lines ls \<and>
        (case r of
           Inr (Ready cmd) \<Rightarrow>
             (\<exists>l. complete_line l \<and> line_outcome l = Command cmd
                \<and> in_stream c = concat ls @ l @ in_stream c') \<and> read_size c' < read_size c
         | Inr NotReady \<Rightarrow>
             in_stream c = concat ls @ in_stream c' \<and> 10 \<notin> set (isc_read_buffer c')
         | Inl (IoErr e) \<Rightarrow> True
         | Inl (Panic _) \<Rightarrow> False))
     \<and> same_writer c c'
     \<and> (length (isc_read_buffer c) \<le> max_line \<longrightarrow> length (isc_read_buffer c') \<le> max_line)
     \<and> (isc_closed c \<longrightarrow> isc_closed c')
     \<and> (isc_closed c' \<longrightarrow> isc_closed c \<or> r = Inr NotReady)"

lemma same_writer_trans: "same_writer a b \<Longrightarrow> same_writer b c \<Longrightarrow> same_writer a c"
  by (simp add: same_writer_def)

text \<open>The two kinds of passes before the last one: a line that is skipped, and a read.\<close>

lemma read_step_pass:
  assumes "read_step c1 r c'" "skipped_lines ls" "in_stream c = concat ls @ in_stream c1"
    "same_writer c c1" "isc_closed c1 = isc_closed c" "read_size c1 \<le> read_size c"
    "length (isc_read_buffer c) \<le> max_line \<Longrightarrow> length (isc_read_buffer c1) \<le> max_line"
  shows "read_step c r c'"
proof -
  from assms(1) obtain ms where ms: "skipped_lines ms" and
    out: "(case r of
           Inr (Ready cmd) \<Rightarrow>
             (\<exists>l. complete_line l \<and> line_outcome l = Command cmd
                \<and> in_stream c1 = concat ms @ l @ in_stream c') \<and> read_size c' < read_size c1
         | Inr NotReady \<Rightarrow> in_stream c1 = concat ms @ in_stream c' \<and> 10 \<notin> set (isc_read_buffer c')
         | Inl (IoErr e) \<Rightarrow> True
         | Inl (Panic _) \<Rightarrow> False)"
    by (auto simp: read_step_def)
  have "skipped_lines (ls @ ms)"
    using assms(2) ms by (simp add: skipped_lines_def)
  with assms out show ?thesis
    unfolding read_step_def
    by (intro conjI exI [of _ "ls @ ms"])
      (auto simp: same_writer_def split: sum.splits exn.splits async.splits)
qed

lemma poll_read_step: "poll_read c = (r, c') \<Longrightarrow> read_step c r c'"
proof (induction c arbitrary: r c' rule: poll_read.induct)
  case (1 c)
  show ?case
  proof (cases "next_line (isc_read_buffer c)")
    case (Some x)
    then obtain l rest where nl: "next_line (isc_read_buffer c) = Some (l, rest)" by (cases x) auto
    define c1 where "c1 = c\<lparr>isc_read_buffer := rest\<rparr>"
    note rb = next_line_SomeD [OF nl]
    have str: "in_stream c = l @ in_stream c1" and size: "read_size c1 < read_size c"
      and wr: "same_writer c c1" and len: "length (isc_read_buffer c1) < length (isc_read_buffer c)"
      and cl: "isc_closed c1 = isc_closed c"
      using rb read_size_pop [OF nl refl]
      by (auto simp: c1_def in_stream_def same_writer_def)
    show ?thesis
    proof (cases "from_utf8 l")
      case None
      with "1.prems" nl have "r = Inl (IoErr (IoError InvalidData (lit ''Invalid UTF-8'')))" "c' = c1"
        by (simp_all add: poll_read.simps [of c] c1_def Let_def)
      with wr len cl show ?thesis
        by (auto simp: read_step_def skipped_lines_def intro!: exI [of _ "[] :: u8 list list"])
    next
      case (Some line)
      obtain o' where cmd: "irc_command_from_str (trim_end line) = Inr o'"
        using irc_command_from_str_total by blast
      show ?thesis
      proof (cases o')
        case None
        with cmd Some have out: "line_outcome l = Skipped"
          by (simp add: line_outcome_def)
        from "1.prems" nl Some cmd None have "poll_read c1 = (r, c')"
          by (simp add: poll_read.simps [of c] c1_def)
        with "1.IH"(2) [OF nl refl c1_def Some cmd None] have "read_step c1 r c'" by blast
        then show ?thesis
          by (rule read_step_pass [where ls = "[l]"])
            (use out str size wr len cl next_line_complete [OF nl] in \<open>auto simp: skipped_lines_def\<close>)
      next
        case (Some k)
        with cmd \<open>from_utf8 l = Some line\<close> "1.prems" nl
        have "r = Inr (Ready k)" "c' = c1" "line_outcome l = Command k"
          by (simp_all add: poll_read.simps [of c] c1_def Let_def line_outcome_def)
        with str size wr len cl next_line_complete [OF nl] show ?thesis
          by (auto simp: read_step_def skipped_lines_def intro!: exI [of _ "[] :: u8 list list"])
      qed
    qed
  next
    case None
    let ?n = "length (isc_read_buffer c)"
    show ?thesis
    proof (cases "max_line \<le> ?n")
      case True
      with "1.prems" None show ?thesis
        by (auto simp: poll_read.simps [of c] read_step_def same_writer_def skipped_lines_def
            intro!: exI [of _ "[] :: u8 list list"])
    next
      case False
      obtain res conn where rd: "env_read (max_line - ?n) (isc_conn c) = (res, conn)"
        by (cases "env_read (max_line - ?n) (isc_conn c)")
      show ?thesis
      proof (cases res)
        case (Inl e)
        note d = env_read_InlD [OF rd [unfolded Inl]]
        from "1.prems" None False rd Inl d show ?thesis
          by (auto simp: poll_read.simps [of c] Let_def read_step_def same_writer_def in_stream_def
              skipped_lines_def next_line_NoneD split: if_splits intro!: exI [of _ "[] :: u8 list list"])
      next
        case (Inr bs)
        note d = env_read_InrD [OF rd [unfolded Inr]]
        show ?thesis
        proof (cases "bs = []")
          case True
          with "1.prems" None False rd Inr d show ?thesis
            by (auto simp: poll_read.simps [of c] Let_def read_step_def same_writer_def in_stream_def
                skipped_lines_def next_line_NoneD intro!: exI [of _ "[] :: u8 list list"])
        next
          case ne: False
          define c1 where "c1 = c\<lparr>isc_conn := conn, isc_read_buffer := isc_read_buffer c @ bs\<rparr>"
          from "1.prems" None False rd Inr ne have "poll_read c1 = (r, c')"
            by (simp add: poll_read.simps [of c] Let_def c1_def)
          with "1.IH"(1) [OF None refl] False rd Inr ne have rs: "read_step c1 r c'"
            by (simp add: c1_def)
          have "read_size c1 < read_size c"
            unfolding c1_def by (rule read_size_read) (use rd Inr ne False in auto)
          then show ?thesis
            by (intro read_step_pass [OF rs, where ls = "[]"])
              (use d False in \<open>auto simp: c1_def in_stream_def same_writer_def skipped_lines_def\<close>)
        qed
      qed
    qed
  qed
qed

text \<open>Reading at the edge of the buffer: the line that does not fit, and the one that does.\<close>

definition read_failed :: "io_env \<Rightarrow> exn + irc_command async \<Rightarrow> bool" where
  "read_failed env r \<longleftrightarrow> (\<exists>e. r = Inl (IoErr e) \<and> Inl e \<in> set (rd env) \<and> err_kind e \<noteq> WouldBlock)"

lemma read_failed_later:
  assumes "read_failed e' r" "env_read k e = (Inr bs, e')" "0 < k" "bs \<noteq> []"
  shows "read_failed e r"
  using assms env_read_stops(1) [OF assms(2,3) refl assms(4)] by (fastforce simp: read_failed_def)

lemma poll_read_long_line:
  "poll_read c = (r, c') \<Longrightarrow> length (isc_read_buffer c) \<le> 2048 \<Longrightarrow>
    2048 \<le> length (in_stream c) \<and> 10 \<notin> set (take 2048 (in_stream c)) \<longrightarrow>
      r = Inl (IoErr (IoError InvalidData (lit ''Line too long'')))
        \<and> isc_read_buffer c' = take 2048 (in_stream c)
      \<or> (r = Inr NotReady \<and> in_stream c' = in_stream c \<and> length (isc_read_buffer c') < 2048
          \<or> read_failed (isc_conn c) r)
        \<and> (\<exists>x \<in> set (rd (isc_conn c)). x = Inr [] \<or> isl x)"
proof (induction c arbitrary: r c' rule: poll_read.induct)
  case (1 c)
  let ?n = "length (isc_read_buffer c)"
  show ?case
  proof (intro impI, elim conjE)
    assume long: "2048 \<le> length (in_stream c)" and no: "10 \<notin> set (take 2048 (in_stream c))"
    have "10 \<notin> set (isc_read_buffer c)"
      using no "1.prems"(2) by (auto simp: in_stream_def)
    then have nl: "next_line (isc_read_buffer c) = None" by (simp add: next_line_def)
    show "r = Inl (IoErr (IoError InvalidData (lit ''Line too long'')))
        \<and> isc_read_buffer c' = take 2048 (in_stream c)
      \<or> (r = Inr NotReady \<and> in_stream c' = in_stream c \<and> length (isc_read_buffer c') < 2048
          \<or> read_failed (isc_conn c) r)
        \<and> (\<exists>x \<in> set (rd (isc_conn c)). x = Inr [] \<or> isl x)"
    proof (cases "max_line \<le> ?n")
      case True
      with "1.prems" nl show ?thesis
        by (auto simp: poll_read.simps [of c] max_line_def in_stream_def)
    next
      case False
      obtain res conn where rd: "env_read (max_line - ?n) (isc_conn c) = (res, conn)"
        by (cases "env_read (max_line - ?n) (isc_conn c)")
      from False have k: "0 < max_line - ?n" by simp
      show ?thesis
      proof (cases res)
        case (Inl e)
        have "rd (isc_conn c) \<noteq> []"
          using long False by (auto simp: in_stream_def env_data_def max_line_def)
        with env_read_stops(3) [OF rd k Inl] have "Inl e \<in> set (rd (isc_conn c))" by blast
        with "1.prems" nl False rd Inl env_read_InlD [OF rd [unfolded Inl]] show ?thesis
          by (auto simp: poll_read.simps [of c] Let_def in_stream_def max_line_def read_failed_def
              split: if_splits intro!: bexI [of _ "Inl e"])
      next
        case (Inr bs)
        note d = env_read_InrD [OF rd [unfolded Inr]]
        show ?thesis
        proof (cases "bs = []")
          case True
          with env_read_stops(2) [OF rd k] Inr "1.prems" nl False rd d show ?thesis
            by (auto simp: poll_read.simps [of c] Let_def in_stream_def max_line_def
                intro!: bexI [of _ "Inr []"])
        next
          case ne: False
          define c1 where "c1 = c\<lparr>isc_conn := conn, isc_read_buffer := isc_read_buffer c @ bs\<rparr>"
          have "poll_read c1 = (r, c')" "in_stream c1 = in_stream c" "length (isc_read_buffer c1) \<le> 2048"
            using "1.prems" nl False rd Inr ne d
            by (simp_all add: poll_read.simps [of c] Let_def c1_def in_stream_def max_line_def)
          with "1.IH"(1) [OF nl refl] False rd Inr ne long no
          have "r = Inl (IoErr (IoError InvalidData (lit ''Line too long'')))
              \<and> isc_read_buffer c' = take 2048 (in_stream c)
            \<or> (r = Inr NotReady \<and> in_stream c' = in_stream c \<and> length (isc_read_buffer c') < 2048
                \<or> read_failed conn r)
              \<and> (\<exists>x \<in> set (rd conn). x = Inr [] \<or> isl x)"
            by (simp add: c1_def)
          with env_read_stops(1) [OF rd k Inr ne] read_failed_later [OF _ rd [unfolded Inr] k ne]
          show ?thesis by blast
        qed
      qed
    qed
  qed
qed

lemma poll_read_short_line:
  "poll_read c = (r, c') \<Longrightarrow> length (isc_read_buffer c) \<le> 2048 \<Longrightarrow>
    in_stream c = p @ 10 # rest \<and> 10 \<notin> set p \<and> length p < 2048
      \<and> from_utf8 (p @ [10]) = Some line \<and> irc_command_from_str (trim_end line) = Inr (Some cmd) \<longrightarrow>
      r = Inr (Ready cmd) \<and> in_stream c' = rest
      \<or> r = Inr NotReady \<and> in_stream c' = in_stream c \<and> 10 \<notin> set (isc_read_buffer c')
      \<or> read_failed (isc_conn c) r"
proof (induction c arbitrary: r c' rule: poll_read.induct)
  case (1 c)
  let ?n = "length (isc_read_buffer c)"
  let ?goal = "r = Inr (Ready cmd) \<and> in_stream c' = rest
      \<or> r = Inr NotReady \<and> in_stream c' = in_stream c \<and> 10 \<notin> set (isc_read_buffer c')
      \<or> read_failed (isc_conn c) r"
  show ?case
  proof (intro impI, elim conjE)
    assume str: "in_stream c = p @ 10 # rest" and no: "10 \<notin> set p" and short: "length p < 2048"
      and cmd: "from_utf8 (p @ [10]) = Some line" "irc_command_from_str (trim_end line) = Inr (Some cmd)"
    show ?goal
    proof (cases "next_line (isc_read_buffer c)")
      case (Some x)
      then obtain l q where nl: "next_line (isc_read_buffer c) = Some (l, q)" by (cases x) auto
      note rb = next_line_SomeD [OF nl]
      then obtain p' where l: "l = p' @ [10]" "10 \<notin> set p'" by blast
      with rb(1) str have eq: "p' @ 10 # (q @ env_data (isc_conn c)) = p @ 10 # rest"
        by (simp add: in_stream_def)
      with l(2) no have "p' = p" "q @ env_data (isc_conn c) = rest"
        by (metis Pair_inject append_same_eq eq next_line_block option.inject)+
      with "1.prems"(1) nl l cmd show ?thesis
        by (auto simp: poll_read.simps [of c] in_stream_def Let_def)
    next
      case None
      from None have nn: "10 \<notin> set (isc_read_buffer c)" by (simp add: next_line_def split: if_splits)
      have "?n \<le> length p"
      proof (rule ccontr)
        assume "\<not> ?n \<le> length p"
        then have "isc_read_buffer c ! length p = in_stream c ! length p" "length p < ?n"
          by (simp_all add: in_stream_def nth_append)
        with str nn show False by (metis nth_append_length nth_mem)
      qed
      with short have small: "\<not> max_line \<le> ?n" by (simp add: max_line_def)
      obtain res conn where rd: "env_read (max_line - ?n) (isc_conn c) = (res, conn)"
        by (cases "env_read (max_line - ?n) (isc_conn c)")
      from small have k: "0 < max_line - ?n" by simp
      show ?thesis
      proof (cases res)
        case (Inl e)
        from env_read_stops(3) [OF rd k Inl]
        have "err_kind e \<noteq> WouldBlock \<Longrightarrow> Inl e \<in> set (rd (isc_conn c))"
          by (auto simp: would_block_def)
        with "1.prems" None nn small rd Inl env_read_InlD [OF rd [unfolded Inl]] show ?thesis
          by (auto simp: poll_read.simps [of c] Let_def in_stream_def read_failed_def split: if_splits)
      next
        case (Inr bs)
        note d = env_read_InrD [OF rd [unfolded Inr]]
        show ?thesis
        proof (cases "bs = []")
          case True
          with Inr "1.prems" None nn small rd d show ?thesis
            by (auto simp: poll_read.simps [of c] Let_def in_stream_def)
        next
          case ne: False
          define c1 where "c1 = c\<lparr>isc_conn := conn, isc_read_buffer := isc_read_buffer c @ bs\<rparr>"
          have "poll_read c1 = (r, c')" "in_stream c1 = in_stream c" "length (isc_read_buffer c1) \<le> 2048"
            using "1.prems" None small rd Inr ne d
            by (simp_all add: poll_read.simps [of c] Let_def c1_def in_stream_def max_line_def)
          with "1.IH"(1) [OF None refl] small rd Inr ne str no short cmd
          have "r = Inr (Ready cmd) \<and> in_stream c' = rest
            \<or> r = Inr NotReady \<and> in_stream c' = in_stream c \<and> 10 \<notin> set (isc_read_buffer c')
            \<or> read_failed conn r"
            by (simp add: c1_def)
          with read_failed_later [OF _ rd [unfolded Inr] k ne] show ?thesis by blast
        qed
      qed
    qed
  qed
qed

section \<open>The stream of commands\<close>

lemma same_reader_stream:
  "same_reader c c' \<Longrightarrow> in_stream c' = in_stream c \<and> read_size c' = read_size c"
  using env_cong [of "isc_conn c'" "isc_conn c"] by (simp add: same_reader_def in_stream_def read_size_def)

text \<open>The reader is untouched by the writers even where the cursor is not in range.\<close>

lemma poll_write_reader: "poll_write c = (r, c') \<Longrightarrow> same_reader c c'"
proof (induction c arbitrary: r c' rule: poll_write.induct)
  case (1 c)
  show ?case
  proof (cases "isc_write_buffer c = [] \<or> length (isc_write_buffer c) - isc_write_pos c = 0")
    case True
    with "1.prems" show ?thesis
      by (auto simp: poll_write.simps [of c] Let_def same_reader_def split: if_splits)
  next
    case False
    obtain wres conn where
      w: "env_write (drop (isc_write_pos c) (isc_write_buffer c)) (isc_conn c) = (wres, conn)"
      by (cases "env_write (drop (isc_write_pos c) (isc_write_buffer c)) (isc_conn c)")
    obtain fres conn' where f: "env_flush conn = (fres, conn')" by (cases "env_flush conn")
    show ?thesis
    proof (cases wres)
      case (Inl e)
      with "1.prems" False w env_write_InlD [OF w [unfolded Inl]] show ?thesis
        by (auto simp: poll_write.simps [of c] Let_def same_reader_def split: if_splits)
    next
      case wr: (Inr n)
      note d = env_write_InrD [OF w [unfolded wr]] env_flushD [OF f]
      show ?thesis
      proof (cases fres)
        case (Inl e)
        with "1.prems" False w wr f d show ?thesis
          by (auto simp: poll_write.simps [of c] Let_def same_reader_def split: if_splits)
      next
        case (Inr u)
        define c1 where "c1 = c\<lparr>isc_write_notify := True, isc_conn := conn',
          isc_write_pos := isc_write_pos c + n\<rparr>"
        from "1.prems" False w wr f Inr have "poll_write c1 = (r, c')"
          by (simp add: poll_write.simps [of c] Let_def c1_def)
        with "1.IH" [OF refl refl] False w wr f Inr have "same_reader c1 c'"
          by (simp add: c1_def)
        moreover have "same_reader c c1"
          using d by (simp add: c1_def same_reader_def)
        ultimately show ?thesis by (blast intro: same_reader_trans)
      qed
    qed
  qed
qed

lemma write_line_reader [simp, frame_simps]: "same_reader c (write_line l c)"
proof -
  let ?c1 = "c\<lparr>isc_write_buffer := isc_write_buffer c @ utf8_bytes l @ [10]\<rparr>"
  let ?c2 = "if isc_write_notify ?c1 then ?c1\<lparr>isc_notifies := Suc (isc_notifies ?c1)\<rparr> else ?c1"
  have "same_reader c ?c2" by (simp add: same_reader_def)
  moreover have "same_reader ?c2 (snd (poll_write ?c2))"
    by (metis poll_write_reader prod.collapse)
  ultimately show ?thesis
    unfolding write_line_def Let_def by (rule same_reader_trans)
qed

lemma write_numeric_reader [simp, frame_simps]: "same_reader c (write_numeric n nick rest c)"
  by (simp add: write_numeric_def)

lemma same_reader_fold:
  "(\<And>x c. same_reader c (f x c)) \<Longrightarrow> same_reader c (fold f xs c)"
  by (induction xs arbitrary: c) (auto intro: same_reader_trans)

lemma write_names_reader [simp, frame_simps]: "same_reader c (write_names nick channel names c)"
  unfolding write_names_def
  by (rule same_reader_trans [OF same_reader_fold write_numeric_reader]) simp

lemma write_join_reader [simp, frame_simps]: "same_reader c (write_join nick channel c)"
  by (simp add: write_join_def)

lemma write_topic_reader [simp, frame_simps]: "same_reader c (write_topic nick channel topic c)"
  by (simp add: write_topic_def)

definition isc_inv :: "irc_server_connection \<Rightarrow> bool" where
  "isc_inv c \<longleftrightarrow> cursor_ok c \<and> length (isc_read_buffer c) \<le> max_line"

lemma isc_inv_new [simp]: "isc_inv (isc_new conn server_name)"
  by (simp add: isc_inv_def isc_new_def cursor_ok_def)

lemma isc_inv_emits [inv_intros]: "isc_inv c \<Longrightarrow> emits c c' ls \<Longrightarrow> isc_inv c'"
  by (simp add: isc_inv_def emits_def same_reader_def)

text \<open>One poll of the stream, as its callers need it.\<close>

definition stream_step ::
  "irc_server_connection \<Rightarrow> exn + irc_command option async \<Rightarrow> irc_server_connection \<Rightarrow> bool" where
  "stream_step c r c' \<longleftrightarrow> isc_inv c' \<and> emits c (c'\<lparr>isc_conn := (isc_conn c')\<lparr>rd := rd (isc_conn c)\<rparr>,
       isc_read_buffer := isc_read_buffer c, isc_closed := isc_closed c\<rparr>) []
     \<and> (case r of
          Inr (Ready (Some cmd)) \<Rightarrow> commands_of (in_stream c) = cmd # commands_of (in_stream c')
            \<and> read_size c' < read_size c
        | Inr (Ready None) \<Rightarrow> commands_of (in_stream c) = commands_of (in_stream c') \<and> isc_closed c'
        | Inr NotReady \<Rightarrow> commands_of (in_stream c) = commands_of (in_stream c')
            \<and> 10 \<notin> set (isc_read_buffer c') \<and> \<not> isc_closed c'
        | Inl e \<Rightarrow> \<not> is_panic r)"

lemma isc_poll_consumes:
  assumes "isc_poll c = (Inr (Ready (Some cmd)), c')"
  shows "read_size c' < read_size c"
proof -
  obtain w c1 where w: "poll_write c = (w, c1)" by (cases "poll_write c")
  with assms obtain k where "poll_read c1 = (Inr (Ready k), c')"
    by (auto simp: isc_poll_def split: if_splits sum.splits prod.splits async.splits)
  from poll_read_step [OF this] same_reader_stream [OF poll_write_reader [OF w]]
  show ?thesis by (auto simp: read_step_def)
qed

lemma isc_poll_step:
  assumes inv: "isc_inv c" and poll: "isc_poll c = (r, c')"
  shows "stream_step c r c'"
proof (cases "isc_closed c")
  case True
  with assms show ?thesis
    by (auto simp: isc_poll_def stream_step_def isc_inv_def emits_def queued_def cursor_ok_def
        same_reader_def)
next
  case False
  obtain w c1 where w: "poll_write c = (w, c1)" by (cases "poll_write c")
  have ws: "write_step c w c1"
    using inv poll_write_step [OF _ w] by (simp add: isc_inv_def)
  then have sr: "same_reader c c1" and inv1: "isc_inv c1"
    using inv by (auto simp: write_step_def isc_inv_def same_reader_def)
  have base: "emits c (c2\<lparr>isc_conn := (isc_conn c2)\<lparr>rd := rd (isc_conn c)\<rparr>,
      isc_read_buffer := isc_read_buffer c, isc_closed := isc_closed c\<rparr>) []"
    if "same_writer c1 c2" for c2
    using that ws by (auto simp: emits_def write_step_def same_writer_def same_reader_def
        cursor_ok_def queued_def)
  show ?thesis
  proof (cases w)
    case (Inl e)
    with poll False w have "r = Inl e" "c' = c1" by (simp_all add: isc_poll_def)
    with base [of c1] inv1 ws Inl show ?thesis
      by (cases e) (simp_all add: stream_step_def same_writer_def write_step_def)
  next
    case (Inr a)
    obtain q c2 where q: "poll_read c1 = (q, c2)" by (cases "poll_read c1")
    note rs = poll_read_step [OF q]
    have out: "r = (case q of Inl e \<Rightarrow> Inl e | Inr (Ready k) \<Rightarrow> Inr (Ready (Some k))
        | Inr NotReady \<Rightarrow> if isc_closed c2 then Inr (Ready None) else Inr NotReady)" "c' = c2"
      using poll False w Inr q
      by (auto simp: isc_poll_def split: sum.splits async.splits if_splits)
    have inv2: "isc_inv c2"
      using rs inv1 by (auto simp: read_step_def isc_inv_def same_writer_def cursor_ok_def)
    have sw: "same_writer c1 c2" using rs by (simp add: read_step_def)
    note eqs = same_reader_stream [OF sr]
    show ?thesis
    proof (cases q)
      case (Inl e)
      with rs have "\<not> is_panic (Inl e)"
        by (cases e) (auto simp: read_step_def)
      with out Inl inv2 base [OF sw] show ?thesis
        by (cases e) (simp_all add: stream_step_def)
    next
      case (Inr k)
      show ?thesis
      proof (cases k)
        case (Ready cmd)
        with rs \<open>q = Inr k\<close> obtain ls l where "skipped_lines ls" "complete_line l"
          "line_outcome l = Command cmd" "in_stream c1 = concat ls @ l @ in_stream c2"
          "read_size c2 < read_size c1"
          by (auto simp: read_step_def)
        with eqs have "commands_of (in_stream c) = cmd # commands_of (in_stream c2)"
          "read_size c2 < read_size c"
          by (metis commands_of_skipped commands_of_line line_outcome.simps(8), simp)
        with out \<open>q = Inr k\<close> Ready inv2 base [OF sw] show ?thesis
          by (simp add: stream_step_def)
      next
        case NotReady
        with rs \<open>q = Inr k\<close> obtain ls where "skipped_lines ls" "in_stream c1 = concat ls @ in_stream c2"
          "10 \<notin> set (isc_read_buffer c2)"
          by (auto simp: read_step_def)
        with eqs have "commands_of (in_stream c) = commands_of (in_stream c2)"
          by (metis commands_of_skipped)
        with out \<open>q = Inr k\<close> NotReady inv2 base [OF sw] \<open>10 \<notin> _\<close> show ?thesis
          by (simp add: stream_step_def)
      qed
    qed
  qed
qed

lemma stream_step_queued: "stream_step c r c' \<Longrightarrow> queued c' = queued c \<and> isc_server_name c' = isc_server_name c"
  by (auto simp: stream_step_def emits_def queued_def same_reader_def)

lemma stream_step_inv: "stream_step c r c' \<Longrightarrow> isc_inv c'"
  by (simp add: stream_step_def)

interpretation isc: item_stream isc_poll isc_inv read_size
  by unfold_locales (auto dest: isc_poll_consumes isc_poll_step stream_step_inv)

lemma emitted_commands:
  "emitted isc_poll c cmds c' \<Longrightarrow> isc_inv c \<Longrightarrow>
     isc_inv c' \<and> queued c' = queued c \<and> commands_of (in_stream c) = cmds @ commands_of (in_stream c')"
proof (induction rule: emitted.induct)
  case (item s i s' "is" t)
  note st = isc_poll_step [OF item.prems item.hyps(1)]
  with item.IH have "isc_inv t" "queued t = queued s'" "commands_of (in_stream s') = is @ commands_of (in_stream t)"
    by (auto dest: stream_step_inv)
  with st stream_step_queued [OF st] show ?case
    by (auto simp: stream_step_def)
qed simp

text \<open>The same over polls that may wait: a blocked read leaves the bytes it found where they are.\<close>

lemma polled_commands:
  "polled isc_poll c cmds c' \<Longrightarrow> isc_inv c \<Longrightarrow>
     isc_inv c' \<and> queued c' = queued c \<and> commands_of (in_stream c) = cmds @ commands_of (in_stream c')"
proof (induction rule: polled.induct)
  case (polled_item s i s' "is" t)
  note st = isc_poll_step [OF polled_item.prems polled_item.hyps(1)]
  with polled_item.IH stream_step_inv [OF st] stream_step_queued [OF st] show ?case
    by (simp add: stream_step_def)
next
  case (polled_wait s s' "is" t)
  note st = isc_poll_step [OF polled_wait.prems polled_wait.hyps(1)]
  with polled_wait.IH stream_step_inv [OF st] stream_step_queued [OF st] show ?case
    by (simp add: stream_step_def)
qed simp

lemma commands_of_no_newline: "10 \<notin> set bs \<Longrightarrow> commands_of bs = []"
  by (subst commands_of.simps) (simp add: next_line_def)

end
