(* ===== verification/Btree_Map.thy ===== *)
theory Btree_Map
  imports Prelude
begin

text \<open>
  \<open>BTreeMap\<close> as an association list in strictly ascending key order: the order in which the
  program's loops over a map visit the entries. The locale \<open>ordered_map\<close> states what the rest of
  the program relies on; the interpretation at the end discharges it for the operations here.
\<close>

section \<open>Operations\<close>

type_synonym ('k, 'v) btree = "('k \<times> 'v) list"

abbreviation bt_empty :: "('k, 'v) btree" where
  "bt_empty \<equiv> []"

definition bt_get :: "('k, 'v) btree \<Rightarrow> 'k \<Rightarrow> 'v option" where
  "bt_get = map_of"

fun bt_insert :: "'k::linorder \<Rightarrow> 'v \<Rightarrow> ('k, 'v) btree \<Rightarrow> ('k, 'v) btree" where
  "bt_insert k v [] = [(k, v)]"
| "bt_insert k v ((k', v') # m) =
     (if k < k' then (k, v) # (k', v') # m
      else if k = k' then (k, v) # m
      else (k', v') # bt_insert k v m)"

definition bt_remove :: "'k \<Rightarrow> ('k, 'v) btree \<Rightarrow> ('k, 'v) btree" where
  "bt_remove k m = filter (\<lambda>e. fst e \<noteq> k) m"

definition bt_contains :: "('k, 'v) btree \<Rightarrow> 'k \<Rightarrow> bool" where
  "bt_contains m k \<longleftrightarrow> bt_get m k \<noteq> None"

definition bt_keys :: "('k, 'v) btree \<Rightarrow> 'k list" where
  "bt_keys m = map fst m"

definition bt_wf :: "('k::linorder, 'v) btree \<Rightarrow> bool" where
  "bt_wf m \<longleftrightarrow> sorted_wrt (<) (map fst m)"

text \<open>\<open>collect()\<close> of an iterator of pairs: later pairs overwrite earlier ones.\<close>

definition bt_collect :: "('k::linorder \<times> 'v) list \<Rightarrow> ('k, 'v) btree" where
  "bt_collect xs = fold (\<lambda>(k, v) m. bt_insert k v m) xs bt_empty"

section \<open>The interface\<close>

locale ordered_map =
  fixes invar :: "'m \<Rightarrow> bool"
    and empty :: "'m"
    and get :: "'m \<Rightarrow> 'k::linorder \<Rightarrow> 'v option"
    and insert :: "'k \<Rightarrow> 'v \<Rightarrow> 'm \<Rightarrow> 'm"
    and remove :: "'k \<Rightarrow> 'm \<Rightarrow> 'm"
    and keys :: "'m \<Rightarrow> 'k list"
  assumes invar_empty: "invar empty"
    and invar_insert: "invar m \<Longrightarrow> invar (insert k v m)"
    and invar_remove: "invar m \<Longrightarrow> invar (remove k m)"
    and get_empty: "get empty k = None"
    and get_insert: "get (insert k v m) k' = (if k' = k then Some v else get m k')"
    and get_remove: "get (remove k m) k' = (if k' = k then None else get m k')"
    and set_keys: "set (keys m) = {k. get m k \<noteq> None}"
    and keys_ascending: "invar m \<Longrightarrow> sorted_wrt (<) (keys m)"
begin

lemma distinct_keys: "invar m \<Longrightarrow> distinct (keys m)"
  using keys_ascending strict_sorted_iff by blast

lemma keys_insert: "set (keys (insert k v m)) = Set.insert k (set (keys m))"
  by (auto simp: set_keys get_insert split: if_splits)

lemma keys_remove: "set (keys (remove k m)) = set (keys m) - {k}"
  by (auto simp: set_keys get_remove split: if_splits)

lemma get_none_iff: "get m k = None \<longleftrightarrow> k \<notin> set (keys m)"
  by (simp add: set_keys)

lemma invar_fold_insert:
  "invar m \<Longrightarrow> invar (fold (\<lambda>(k, v) m. insert k v m) xs m)"
  by (induction xs arbitrary: m) (auto simp: invar_insert)

lemma get_fold_insert:
  "get (fold (\<lambda>(k, v) m. insert k v m) xs m) k
     = (case map_of (rev xs) k of Some v \<Rightarrow> Some v | None \<Rightarrow> get m k)"
proof (induction xs arbitrary: m)
  case Nil
  then show ?case by simp
next
  case (Cons x xs)
  then show ?case
    by (cases x) (auto simp: get_insert map_add_def split: option.splits)
qed

lemma length_keys_le: "invar m \<Longrightarrow> length (keys m) = card (set (keys m))"
  by (simp add: distinct_keys distinct_card)

end

section \<open>The implementation meets the interface\<close>

lemma bt_get_Nil [simp]: "bt_get [] k = None"
  by (simp add: bt_get_def)

lemma bt_get_Cons: "bt_get ((k, v) # m) k' = (if k' = k then Some v else bt_get m k')"
  by (simp add: bt_get_def)

lemma bt_get_insert: "bt_get (bt_insert k v m) k' = (if k' = k then Some v else bt_get m k')"
  by (induction k v m rule: bt_insert.induct) (auto simp: bt_get_Cons)

lemma set_keys_insert: "fst ` set (bt_insert k v m) = insert k (fst ` set m)"
  by (induction k v m rule: bt_insert.induct) auto

lemma bt_wf_Nil [simp]: "bt_wf []"
  by (simp add: bt_wf_def)

lemma bt_wf_insert: "bt_wf m \<Longrightarrow> bt_wf (bt_insert k v m)"
proof (induction k v m rule: bt_insert.induct)
  case (2 k v k' v' m)
  then show ?case
    by (auto simp: bt_wf_def set_keys_insert ball_Un simp flip: image_iff)
qed (simp add: bt_wf_def)

interpretation bt: ordered_map bt_wf bt_empty bt_get bt_insert bt_remove bt_keys
proof unfold_locales
  fix m :: "('a, 'b) btree" and k k' :: 'a and v :: 'b
  show "bt_wf (bt_empty :: ('a, 'b) btree)" by simp
  show "bt_wf m \<Longrightarrow> bt_wf (bt_insert k v m)" by (rule bt_wf_insert)
  show "bt_wf m \<Longrightarrow> bt_wf (bt_remove k m)"
    by (simp add: bt_wf_def bt_remove_def sorted_wrt_map sorted_wrt_filter)
  show "bt_get bt_empty k = None" by simp
  show "bt_get (bt_insert k v m) k' = (if k' = k then Some v else bt_get m k')"
    by (rule bt_get_insert)
  show "bt_get (bt_remove k m) k' = (if k' = k then None else bt_get m k')"
    by (induction m) (auto simp: bt_remove_def bt_get_def)
  show "set (bt_keys m) = {k. bt_get m k \<noteq> None}"
    by (force simp: bt_keys_def bt_get_def map_of_eq_None_iff)
  show "bt_wf m \<Longrightarrow> sorted_wrt (<) (bt_keys m)"
    by (simp add: bt_wf_def bt_keys_def)
qed

lemmas bt_simps [simp] = bt.get_insert bt.get_remove bt.keys_insert bt.keys_remove
lemmas bt_wf_intros [intro, simp] = bt.invar_insert bt.invar_remove

lemma bt_contains_iff:
  fixes k :: "'k::linorder"
  shows "bt_contains m k \<longleftrightarrow> k \<in> set (bt_keys m)"
  by (simp add: bt_contains_def bt.set_keys)

lemma bt_get_Some_key:
  fixes k :: "'k::linorder"
  shows "bt_get m k = Some v \<Longrightarrow> k \<in> set (bt_keys m)"
  by (simp add: bt.set_keys)

lemma bt_keys_Nil [simp]: "bt_keys [] = []"
  by (simp add: bt_keys_def)

lemma length_bt_keys [simp]: "length (bt_keys m) = length m"
  by (simp add: bt_keys_def)

lemma bt_get_mem: "bt_wf m \<Longrightarrow> (k, v) \<in> set m \<longleftrightarrow> bt_get m k = Some v"
  by (simp add: bt_get_def bt_wf_def strict_sorted_iff)

lemma bt_get_SomeD: "bt_get m k = Some v \<Longrightarrow> (k, v) \<in> set m"
  by (simp add: bt_get_def map_of_SomeD)

lemma bt_wf_collect [simp]: "bt_wf (bt_collect xs)"
  unfolding bt_collect_def by (rule bt.invar_fold_insert) simp

lemma bt_get_collect: "bt_get (bt_collect xs) k = map_of (rev xs) k"
  unfolding bt_collect_def by (simp add: bt.get_fold_insert split: option.splits)

lemma bt_keys_collect: "set (bt_keys (bt_collect xs)) = fst ` set xs"
  by (auto simp: bt.set_keys bt_get_collect map_of_eq_None_iff)

lemma option_eqI: "(\<And>v. x = Some v \<longleftrightarrow> y = Some v) \<Longrightarrow> x = y"
  by (cases x; cases y) auto

lemma map_of_rev_distinct: "distinct (map fst xs) \<Longrightarrow> map_of (rev xs) = map_of xs"
proof (induction xs)
  case (Cons x xs)
  then have "map_of (rev xs) (fst x) = None"
    by (simp add: map_of_eq_None_iff)
  with Cons show ?case
    by (cases x) (auto simp: fun_eq_iff map_add_def split: option.splits)
qed simp

lemma set_bt_collect:
  assumes "distinct (map fst xs)"
  shows "set (bt_collect xs) = set xs"
proof -
  have "(k, v) \<in> set (bt_collect xs) \<longleftrightarrow> (k, v) \<in> set xs" for k v
    using assms bt_get_mem [OF bt_wf_collect, of k v xs]
    by (simp add: bt_get_collect map_of_rev_distinct)
  then show ?thesis by auto
qed

end
