(* ===== verification/Irc_Models.thy ===== *)
theory Irc_Models
  imports Btree_Map
begin

text \<open>
  \<open>src/irc/models.rs\<close>: the IRC server's view of channels and users, one record per struct and one
  definition per method of \<open>ServerModel\<close>, the two panics (adding an existing channel, a member
  without a user) included. The locale \<open>user_directory\<close> is the part of this interface the bridge
  relies on; it is interpreted here on \<open>ServerModel\<close> and later on \<open>IrcUserConnection\<close>.
\<close>

section \<open>Data\<close>

record user_room_entry =
  ure_operator :: bool
  ure_voice :: bool

record channel =
  ch_name :: rstr
  ch_topic :: rstr
  ch_modes :: "u8 list"
  ch_users :: "(rstr, user_room_entry) btree"

record user =
  us_nick :: rstr
  us_user :: rstr
  us_mask :: rstr
  us_channels :: "rstr set"

record server_model =
  sm_channels :: "(rstr, channel) btree"
  sm_users :: "(rstr, user) btree"

section \<open>Operations\<close>

definition sm_new :: server_model where
  "sm_new = \<lparr>sm_channels = bt_empty, sm_users = bt_empty\<rparr>"

definition sm_nick_exists :: "server_model \<Rightarrow> rstr \<Rightarrow> bool" where
  "sm_nick_exists sm nick \<longleftrightarrow> bt_contains (sm_users sm) nick"

definition sm_channel_exists :: "server_model \<Rightarrow> rstr \<Rightarrow> bool" where
  "sm_channel_exists sm channel \<longleftrightarrow> bt_contains (sm_channels sm) channel"

definition sm_create_user :: "rstr \<Rightarrow> rstr \<Rightarrow> server_model \<Rightarrow> server_model" where
  "sm_create_user nick user sm =
     sm\<lparr>sm_users := bt_insert nick
          \<lparr>us_nick = nick, us_user = user, us_mask = lit ''/matrix/user'', us_channels = {}\<rparr>
          (sm_users sm)\<rparr>"

definition make_channel :: "rstr \<Rightarrow> rstr \<Rightarrow> (rstr \<times> bool) list \<Rightarrow> channel" where
  "make_channel name topic members =
     \<lparr>ch_name = name, ch_topic = topic, ch_modes = [0x2B, 0x6E],
      ch_users = bt_collect
        (map (\<lambda>(nick, is_operator). (nick, \<lparr>ure_operator = is_operator, ure_voice = False\<rparr>)) members)\<rparr>"

definition note_membership :: "rstr \<Rightarrow> rstr \<times> bool \<Rightarrow> (rstr, user) btree \<Rightarrow> (rstr, user) btree" where
  "note_membership name m users =
     (case bt_get users (fst m) of
        Some u \<Rightarrow> bt_insert (fst m) (u\<lparr>us_channels := insert name (us_channels u)\<rparr>) users
      | None \<Rightarrow> users)"

definition sm_add_channel ::
  "rstr \<Rightarrow> rstr \<Rightarrow> (rstr \<times> bool) list \<Rightarrow> server_model \<Rightarrow> exn + (channel \<times> server_model)" where
  "sm_add_channel name topic members sm =
     (if bt_contains (sm_channels sm) name then
        Inl (Panic ''Trying to add channel that already exists'')
      else
        (let channels = bt_insert name (make_channel name topic members) (sm_channels sm);
             users = fold (note_membership name) members (sm_users sm)
         in case bt_get channels name of
              Some c \<Rightarrow> Inr (c, sm\<lparr>sm_channels := channels, sm_users := users\<rparr>)
            | None \<Rightarrow> Inl (Panic ''no entry found for key'')))"

definition sm_get_channel :: "server_model \<Rightarrow> rstr \<Rightarrow> channel option" where
  "sm_get_channel sm channel = bt_get (sm_channels sm) channel"

fun members_of ::
  "(rstr, user) btree \<Rightarrow> (rstr \<times> user_room_entry) list \<Rightarrow> exn + (user \<times> user_room_entry) list" where
  "members_of users [] = Inr []"
| "members_of users ((nick, user_entry) # r) =
     (case bt_get users nick of
        None \<Rightarrow> Inl (Panic ''expected user to exist'')
      | Some u \<Rightarrow>
          (case members_of users r of
             Inl e \<Rightarrow> Inl e
           | Inr ms \<Rightarrow> Inr ((u, user_entry) # ms)))"

definition sm_get_members ::
  "server_model \<Rightarrow> rstr \<Rightarrow> exn + (user \<times> user_room_entry) list option" where
  "sm_get_members sm channel =
     (case bt_get (sm_channels sm) channel of
        None \<Rightarrow> Inr None
      | Some c \<Rightarrow> map_sum id Some (members_of (sm_users sm) (ch_users c)))"

section \<open>Invariant\<close>

text \<open>
  Both maps are keyed by the names they hold, every member of a channel is a known user, and the
  two views of membership (\<open>Channel.users\<close> and \<open>User.channels\<close>) agree.
\<close>

definition sm_keyed :: "server_model \<Rightarrow> bool" where
  "sm_keyed sm \<longleftrightarrow> bt_wf (sm_channels sm) \<and> bt_wf (sm_users sm)
     \<and> (\<forall>n c. bt_get (sm_channels sm) n = Some c \<longrightarrow> ch_name c = n \<and> bt_wf (ch_users c))
     \<and> (\<forall>n u. bt_get (sm_users sm) n = Some u \<longrightarrow> us_nick u = n)"

definition sm_members_known :: "server_model \<Rightarrow> bool" where
  "sm_members_known sm \<longleftrightarrow>
     (\<forall>n c. bt_get (sm_channels sm) n = Some c
        \<longrightarrow> set (bt_keys (ch_users c)) \<subseteq> set (bt_keys (sm_users sm)))"

definition in_channel :: "server_model \<Rightarrow> rstr \<Rightarrow> rstr \<Rightarrow> bool" where
  "in_channel sm nick name \<longleftrightarrow>
     (\<exists>c. bt_get (sm_channels sm) name = Some c \<and> nick \<in> set (bt_keys (ch_users c)))"

definition sm_views_agree :: "server_model \<Rightarrow> bool" where
  "sm_views_agree sm \<longleftrightarrow>
     (\<forall>nick u. bt_get (sm_users sm) nick = Some u
        \<longrightarrow> (\<forall>name. name \<in> us_channels u \<longleftrightarrow> in_channel sm nick name))"

definition sm_inv :: "server_model \<Rightarrow> bool" where
  "sm_inv sm \<longleftrightarrow> sm_keyed sm \<and> sm_members_known sm \<and> sm_views_agree sm"

lemmas sm_inv_defs = sm_inv_def sm_keyed_def sm_members_known_def sm_views_agree_def

lemma sm_inv_new [simp, intro]: "sm_inv sm_new"
  by (simp add: sm_inv_defs sm_new_def)

lemma in_channel_create_user [simp]:
  "in_channel (sm_create_user nick user sm) = in_channel sm"
  by (simp add: in_channel_def fun_eq_iff sm_create_user_def)

lemma in_channel_known: "sm_members_known sm \<Longrightarrow> in_channel sm nick name \<Longrightarrow> sm_nick_exists sm nick"
  by (auto simp: in_channel_def sm_members_known_def sm_nick_exists_def bt_contains_iff)

lemma sm_inv_member:
  assumes "sm_inv sm" "sm_get_channel sm name = Some ch" "n \<in> set (bt_keys (ch_users ch))"
  shows "\<exists>u. bt_get (sm_users sm) n = Some u \<and> us_nick u = n"
proof -
  have "in_channel sm n name"
    using assms(2,3) by (auto simp: in_channel_def sm_get_channel_def)
  then have "n \<in> set (bt_keys (sm_users sm))"
    using assms(1) in_channel_known [of sm n name]
    by (simp add: sm_inv_def sm_nick_exists_def bt_contains_iff)
  then show ?thesis
    using assms(1) by (auto simp: bt.set_keys sm_inv_def sm_keyed_def)
qed

lemma sm_inv_create_user [inv_intros]:
  assumes "sm_inv sm" "\<not> sm_nick_exists sm nick"
  shows "sm_inv (sm_create_user nick user sm)"
proof -
  have "\<not> in_channel sm nick name" for name
    using assms in_channel_known by (auto simp: sm_inv_def)
  moreover have "sm_keyed (sm_create_user nick user sm)"
    using assms(1) by (auto simp: sm_inv_defs sm_create_user_def split: if_splits)
  moreover have "sm_members_known (sm_create_user nick user sm)"
    using assms(1) unfolding sm_inv_def sm_members_known_def
    by (fastforce simp: sm_create_user_def)
  moreover have "sm_views_agree sm"
    using assms(1) by (simp add: sm_inv_def)
  ultimately show ?thesis
    by (auto simp: sm_inv_def sm_views_agree_def, auto simp: sm_create_user_def split: if_splits)
qed

text \<open>Membership notes: the users stay, with the channel added for the members.\<close>

lemma bt_get_note_membership:
  "bt_get (note_membership name m users) nick =
     map_option (\<lambda>u. if nick = fst m then u\<lparr>us_channels := insert name (us_channels u)\<rparr> else u)
       (bt_get users nick)"
  by (cases "bt_get users nick"; cases "bt_get users (fst m)")
    (auto simp: note_membership_def)

lemma bt_get_note_memberships:
  "bt_get (fold (note_membership name) members users) nick =
     map_option (\<lambda>u. if nick \<in> fst ` set members
         then u\<lparr>us_channels := insert name (us_channels u)\<rparr> else u)
       (bt_get users nick)"
proof (induction members arbitrary: users)
  case Nil
  then show ?case by (cases "bt_get users nick") simp_all
next
  case (Cons m members)
  then show ?case
    by (cases "bt_get users nick") (auto simp: bt_get_note_membership)
qed

lemma bt_wf_note_memberships:
  "bt_wf users \<Longrightarrow> bt_wf (fold (note_membership name) members users)"
proof (induction members arbitrary: users)
  case (Cons m members)
  have "bt_wf (note_membership name m users)"
    using Cons.prems by (auto simp: note_membership_def split: option.splits)
  with Cons.IH show ?case by simp
qed simp

lemma keys_note_memberships [simp]:
  "set (bt_keys (fold (note_membership name) members users)) = set (bt_keys users)"
  by (auto simp: bt.set_keys bt_get_note_memberships)

lemma ch_users_make_channel [simp]:
  "set (bt_keys (ch_users (make_channel name topic members))) = fst ` set members"
  "bt_wf (ch_users (make_channel name topic members))"
  by (simp_all add: make_channel_def bt_keys_collect split_beta image_image)

lemma make_channel_simps [simp]:
  "ch_name (make_channel name topic members) = name"
  "ch_topic (make_channel name topic members) = topic"
  by (simp_all add: make_channel_def)

lemma sm_add_channel_eq:
  "\<not> sm_channel_exists sm name \<Longrightarrow> sm_add_channel name topic members sm
     = Inr (make_channel name topic members,
         sm\<lparr>sm_channels := bt_insert name (make_channel name topic members) (sm_channels sm),
            sm_users := fold (note_membership name) members (sm_users sm)\<rparr>)"
  by (simp add: sm_add_channel_def sm_channel_exists_def)

lemma sm_add_channel_InrD:
  "sm_add_channel name topic members sm = Inr (c, sm') \<Longrightarrow>
     \<not> sm_channel_exists sm name \<and> c = make_channel name topic members
     \<and> sm' = sm\<lparr>sm_channels := bt_insert name (make_channel name topic members) (sm_channels sm),
                sm_users := fold (note_membership name) members (sm_users sm)\<rparr>"
  by (auto simp: sm_add_channel_def sm_channel_exists_def split: if_splits)

lemma sm_inv_add_channel [inv_intros]:
  assumes inv: "sm_inv sm" and add: "sm_add_channel name topic members sm = Inr (c, sm')"
    and known: "\<forall>(m, _) \<in> set members. sm_nick_exists sm m"
  shows "sm_inv sm'"
proof -
  let ?c = "make_channel name topic members"
  from sm_add_channel_InrD [OF add]
  have fresh: "bt_get (sm_channels sm) name = None"
    and sm': "sm_channels sm' = bt_insert name ?c (sm_channels sm)"
      "sm_users sm' = fold (note_membership name) members (sm_users sm)"
    by (auto simp: sm_channel_exists_def bt_contains_def)
  have keyed': "sm_keyed sm'"
    using inv by (auto simp: sm_inv_defs sm' bt_get_note_memberships bt_wf_note_memberships
        split: if_splits)
  have known': "sm_members_known sm'"
    using inv known
    by (fastforce simp: sm_inv_defs sm' sm_nick_exists_def bt_contains_iff split: if_splits)
  have mem: "in_channel sm' nick n \<longleftrightarrow>
      (if n = name then nick \<in> fst ` set members else in_channel sm nick n)" for nick n
    by (auto simp: in_channel_def sm')
  have old: "\<not> in_channel sm nick name" for nick
    by (simp add: in_channel_def fresh)
  have agree: "n \<in> us_channels u' \<longleftrightarrow> in_channel sm' nick n"
    if "bt_get (sm_users sm') nick = Some u'" for nick u' n
  proof -
    from that obtain u where u: "bt_get (sm_users sm) nick = Some u"
      and "us_channels u' = (if nick \<in> fst ` set members then insert name (us_channels u) else us_channels u)"
      by (auto simp: sm' bt_get_note_memberships)
    moreover have "m \<in> us_channels u \<longleftrightarrow> in_channel sm nick m" for m
      using inv u by (simp add: sm_inv_def sm_views_agree_def)
    ultimately show ?thesis
      by (auto simp: mem old)
  qed
  show ?thesis
    unfolding sm_inv_def sm_views_agree_def
    using keyed' known' agree by blast
qed

section \<open>Members of a channel\<close>

lemma members_of_known:
  "fst ` set ms \<subseteq> set (bt_keys users) \<Longrightarrow>
     members_of users ms = Inr (map (\<lambda>(n, e). (the (bt_get users n), e)) ms)"
  by (induction users ms rule: members_of.induct) (auto simp: bt.set_keys)

lemma sm_get_members_known:
  assumes "sm_members_known sm"
  shows "sm_get_members sm channel =
    Inr (map_option (\<lambda>c. map (\<lambda>(n, e). (the (bt_get (sm_users sm) n), e)) (ch_users c))
      (sm_get_channel sm channel))"
proof (cases "bt_get (sm_channels sm) channel")
  case (Some c)
  with assms have "fst ` set (ch_users c) \<subseteq> set (bt_keys (sm_users sm))"
    by (auto simp: sm_members_known_def bt_keys_def)
  with Some show ?thesis
    by (simp add: sm_get_members_def sm_get_channel_def members_of_known)
qed (simp add: sm_get_members_def sm_get_channel_def)

section \<open>The interface the bridge relies on\<close>

locale user_directory =
  fixes invar :: "'s \<Rightarrow> bool"
    and nick_exists :: "'s \<Rightarrow> rstr \<Rightarrow> bool"
    and channel_exists :: "'s \<Rightarrow> rstr \<Rightarrow> bool"
    and create_user :: "rstr \<Rightarrow> rstr \<Rightarrow> 's \<Rightarrow> 's"
    and add_channel :: "rstr \<Rightarrow> rstr \<Rightarrow> (rstr \<times> bool) list \<Rightarrow> 's \<Rightarrow> exn + 's"
  assumes create_invar: "invar s \<Longrightarrow> \<not> nick_exists s n \<Longrightarrow> invar (create_user n u s)"
    and create_nick: "nick_exists (create_user n u s) m \<longleftrightarrow> m = n \<or> nick_exists s m"
    and create_channel: "channel_exists (create_user n u s) c \<longleftrightarrow> channel_exists s c"
    and add_ok: "invar s \<Longrightarrow> \<not> channel_exists s c \<Longrightarrow> \<forall>(m, _) \<in> set ms. nick_exists s m
      \<Longrightarrow> \<exists>s'. add_channel c t ms s = Inr s' \<and> invar s'"
    and add_channel_exists: "add_channel c t ms s = Inr s' \<Longrightarrow>
      channel_exists s' d \<longleftrightarrow> d = c \<or> channel_exists s d"
    and add_nick: "add_channel c t ms s = Inr s' \<Longrightarrow> nick_exists s' m \<longleftrightarrow> nick_exists s m"
begin

text \<open>What the names in use are after an operation, and that a new channel for known users always opens.\<close>

lemma nicks_after_create: "nick_exists (create_user n u s) = (nick_exists s)(n := True)"
  by (rule ext) (simp add: create_nick)

lemma channels_after_create: "channel_exists (create_user n u s) = channel_exists s"
  by (rule ext) (simp add: create_channel)

lemma names_after_add:
  assumes "add_channel c t ms s = Inr s'"
  shows "channel_exists s' = (channel_exists s)(c := True)" "nick_exists s' = nick_exists s"
  by (simp_all add: fun_eq_iff add_channel_exists [OF assms] add_nick [OF assms])

lemma open_channel:
  assumes "invar s" "\<not> channel_exists s c" "\<forall>(m, _) \<in> set ms. nick_exists s m"
  obtains s' where "add_channel c t ms s = Inr s'" "invar s'"
    "channel_exists s' = (channel_exists s)(c := True)" "nick_exists s' = nick_exists s"
  using add_ok [OF assms, of t] names_after_add that by blast

end

definition sm_add :: "rstr \<Rightarrow> rstr \<Rightarrow> (rstr \<times> bool) list \<Rightarrow> server_model \<Rightarrow> exn + server_model" where
  "sm_add name topic members sm = map_sum id snd (sm_add_channel name topic members sm)"

interpretation sm: user_directory sm_inv sm_nick_exists sm_channel_exists sm_create_user sm_add
proof unfold_locales
  fix s s' :: server_model and n u m c d t :: rstr and ms
  show "sm_inv s \<Longrightarrow> \<not> sm_nick_exists s n \<Longrightarrow> sm_inv (sm_create_user n u s)"
    by (rule sm_inv_create_user)
  show "sm_nick_exists (sm_create_user n u s) m \<longleftrightarrow> m = n \<or> sm_nick_exists s m"
    by (simp add: sm_nick_exists_def sm_create_user_def bt_contains_def)
  show "sm_channel_exists (sm_create_user n u s) c \<longleftrightarrow> sm_channel_exists s c"
    by (simp add: sm_channel_exists_def sm_create_user_def)
  show "\<exists>s'. sm_add c t ms s = Inr s' \<and> sm_inv s'"
    if "sm_inv s" "\<not> sm_channel_exists s c" "\<forall>(m, _) \<in> set ms. sm_nick_exists s m"
    using sm_inv_add_channel [OF that(1) sm_add_channel_eq [OF that(2)] that(3)]
      sm_add_channel_eq [OF that(2)]
    by (auto simp: sm_add_def)
  show "sm_add c t ms s = Inr s' \<Longrightarrow> sm_channel_exists s' d \<longleftrightarrow> d = c \<or> sm_channel_exists s d"
    by (cases "sm_add_channel c t ms s")
      (auto simp: sm_add_def sm_channel_exists_def bt_contains_def dest!: sm_add_channel_InrD)
  show "sm_add c t ms s = Inr s' \<Longrightarrow> sm_nick_exists s' m \<longleftrightarrow> sm_nick_exists s m"
    by (cases "sm_add_channel c t ms s")
      (auto simp: sm_add_def sm_nick_exists_def bt_contains_iff dest!: sm_add_channel_InrD)
qed

end
