(* ===== verification/Irc_Connection.thy ===== *)
theory Irc_Connection
  imports Irc_Transport Irc_Models
begin

text \<open>
  \<open>src/irc/mod.rs\<close>: the IRC side of a session, \<open>IrcUserConnection\<close>: the login that waits for NICK,
  USER and PASS (a \<open>StreamFold\<close> over the transport), the messages sent to the client, and the loop
  that answers PING, WHO, MODE and known JOINs itself and hands every other command to the bridge.
\<close>

section \<open>State\<close>

record irc_user_connection =
  iuc_conn :: irc_server_connection
  iuc_user :: rstr
  iuc_nick :: rstr
  iuc_real_name :: rstr
  iuc_password :: rstr
  iuc_server_name :: rstr
  iuc_user_prefix :: rstr
  iuc_server_model :: server_model

record user_nick =
  un_nick :: "rstr option"
  un_user :: "rstr option"
  un_real_name :: "rstr option"
  un_password :: "rstr option"

definition user_nick_default :: user_nick where
  "user_nick_default = \<lparr>un_nick = None, un_user = None, un_real_name = None, un_password = None\<rparr>"

section \<open>Login\<close>

text \<open>The closure of the fold, and the closure that turns its result into a connection.\<close>

definition login_step :: "irc_command \<Rightarrow> user_nick \<Rightarrow> bool \<times> user_nick" where
  "login_step cmd un =
     (let un' =
        (case cmd of
           Nick nick \<Rightarrow> un\<lparr>un_nick := Some nick\<rparr>
         | User user real_name \<Rightarrow> un\<lparr>un_user := Some user, un_real_name := Some real_name\<rparr>
         | Pass password \<Rightarrow> un\<lparr>un_password := Some password\<rparr>
         | _ \<Rightarrow> un)
      in (un_nick un' \<noteq> None \<and> un_user un' \<noteq> None \<and> un_real_name un' \<noteq> None, un'))"

definition expect :: "string \<Rightarrow> 'a option \<Rightarrow> exn + 'a" where
  "expect msg x = (case x of Some v \<Rightarrow> Inr v | None \<Rightarrow> Inl (Panic msg))"

text \<open>On failure the connection is dropped; its last state is kept to say what was sent.\<close>

definition login_finish ::
  "rstr \<Rightarrow> (user_nick \<times> irc_server_connection) option \<Rightarrow>
     (exn + irc_user_connection) \<times> irc_server_connection option" where
  "login_finish server_name opt =
     (case opt of
        None \<Rightarrow>
          (Inl (IoErr (IoError UnexpectedEof (lit ''IRC stream ended during login''))), None)
      | Some (un, conn) \<Rightarrow>
          (case expect ''nick'' (un_nick un) of
             Inl e \<Rightarrow> (Inl e, Some conn)
           | Inr nick \<Rightarrow>
               (case un_password un of
                  None \<Rightarrow>
                    (Inl (IoErr (IoError InvalidData (lit ''IRC user did not supply password''))),
                     Some (write_password_required nick conn))
                | Some password \<Rightarrow>
                    (case expect ''user'' (un_user un) of
                       Inl e \<Rightarrow> (Inl e, Some conn)
                     | Inr user \<Rightarrow>
                         (case expect ''real_name'' (un_real_name un) of
                            Inl e \<Rightarrow> (Inl e, Some conn)
                          | Inr real_name \<Rightarrow>
                              (Inr \<lparr>iuc_conn = conn, iuc_user = user, iuc_nick = nick,
                                 iuc_real_name = real_name, iuc_password = password,
                                 iuc_server_name = server_name,
                                 iuc_user_prefix = nick @ lit ''!'' @ user @ lit ''@'' @ server_name,
                                 iuc_server_model = sm_new\<rparr>, None))))))"

definition await_login ::
  "rstr \<Rightarrow> io_env \<Rightarrow> (irc_server_connection, user_nick) stream_fold_state" where
  "await_login server_name conn = sf_new (isc_new conn server_name) user_nick_default"

text \<open>One poll of the login future; \<open>None\<close> would be a fold that does not return.\<close>

datatype login_result =
    Login_pending "(irc_server_connection, user_nick) stream_fold_state"
  | Login_failed exn "irc_server_connection option"
  | Logged_in irc_user_connection

definition await_login_poll ::
  "rstr \<Rightarrow> (irc_server_connection, user_nick) stream_fold_state \<Rightarrow> login_result option" where
  "await_login_poll server_name st =
     (case sf_poll isc_poll login_step st of
        None \<Rightarrow> None
      | Some (Inl e, _) \<Rightarrow> Some (Login_failed e None)
      | Some (Inr NotReady, st') \<Rightarrow> Some (Login_pending st')
      | Some (Inr (Ready opt), _) \<Rightarrow>
          (case login_finish server_name opt of
             (Inl e, conn) \<Rightarrow> Some (Login_failed e conn)
           | (Inr c, _) \<Rightarrow> Some (Logged_in c)))"

section \<open>Operations on the server model\<close>

definition iuc_nick_exists :: "irc_user_connection \<Rightarrow> rstr \<Rightarrow> bool" where
  "iuc_nick_exists c nick \<longleftrightarrow> sm_nick_exists (iuc_server_model c) nick"

definition iuc_channel_exists :: "irc_user_connection \<Rightarrow> rstr \<Rightarrow> bool" where
  "iuc_channel_exists c channel \<longleftrightarrow> sm_channel_exists (iuc_server_model c) channel"

definition iuc_create_user :: "rstr \<Rightarrow> rstr \<Rightarrow> irc_user_connection \<Rightarrow> irc_user_connection" where
  "iuc_create_user nick user c =
     c\<lparr>iuc_server_model := sm_create_user nick user (iuc_server_model c)\<rparr>"

text \<open>Running a transport operation on the connection inside.\<close>

definition on_conn ::
  "(irc_server_connection \<Rightarrow> irc_server_connection) \<Rightarrow> irc_user_connection \<Rightarrow> irc_user_connection" where
  "on_conn f c = c\<lparr>iuc_conn := f (iuc_conn c)\<rparr>"

definition attempt_to_write_join_response ::
  "rstr \<Rightarrow> irc_user_connection \<Rightarrow> exn + (bool \<times> irc_user_connection)" where
  "attempt_to_write_join_response name c =
     (case sm_get_members (iuc_server_model c) name of
        Inl e \<Rightarrow> Inl e
      | Inr members_opt \<Rightarrow>
          (case (sm_get_channel (iuc_server_model c) name, members_opt) of
             (Some channel, Some members) \<Rightarrow>
               (let names = map (\<lambda>(user, entry). (us_nick user, ure_operator entry)) members;
                    c1 = on_conn (write_join (iuc_user_prefix c) (ch_name channel)) c;
                    c2 = on_conn (write_topic (iuc_server_name c) (ch_name channel) (ch_topic channel)) c1;
                    c3 = on_conn (write_names (iuc_nick c) name names) c2;
                    c4 = on_conn (write_numeric RplChannelmodeis (iuc_nick c)
                           (ch_name channel @ lit '' +n'')) c3
                in Inr (True, c4))
           | _ \<Rightarrow> Inr (False, c)))"

definition iuc_add_channel ::
  "rstr \<Rightarrow> rstr \<Rightarrow> (rstr \<times> bool) list \<Rightarrow> irc_user_connection \<Rightarrow> exn + irc_user_connection" where
  "iuc_add_channel name topic members c =
     (case sm_add_channel name topic members (iuc_server_model c) of
        Inl e \<Rightarrow> Inl e
      | Inr (_, sm) \<Rightarrow>
          (case attempt_to_write_join_response name (c\<lparr>iuc_server_model := sm\<rparr>) of
             Inl e \<Rightarrow> Inl e
           | Inr (_, c') \<Rightarrow> Inr c'))"

section \<open>Messages to the client\<close>

definition send_message :: "rstr \<Rightarrow> rstr \<Rightarrow> rstr \<Rightarrow> irc_user_connection \<Rightarrow> irc_user_connection" where
  "send_message channel sender body =
     fold (\<lambda>line. on_conn (write_line
       (lit '':'' @ sender @ lit '' PRIVMSG '' @ channel @ lit '' :'' @ line))) (split_on 10 body)"

definition send_action :: "rstr \<Rightarrow> rstr \<Rightarrow> rstr \<Rightarrow> irc_user_connection \<Rightarrow> irc_user_connection" where
  "send_action channel sender body =
     fold (\<lambda>line. on_conn (write_line
       (lit '':'' @ sender @ lit '' PRIVMSG '' @ channel @ lit '' :'' @ [1] @ lit ''ACTION '' @ line @ [1])))
       (split_on 10 body)"

definition write_invalid_password :: "irc_user_connection \<Rightarrow> irc_user_connection" where
  "write_invalid_password c = on_conn (isc_write_invalid_password (iuc_nick c)) c"

definition write_redirect_join :: "rstr \<Rightarrow> rstr \<Rightarrow> irc_user_connection \<Rightarrow> irc_user_connection" where
  "write_redirect_join old_channel new_channel c =
     on_conn (write_numeric RplForwardedChannel (iuc_nick c)
       (old_channel @ lit '' '' @ new_channel @ lit '' :Forwarding to another channel'')) c"

definition iuc_welcome :: "irc_user_connection \<Rightarrow> irc_user_connection" where
  "iuc_welcome c = on_conn (isc_welcome (iuc_nick c)) c"

definition iuc_write_line :: "rstr \<Rightarrow> irc_user_connection \<Rightarrow> irc_user_connection" where
  "iuc_write_line line = on_conn (write_line line)"

definition send_ping :: "rstr \<Rightarrow> irc_user_connection \<Rightarrow> irc_user_connection" where
  "send_ping data = iuc_write_line (lit ''PING '' @ data)"

definition away :: "irc_user_connection \<Rightarrow> irc_user_connection" where
  "away c = on_conn (write_numeric RplNowaway (iuc_nick c) (lit ''You are now away'')) c"

definition unaway :: "irc_user_connection \<Rightarrow> irc_user_connection" where
  "unaway c = on_conn (write_numeric RplUnaway (iuc_nick c) (lit ''Welcome back'')) c"

section \<open>Commands handled on this side\<close>

definition who_reply :: "rstr \<Rightarrow> rstr \<Rightarrow> user \<Rightarrow> rstr" where
  "who_reply channel server_name user =
     channel @ lit '' '' @ us_nick user @ lit '' '' @ us_mask user @ lit '' '' @ server_name @ lit '' ''
       @ us_user user @ lit '' H :0 '' @ us_user user"

definition handle_who_channel_cmd ::
  "rstr \<Rightarrow> irc_user_connection \<Rightarrow> exn + irc_user_connection" where
  "handle_who_channel_cmd channel c =
     (case sm_get_members (iuc_server_model c) channel of
        Inl e \<Rightarrow> Inl e
      | Inr (Some members) \<Rightarrow>
          (let c1 = fold (\<lambda>(user, _). on_conn (write_numeric RplWhoreply (iuc_nick c)
                 (who_reply channel (iuc_server_name c) user))) members c
           in Inr (on_conn (write_numeric RplEndofwho (iuc_nick c) (channel @ lit '' :End of /WHO'')) c1))
      | Inr None \<Rightarrow> Inr c)"

definition handle_mode_channel_cmd :: "rstr \<Rightarrow> irc_user_connection \<Rightarrow> irc_user_connection" where
  "handle_mode_channel_cmd channel c =
     on_conn (write_numeric RplChannelmodeis (iuc_nick c) (channel @ lit '' +n'')) c"

text \<open>
  The body of the loop in \<open>poll\<close>: \<open>Some\<close> command is returned to the caller, \<open>None\<close> goes round again.
\<close>

definition handle_command ::
  "irc_command \<Rightarrow> irc_user_connection \<Rightarrow> exn + (irc_command option \<times> irc_user_connection)" where
  "handle_command cmd c =
     (case cmd of
        Ping data \<Rightarrow>
          Inr (None, iuc_write_line (lit '':'' @ iuc_server_name c @ lit '' PONG '' @ data) c)
      | Join channel \<Rightarrow>
          (case attempt_to_write_join_response channel c of
             Inl e \<Rightarrow> Inl e
           | Inr (written, c') \<Rightarrow> Inr (if \<not> written then Some (Join channel) else None, c'))
      | Who matches \<Rightarrow>
          if starts_with (lit ''#'') matches then map_sum id (Pair None) (handle_who_channel_cmd matches c)
          else Inr (None, c)
      | Mode target msk \<Rightarrow>
          if starts_with (lit ''#'') target \<and> msk = None then
            Inr (None, handle_mode_channel_cmd target c)
          else Inr (None, c)
      | Pong _ \<Rightarrow> Inr (None, c)
      | k \<Rightarrow> Inr (Some k, c))"

text \<open>No operation on this side touches the reader, which is why the loop returns.\<close>

lemma on_conn_simps [simp]:
  "iuc_conn (on_conn f c) = f (iuc_conn c)"
  "iuc_user (on_conn f c) = iuc_user c"
  "iuc_nick (on_conn f c) = iuc_nick c"
  "iuc_real_name (on_conn f c) = iuc_real_name c"
  "iuc_password (on_conn f c) = iuc_password c"
  "iuc_server_name (on_conn f c) = iuc_server_name c"
  "iuc_user_prefix (on_conn f c) = iuc_user_prefix c"
  "iuc_server_model (on_conn f c) = iuc_server_model c"
  by (simp_all add: on_conn_def)

definition keeps_reader :: "irc_user_connection \<Rightarrow> irc_user_connection \<Rightarrow> bool" where
  "keeps_reader c c' \<longleftrightarrow> same_reader (iuc_conn c) (iuc_conn c')"

lemma keeps_reader_refl [simp]: "keeps_reader c c"
  by (simp add: keeps_reader_def)

lemma keeps_reader_on_conn [simp]:
  "same_reader (iuc_conn c) (f (iuc_conn c)) \<Longrightarrow> keeps_reader c (on_conn f c)"
  by (simp add: keeps_reader_def)

lemma keeps_reader_trans: "keeps_reader a b \<Longrightarrow> keeps_reader b c \<Longrightarrow> keeps_reader a c"
  unfolding keeps_reader_def by (rule same_reader_trans)

lemma keeps_reader_fold:
  "(\<And>x c. keeps_reader c (f x c)) \<Longrightarrow> keeps_reader c (fold f xs c)"
  by (induction xs arbitrary: c) (auto intro: keeps_reader_trans)

lemma keeps_reader_join:
  "attempt_to_write_join_response name c = Inr (b, c') \<Longrightarrow> keeps_reader c c'"
  by (auto simp: attempt_to_write_join_response_def Let_def keeps_reader_def
      split: sum.splits option.splits
      intro!: same_reader_trans [OF same_reader_trans [OF same_reader_trans [OF write_join_reader
        write_topic_reader] write_names_reader] write_numeric_reader])

lemma keeps_reader_who: "handle_who_channel_cmd channel c = Inr c' \<Longrightarrow> keeps_reader c c'"
proof -
  have "keeps_reader c (fold (\<lambda>(user, _). on_conn (write_numeric RplWhoreply (iuc_nick c)
      (who_reply channel (iuc_server_name c) user))) members c)" for members :: "(user \<times> user_room_entry) list"
    by (rule keeps_reader_fold) auto
  then show "handle_who_channel_cmd channel c = Inr c' \<Longrightarrow> keeps_reader c c'"
    by (auto simp: handle_who_channel_cmd_def Let_def split: sum.splits option.splits
        intro!: keeps_reader_trans [OF _ keeps_reader_on_conn])
qed

lemma keeps_reader_handle:
  "handle_command cmd c = Inr (k, c') \<Longrightarrow> keeps_reader c c'"
  by (cases cmd)
    (auto simp: handle_command_def iuc_write_line_def handle_mode_channel_cmd_def
      split: sum.splits prod.splits if_splits dest: keeps_reader_join keeps_reader_who)

lemma keeps_reader_size: "keeps_reader c c' \<Longrightarrow> read_size (iuc_conn c') = read_size (iuc_conn c)"
  using same_reader_stream by (auto simp: keeps_reader_def)

section \<open>The loop\<close>

function iuc_poll ::
  "irc_user_connection \<Rightarrow> (exn + irc_command option async) \<times> irc_user_connection" where
  "iuc_poll c =
     (case isc_poll (iuc_conn c) of
        (Inl e, conn) \<Rightarrow> (Inl e, c\<lparr>iuc_conn := conn\<rparr>)
      | (Inr NotReady, conn) \<Rightarrow> (Inr NotReady, c\<lparr>iuc_conn := conn\<rparr>)
      | (Inr (Ready None), conn) \<Rightarrow> (Inr (Ready None), c\<lparr>iuc_conn := conn\<rparr>)
      | (Inr (Ready (Some cmd)), conn) \<Rightarrow>
          (case handle_command cmd (c\<lparr>iuc_conn := conn\<rparr>) of
             Inl e \<Rightarrow> (Inl e, c\<lparr>iuc_conn := conn\<rparr>)
           | Inr (Some k, c') \<Rightarrow> (Inr (Ready (Some k)), c')
           | Inr (None, c') \<Rightarrow> iuc_poll c'))"
  by pat_completeness auto
termination
  by (relation "measure (\<lambda>c. read_size (iuc_conn c))")
    (auto dest!: isc_poll_consumes [OF sym] keeps_reader_handle keeps_reader_size)

declare iuc_poll.simps [simp del]

section \<open>What the client is sent\<close>

text \<open>\<open>iuc_emits c c' ls\<close>: the operation queued the lines \<open>ls\<close> and changed nothing else.\<close>

definition iuc_emits :: "irc_user_connection \<Rightarrow> irc_user_connection \<Rightarrow> rstr list \<Rightarrow> bool" where
  "iuc_emits c c' ls \<longleftrightarrow> emits (iuc_conn c) (iuc_conn c') ls \<and> c' = c\<lparr>iuc_conn := iuc_conn c'\<rparr>"

definition iuc_inv :: "irc_user_connection \<Rightarrow> bool" where
  "iuc_inv c \<longleftrightarrow> isc_inv (iuc_conn c) \<and> sm_inv (iuc_server_model c)
     \<and> isc_server_name (iuc_conn c) = iuc_server_name c"

lemma iuc_emits_fields:
  assumes "iuc_emits c c' ls"
  shows "iuc_server_model c' = iuc_server_model c" "iuc_nick c' = iuc_nick c"
    "iuc_server_name c' = iuc_server_name c" "iuc_user_prefix c' = iuc_user_prefix c"
    "iuc_user c' = iuc_user c" "iuc_password c' = iuc_password c" "iuc_real_name c' = iuc_real_name c"
proof -
  have "c' = c\<lparr>iuc_conn := iuc_conn c'\<rparr>" using assms by (simp add: iuc_emits_def)
  then obtain d where "c' = c\<lparr>iuc_conn := d\<rparr>" by blast
  then show "iuc_server_model c' = iuc_server_model c" "iuc_nick c' = iuc_nick c"
    "iuc_server_name c' = iuc_server_name c" "iuc_user_prefix c' = iuc_user_prefix c"
    "iuc_user c' = iuc_user c" "iuc_password c' = iuc_password c" "iuc_real_name c' = iuc_real_name c"
    by simp_all
qed

lemma iuc_inv_emits [inv_intros]: "iuc_inv c \<Longrightarrow> iuc_emits c c' ls \<Longrightarrow> iuc_inv c'"
  using iuc_emits_fields [of c c' ls] isc_inv_emits [of "iuc_conn c" "iuc_conn c'" ls]
    emits_server_name [of "iuc_conn c" "iuc_conn c'" ls]
  by (simp add: iuc_inv_def iuc_emits_def)

lemma iuc_emits_Nil: "iuc_inv c \<Longrightarrow> iuc_emits c c []"
  by (simp add: iuc_emits_def iuc_inv_def isc_inv_def emits_Nil)

lemma iuc_emits_trans: "iuc_emits a b ls \<Longrightarrow> iuc_emits b c ms \<Longrightarrow> iuc_emits a c (ls @ ms)"
proof -
  assume ab: "iuc_emits a b ls" and bc: "iuc_emits b c ms"
  then have "b = a\<lparr>iuc_conn := iuc_conn b\<rparr>" "c = b\<lparr>iuc_conn := iuc_conn c\<rparr>"
    by (simp_all add: iuc_emits_def)
  then have "c = a\<lparr>iuc_conn := iuc_conn c\<rparr>"
    by (metis irc_user_connection.update_convs(1) irc_user_connection.surjective)
  with ab bc show ?thesis by (auto simp: iuc_emits_def intro: emits_trans)
qed

lemma iuc_emits_queued:
  "iuc_emits c c' ls \<Longrightarrow> queued (iuc_conn c') = queued (iuc_conn c) @ concat (map line_bytes ls)"
  by (simp add: iuc_emits_def emits_def)

lemma iuc_emits_reader: "iuc_emits c c' ls \<Longrightarrow> keeps_reader c c'"
  by (simp add: iuc_emits_def emits_def keeps_reader_def)

lemma iuc_emits_on_conn:
  "emits (iuc_conn c) (f (iuc_conn c)) ls \<Longrightarrow> iuc_emits c (on_conn f c) ls"
  by (simp add: iuc_emits_def on_conn_def)

lemma iuc_emits_line: "iuc_inv c \<Longrightarrow> iuc_emits c (on_conn (write_line l) c) [l]"
  by (rule iuc_emits_on_conn) (simp add: emits_write_line iuc_inv_def isc_inv_def)

lemma iuc_emits_numeric:
  "iuc_inv c \<Longrightarrow>
     iuc_emits c (on_conn (write_numeric n nick rest) c) [numeric_line (iuc_server_name c) n nick rest]"
  using emits_write_numeric [of "iuc_conn c" n nick rest]
  by (intro iuc_emits_on_conn) (simp add: iuc_inv_def isc_inv_def)

lemma iuc_emits_fold:
  assumes "\<And>x d. iuc_inv d \<Longrightarrow> iuc_server_name d = iuc_server_name c \<Longrightarrow> iuc_emits d (f x d) (g x)"
  shows "iuc_inv c \<Longrightarrow> iuc_emits c (fold f xs c) (concat (map g xs))"
proof -
  have "iuc_inv d \<Longrightarrow> iuc_server_name d = iuc_server_name c
    \<Longrightarrow> iuc_emits d (fold f xs d) (concat (map g xs))" for d
  proof (induction xs arbitrary: d)
    case Nil
    then show ?case by (simp add: iuc_emits_Nil)
  next
    case (Cons x xs)
    have 1: "iuc_emits d (f x d) (g x)" by (rule assms) (use Cons.prems in simp_all)
    moreover have "iuc_emits (f x d) (fold f xs (f x d)) (concat (map g xs))"
      by (rule Cons.IH) (use 1 Cons.prems in \<open>simp_all add: iuc_inv_emits iuc_emits_fields\<close>)
    ultimately show ?case by (auto dest: iuc_emits_trans)
  qed
  then show "iuc_inv c \<Longrightarrow> iuc_emits c (fold f xs c) (concat (map g xs))" by simp
qed

section \<open>Join, who and mode replies\<close>

definition channel_names :: "channel \<Rightarrow> (rstr \<times> bool) list" where
  "channel_names ch = map (\<lambda>(n, e). (n, ure_operator e)) (ch_users ch)"

definition join_lines :: "irc_user_connection \<Rightarrow> channel \<Rightarrow> rstr list" where
  "join_lines c ch =
     [lit '':'' @ iuc_user_prefix c @ lit '' JOIN '' @ ch_name ch,
      numeric_line (iuc_server_name c) RplTopic (iuc_server_name c) (ch_name ch @ lit '' :'' @ ch_topic ch)]
     @ names_lines (iuc_server_name c) (iuc_nick c) (ch_name ch) (channel_names ch)
     @ [numeric_line (iuc_server_name c) RplChannelmodeis (iuc_nick c) (ch_name ch @ lit '' +n'')]"

definition who_lines :: "irc_user_connection \<Rightarrow> channel \<Rightarrow> rstr list" where
  "who_lines c ch =
     map (\<lambda>(n, _). numeric_line (iuc_server_name c) RplWhoreply (iuc_nick c)
       (who_reply (ch_name ch) (iuc_server_name c) (the (bt_get (sm_users (iuc_server_model c)) n))))
       (ch_users ch)
     @ [numeric_line (iuc_server_name c) RplEndofwho (iuc_nick c) (ch_name ch @ lit '' :End of /WHO'')]"

lemma sm_get_channel_name:
  "sm_inv sm \<Longrightarrow> sm_get_channel sm name = Some ch \<Longrightarrow> ch_name ch = name"
  by (simp add: sm_inv_defs sm_get_channel_def)

lemma get_members_names:
  assumes "sm_inv sm" "sm_get_channel sm name = Some ch"
  shows "map (\<lambda>(user, entry). (us_nick user, ure_operator entry))
      (map (\<lambda>(n, e). (the (bt_get (sm_users sm) n), e)) (ch_users ch)) = channel_names ch"
proof -
  have "us_nick (the (bt_get (sm_users sm) n)) = n" if "(n, e) \<in> set (ch_users ch)" for n e
  proof -
    have "n \<in> set (bt_keys (ch_users ch))" using that by (force simp: bt_keys_def)
    then show ?thesis
      using sm_inv_member [OF assms, of n] by auto
  qed
  then show ?thesis by (auto simp: channel_names_def)
qed

lemma join_response_unknown:
  "sm_inv (iuc_server_model c) \<Longrightarrow> sm_get_channel (iuc_server_model c) name = None \<Longrightarrow>
     attempt_to_write_join_response name c = Inr (False, c)"
  by (simp add: attempt_to_write_join_response_def sm_get_members_known sm_inv_def)

lemma join_response_known:
  assumes inv: "iuc_inv c" and ch: "sm_get_channel (iuc_server_model c) name = Some ch"
  shows "\<exists>c'. attempt_to_write_join_response name c = Inr (True, c') \<and> iuc_emits c c' (join_lines c ch)"
proof -
  have sm: "sm_inv (iuc_server_model c)" using inv by (simp add: iuc_inv_def)
  note name = sm_get_channel_name [OF sm ch]
  let ?s = "iuc_server_name c" and ?n = "iuc_nick c"
  define c1 where "c1 = on_conn (write_join (iuc_user_prefix c) (ch_name ch)) c"
  define c2 where "c2 = on_conn (write_topic ?s (ch_name ch) (ch_topic ch)) c1"
  define c3 where "c3 = on_conn (write_names ?n name (channel_names ch)) c2"
  define c4 where "c4 = on_conn (write_numeric RplChannelmodeis ?n (ch_name ch @ lit '' +n'')) c3"
  have e1: "iuc_emits c c1 [lit '':'' @ iuc_user_prefix c @ lit '' JOIN '' @ ch_name ch]"
    unfolding c1_def write_join_def by (rule iuc_emits_line [OF inv])
  note i1 = iuc_inv_emits [OF inv e1]
  have e2: "iuc_emits c1 c2 [numeric_line ?s RplTopic ?s (ch_name ch @ lit '' :'' @ ch_topic ch)]"
    using iuc_emits_numeric [OF i1] iuc_emits_fields [OF e1]
    by (simp add: c2_def write_topic_def)
  note e12 = iuc_emits_trans [OF e1 e2]
  note i2 = iuc_inv_emits [OF i1 e2]
  have e3: "iuc_emits c2 c3 (names_lines ?s ?n name (channel_names ch))"
    using emits_write_names [of "iuc_conn c2" ?n name "channel_names ch"] i2 iuc_emits_fields [OF e12]
    unfolding c3_def by (intro iuc_emits_on_conn) (simp add: iuc_inv_def isc_inv_def)
  note e123 = iuc_emits_trans [OF e12 e3]
  have e4: "iuc_emits c3 c4 [numeric_line ?s RplChannelmodeis ?n (ch_name ch @ lit '' +n'')]"
    using iuc_emits_numeric [OF iuc_inv_emits [OF i2 e3]] iuc_emits_fields [OF e123]
    by (simp add: c4_def)
  have "iuc_emits c c4 (join_lines c ch)"
    using iuc_emits_trans [OF e123 e4] name by (simp add: join_lines_def)
  moreover have "attempt_to_write_join_response name c = Inr (True, c4)"
    using ch sm get_members_names [OF sm ch]
    by (simp add: attempt_to_write_join_response_def sm_get_members_known sm_inv_def Let_def
        c4_def c3_def c2_def c1_def)
  ultimately show ?thesis by blast
qed

lemma who_known:
  assumes inv: "iuc_inv c" and ch: "sm_get_channel (iuc_server_model c) name = Some ch"
  shows "\<exists>c'. handle_who_channel_cmd name c = Inr c' \<and> iuc_emits c c' (who_lines c ch)"
proof -
  have sm: "sm_inv (iuc_server_model c)" using inv by (simp add: iuc_inv_def)
  note name = sm_get_channel_name [OF sm ch]
  let ?ms = "map (\<lambda>(n, e). (the (bt_get (sm_users (iuc_server_model c)) n), e)) (ch_users ch)"
  let ?reply = "\<lambda>user. numeric_line (iuc_server_name c) RplWhoreply (iuc_nick c)
      (who_reply name (iuc_server_name c) user)"
  define c1 where "c1 = fold (\<lambda>(user, _). on_conn (write_numeric RplWhoreply (iuc_nick c)
      (who_reply name (iuc_server_name c) user))) ?ms c"
  have e1: "iuc_emits c c1 (concat (map (\<lambda>(user, _). [?reply user]) ?ms))"
    unfolding c1_def
  proof (rule iuc_emits_fold [OF _ inv])
    fix x :: "user \<times> user_room_entry" and d
    assume "iuc_inv d" "iuc_server_name d = iuc_server_name c"
    then show "iuc_emits d ((case x of (user, _) \<Rightarrow> on_conn (write_numeric RplWhoreply (iuc_nick c)
        (who_reply name (iuc_server_name c) user))) d) (case x of (user, _) \<Rightarrow> [?reply user])"
      by (cases x) (metis case_prod_conv iuc_emits_numeric)
  qed
  have "iuc_emits c1 (on_conn (write_numeric RplEndofwho (iuc_nick c) (name @ lit '' :End of /WHO'')) c1)
      [numeric_line (iuc_server_name c) RplEndofwho (iuc_nick c) (name @ lit '' :End of /WHO'')]"
    using iuc_emits_numeric [OF iuc_inv_emits [OF inv e1]] iuc_emits_fields [OF e1] by simp
  from iuc_emits_trans [OF e1 this]
  have "iuc_emits c (on_conn (write_numeric RplEndofwho (iuc_nick c) (name @ lit '' :End of /WHO'')) c1)
      (who_lines c ch)"
    by (simp add: who_lines_def name split_def concat_map_singleton o_def)
  moreover have "handle_who_channel_cmd name c
      = Inr (on_conn (write_numeric RplEndofwho (iuc_nick c) (name @ lit '' :End of /WHO'')) c1)"
    using ch sm by (simp add: handle_who_channel_cmd_def sm_get_members_known sm_inv_def Let_def c1_def)
  ultimately show ?thesis by blast
qed

lemma who_unknown:
  "sm_inv (iuc_server_model c) \<Longrightarrow> sm_get_channel (iuc_server_model c) name = None \<Longrightarrow>
     handle_who_channel_cmd name c = Inr c"
  by (simp add: handle_who_channel_cmd_def sm_get_members_known sm_inv_def)

section \<open>The loop as a transducer\<close>

text \<open>
  What the loop answers to a command and whether it hands the command on, as functions of the state
  it never changes (names, prefix and server model).
\<close>

definition replies :: "irc_user_connection \<Rightarrow> irc_command \<Rightarrow> rstr list" where
  "replies c cmd =
     (case cmd of
        Ping data \<Rightarrow> [lit '':'' @ iuc_server_name c @ lit '' PONG '' @ data]
      | Join channel \<Rightarrow>
          (case sm_get_channel (iuc_server_model c) channel of None \<Rightarrow> [] | Some ch \<Rightarrow> join_lines c ch)
      | Who matches \<Rightarrow>
          if starts_with (lit ''#'') matches then
            (case sm_get_channel (iuc_server_model c) matches of None \<Rightarrow> [] | Some ch \<Rightarrow> who_lines c ch)
          else []
      | Mode target msk \<Rightarrow>
          if starts_with (lit ''#'') target \<and> msk = None then
            [numeric_line (iuc_server_name c) RplChannelmodeis (iuc_nick c) (target @ lit '' +n'')]
          else []
      | _ \<Rightarrow> [])"

definition handed_on :: "irc_user_connection \<Rightarrow> irc_command \<Rightarrow> bool" where
  "handed_on c cmd =
     (case cmd of
        Ping _ \<Rightarrow> False
      | Pong _ \<Rightarrow> False
      | Who _ \<Rightarrow> False
      | Mode _ _ \<Rightarrow> False
      | Join channel \<Rightarrow> \<not> iuc_channel_exists c channel
      | _ \<Rightarrow> True)"

lemma replies_cong:
  assumes "c' = c\<lparr>iuc_conn := d\<rparr>"
  shows "replies c' = replies c" "handed_on c' = handed_on c"
proof -
  have "join_lines c' = join_lines c" "who_lines c' = who_lines c"
    by (simp_all add: assms join_lines_def who_lines_def fun_eq_iff)
  then show "replies c' = replies c" "handed_on c' = handed_on c"
    by (auto simp: fun_eq_iff replies_def handed_on_def assms iuc_channel_exists_def
        split: irc_command.splits option.splits)
qed

lemma iuc_emits_cong:
  "iuc_emits c c' ls \<Longrightarrow> replies c' = replies c \<and> handed_on c' = handed_on c"
  unfolding iuc_emits_def using replies_cong by blast

lemma iuc_channel_exists_iff:
  "iuc_channel_exists c name \<longleftrightarrow> sm_get_channel (iuc_server_model c) name \<noteq> None"
  by (simp add: iuc_channel_exists_def sm_channel_exists_def bt_contains_def sm_get_channel_def)

lemma handle_command_spec:
  assumes inv: "iuc_inv c"
  shows "\<exists>c'. handle_command cmd c = Inr (if handed_on c cmd then Some cmd else None, c')
    \<and> iuc_emits c c' (replies c cmd)"
proof -
  have sm: "sm_inv (iuc_server_model c)" using inv by (simp add: iuc_inv_def)
  note nil = iuc_emits_Nil [OF inv]
  show ?thesis
  proof (cases cmd)
    case (Ping data)
    then show ?thesis
      using iuc_emits_line [OF inv] by (simp add: handle_command_def handed_on_def replies_def iuc_write_line_def)
  next
    case (Join channel)
    show ?thesis
    proof (cases "sm_get_channel (iuc_server_model c) channel")
      case None
      with Join nil join_response_unknown [OF sm None] show ?thesis
        by (simp add: handle_command_def handed_on_def replies_def iuc_channel_exists_iff)
    next
      case (Some ch)
      with Join join_response_known [OF inv Some] show ?thesis
        by (auto simp: handle_command_def handed_on_def replies_def iuc_channel_exists_iff)
    qed
  next
    case (Who matches)
    show ?thesis
    proof (cases "sm_get_channel (iuc_server_model c) matches")
      case None
      with Who nil who_unknown [OF sm None] show ?thesis
        by (simp add: handle_command_def handed_on_def replies_def)
    next
      case (Some ch)
      with Who nil who_known [OF inv Some] show ?thesis
        by (auto simp: handle_command_def handed_on_def replies_def)
    qed
  next
    case (Mode target msk)
    then show ?thesis
      using iuc_emits_numeric [OF inv] nil
      by (simp add: handle_command_def handed_on_def replies_def handle_mode_channel_cmd_def)
  qed (use nil in \<open>simp_all add: handle_command_def handed_on_def replies_def\<close>)
qed

text \<open>
  A run of the loop: it takes the commands \<open>cmds\<close> off the stream, answers each of them, and stops at
  a command to hand on (which is not answered), at the end of the stream, or for want of input.
\<close>

definition loop_step ::
  "irc_user_connection \<Rightarrow> irc_command list \<Rightarrow> exn + irc_command option async \<Rightarrow> irc_user_connection \<Rightarrow> bool" where
  "loop_step c cmds r c' \<longleftrightarrow>
     iuc_inv c' \<and> (\<forall>cmd \<in> set cmds. \<not> handed_on c cmd)
     \<and> c' = c\<lparr>iuc_conn := iuc_conn c'\<rparr>
     \<and> queued (iuc_conn c') = queued (iuc_conn c) @ concat (map line_bytes (concat (map (replies c) cmds)))
     \<and> (case r of
          Inr (Ready (Some k)) \<Rightarrow> handed_on c k \<and>
            commands_of (in_stream (iuc_conn c)) = cmds @ k # commands_of (in_stream (iuc_conn c'))
        | Inr (Ready None) \<Rightarrow> isc_closed (iuc_conn c') \<and>
            commands_of (in_stream (iuc_conn c)) = cmds @ commands_of (in_stream (iuc_conn c'))
        | Inr NotReady \<Rightarrow> \<not> isc_closed (iuc_conn c') \<and> 10 \<notin> set (isc_read_buffer (iuc_conn c')) \<and>
            commands_of (in_stream (iuc_conn c)) = cmds @ commands_of (in_stream (iuc_conn c'))
        | Inl (Panic _) \<Rightarrow> False
        | Inl (IoErr _) \<Rightarrow> True)"

lemma replies_handed_on:
  assumes "handed_on c k"
  shows "replies c k = []"
proof (cases k)
  case (Join channel)
  with assms have "sm_get_channel (iuc_server_model c) channel = None"
    by (simp add: handed_on_def iuc_channel_exists_iff)
  with Join show ?thesis by (simp add: replies_def)
qed (use assms in \<open>auto simp: handed_on_def replies_def\<close>)

lemma iuc_inv_stream_step:
  "iuc_inv c \<Longrightarrow> stream_step (iuc_conn c) r conn \<Longrightarrow> iuc_inv (c\<lparr>iuc_conn := conn\<rparr>)"
  by (auto simp: iuc_inv_def dest: stream_step_queued stream_step_inv)

lemma iuc_poll_loop: "iuc_inv c \<Longrightarrow> iuc_poll c = (r, c') \<Longrightarrow> \<exists>cmds. loop_step c cmds r c'"
proof (induction c arbitrary: r c' rule: iuc_poll.induct)
  case (1 c)
  obtain q conn where q: "isc_poll (iuc_conn c) = (q, conn)" by (cases "isc_poll (iuc_conn c)")
  have st: "stream_step (iuc_conn c) q conn"
    using "1.prems"(1) isc_poll_step [OF _ q] by (simp add: iuc_inv_def)
  define c1 where "c1 = c\<lparr>iuc_conn := conn\<rparr>"
  have inv1: "iuc_inv c1"
    unfolding c1_def by (rule iuc_inv_stream_step [OF "1.prems"(1) st])
  have q1: "queued (iuc_conn c1) = queued (iuc_conn c)"
    using stream_step_queued [OF st] by (simp add: c1_def)
  have cong1: "replies c1 = replies c" "handed_on c1 = handed_on c"
    using replies_cong [OF c1_def] by auto
  show ?case
  proof (cases "\<exists>cmd. q = Inr (Ready (Some cmd))")
    case False
    with "1.prems"(2) q have "c' = c1" "r = (case q of Inl e \<Rightarrow> Inl e | Inr x \<Rightarrow> Inr x)"
      by (auto simp: iuc_poll.simps [of c] c1_def split: sum.splits async.splits option.splits)
    with False st inv1 q1 have "loop_step c [] r c'"
      by (cases q) (auto simp: loop_step_def stream_step_def c1_def
          split: async.splits option.splits exn.splits elim: is_panic.elims)
    then show ?thesis by blast
  next
    case True
    then obtain cmd where cmd: "q = Inr (Ready (Some cmd))" by blast
    have str: "commands_of (in_stream (iuc_conn c)) = cmd # commands_of (in_stream (iuc_conn c1))"
      using st cmd by (simp add: stream_step_def c1_def)
    obtain c2 where h: "handle_command cmd c1 = Inr (if handed_on c1 cmd then Some cmd else None, c2)"
      and e: "iuc_emits c1 c2 (replies c1 cmd)"
      using handle_command_spec [OF inv1] by blast
    note inv2 = iuc_inv_emits [OF inv1 e] and q2 = iuc_emits_queued [OF e]
    have str2: "in_stream (iuc_conn c2) = in_stream (iuc_conn c1)"
      using iuc_emits_reader [OF e] same_reader_stream by (auto simp: keeps_reader_def)
    have c2: "c2 = c\<lparr>iuc_conn := iuc_conn c2\<rparr>"
      using e unfolding iuc_emits_def c1_def
      by (metis irc_user_connection.surjective irc_user_connection.update_convs(1))
    have cong2: "replies c2 = replies c" "handed_on c2 = handed_on c"
      using replies_cong [OF c2] by auto
    show ?thesis
    proof (cases "handed_on c cmd")
      case True
      with "1.prems"(2) q cmd h cong1 have "r = Inr (Ready (Some cmd))" "c' = c2"
        by (simp_all add: iuc_poll.simps [of c] flip: c1_def)
      with True c2 inv2 str str2 q1 q2 cong1 replies_handed_on [OF True] have "loop_step c [] r c'"
        by (simp add: loop_step_def)
      then show ?thesis by blast
    next
      case False
      with "1.prems"(2) q cmd h cong1 have "iuc_poll c2 = (r, c')"
        by (simp add: iuc_poll.simps [of c] flip: c1_def)
      with "1.IH" [OF q [symmetric] cmd refl refl, of "(None, c2)" None c2] h False inv2 cong1
      obtain cmds where "loop_step c2 cmds r c'"
        by (auto simp flip: c1_def)
      with False c2 q1 q2 str str2 cong1 cong2 have "loop_step c (cmd # cmds) r c'"
        unfolding loop_step_def
        by (auto split: sum.splits async.splits option.splits exn.splits)
          (metis irc_user_connection.surjective irc_user_connection.update_convs(1))+
      then show ?thesis by blast
    qed
  qed
qed

section \<open>The loop is a stream, and the connection a user directory\<close>

lemma iuc_poll_consumes:
  "iuc_poll c = (Inr (Ready (Some k)), c') \<Longrightarrow> read_size (iuc_conn c') < read_size (iuc_conn c)"
proof (induction c arbitrary: k c' rule: iuc_poll.induct)
  case (1 c)
  obtain cmd conn where q: "isc_poll (iuc_conn c) = (Inr (Ready (Some cmd)), conn)"
    using "1.prems"
    by (subst (asm) iuc_poll.simps) (auto split: prod.splits sum.splits async.splits option.splits)
  let ?c1 = "c\<lparr>iuc_conn := conn\<rparr>"
  have less: "read_size (iuc_conn ?c1) < read_size (iuc_conn c)"
    using isc_poll_consumes [OF q] by simp
  obtain k' c2 where h: "handle_command cmd ?c1 = Inr (k', c2)"
    using "1.prems" q by (cases "handle_command cmd ?c1") (auto simp: iuc_poll.simps [of c])
  have eq: "read_size (iuc_conn c2) = read_size (iuc_conn ?c1)"
    by (rule keeps_reader_size [OF keeps_reader_handle [OF h]])
  show ?case
  proof (cases k')
    case None
    with "1.prems" q h have "iuc_poll c2 = (Inr (Ready (Some k)), c')"
      by (simp add: iuc_poll.simps [of c])
    with "1.IH" [OF q [symmetric] refl refl refl h refl None] less eq show ?thesis
      by simp
  next
    case (Some a)
    with "1.prems" q h less eq show ?thesis
      by (simp add: iuc_poll.simps [of c])
  qed
qed

interpretation iuc: item_stream iuc_poll iuc_inv "\<lambda>c. read_size (iuc_conn c)"
  by unfold_locales (auto dest: iuc_poll_consumes iuc_poll_loop simp: loop_step_def)

lemma iuc_inv_model:
  "iuc_inv c \<Longrightarrow> sm_inv sm \<Longrightarrow> iuc_inv (c\<lparr>iuc_server_model := sm\<rparr>)"
  by (simp add: iuc_inv_def)

text \<open>Adding a channel: the model changes, and the client sees itself join.\<close>

lemma iuc_add_channel_spec:
  assumes inv: "iuc_inv c" and fresh: "\<not> iuc_channel_exists c name"
    and known: "\<forall>(m, _) \<in> set members. iuc_nick_exists c m"
  shows "\<exists>c' sm. iuc_add_channel name topic members c = Inr c' \<and> iuc_inv c'
    \<and> sm_add name topic members (iuc_server_model c) = Inr sm \<and> iuc_server_model c' = sm
    \<and> iuc_emits (c\<lparr>iuc_server_model := sm\<rparr>) c'
         (join_lines c (make_channel name topic members))"
proof -
  let ?ch = "make_channel name topic members"
  from fresh have fr: "\<not> sm_channel_exists (iuc_server_model c) name"
    by (simp add: iuc_channel_exists_def)
  obtain sm where sm: "sm_add_channel name topic members (iuc_server_model c) = Inr (?ch, sm)"
    using sm_add_channel_eq [OF fr] by blast
  have inv': "sm_inv sm"
    by (rule sm_inv_add_channel [OF _ sm]) (use inv known in \<open>auto simp: iuc_inv_def iuc_nick_exists_def\<close>)
  define c1 where "c1 = c\<lparr>iuc_server_model := sm\<rparr>"
  have inv1: "iuc_inv c1"
    unfolding c1_def by (rule iuc_inv_model [OF inv inv'])
  have "sm_get_channel (iuc_server_model c1) name = Some ?ch"
    using sm_add_channel_InrD [OF sm] by (simp add: c1_def sm_get_channel_def)
  from join_response_known [OF inv1 this] obtain c' where
    j: "attempt_to_write_join_response name c1 = Inr (True, c')" "iuc_emits c1 c' (join_lines c1 ?ch)"
    by blast
  have "join_lines c1 ?ch = join_lines c ?ch"
    by (simp add: c1_def join_lines_def)
  moreover have "iuc_server_model c' = sm"
    using iuc_emits_fields(1) [OF j(2)] by (simp add: c1_def)
  ultimately show ?thesis
    using j sm iuc_inv_emits [OF inv1 j(2)]
    by (auto simp: iuc_add_channel_def sm_add_def simp flip: c1_def)
qed

lemma iuc_add_channel_model:
  "iuc_add_channel name topic members c = Inr c' \<Longrightarrow>
     sm_add name topic members (iuc_server_model c) = Inr (iuc_server_model c')"
  by (auto simp: iuc_add_channel_def sm_add_def attempt_to_write_join_response_def Let_def
      split: sum.splits option.splits prod.splits)

interpretation iuc_dir: user_directory iuc_inv iuc_nick_exists iuc_channel_exists
  iuc_create_user iuc_add_channel
proof unfold_locales
  fix s s' :: irc_user_connection and n u m c d t :: rstr and ms
  show "iuc_inv s \<Longrightarrow> \<not> iuc_nick_exists s n \<Longrightarrow> iuc_inv (iuc_create_user n u s)"
    unfolding iuc_create_user_def iuc_nick_exists_def
    by (rule iuc_inv_model) (auto simp: iuc_inv_def intro: sm.create_invar)
  show "iuc_nick_exists (iuc_create_user n u s) m \<longleftrightarrow> m = n \<or> iuc_nick_exists s m"
    by (simp add: iuc_nick_exists_def iuc_create_user_def sm.create_nick)
  show "iuc_channel_exists (iuc_create_user n u s) c \<longleftrightarrow> iuc_channel_exists s c"
    by (simp add: iuc_channel_exists_def iuc_create_user_def sm.create_channel)
  show "\<exists>s'. iuc_add_channel c t ms s = Inr s' \<and> iuc_inv s'"
    if "iuc_inv s" "\<not> iuc_channel_exists s c" "\<forall>(m, _) \<in> set ms. iuc_nick_exists s m"
    using iuc_add_channel_spec [OF that] by blast
  show "iuc_add_channel c t ms s = Inr s' \<Longrightarrow>
      iuc_channel_exists s' d \<longleftrightarrow> d = c \<or> iuc_channel_exists s d"
    unfolding iuc_channel_exists_def by (rule sm.add_channel_exists [OF iuc_add_channel_model])
  show "iuc_add_channel c t ms s = Inr s' \<Longrightarrow> iuc_nick_exists s' m \<longleftrightarrow> iuc_nick_exists s m"
    unfolding iuc_nick_exists_def by (rule sm.add_nick [OF iuc_add_channel_model])
qed

section \<open>What a login gathers\<close>

definition last_some :: "('a \<Rightarrow> 'b option) \<Rightarrow> 'a list \<Rightarrow> 'b option" where
  "last_some f xs = fold (\<lambda>x acc. case f x of Some y \<Rightarrow> Some y | None \<Rightarrow> acc) xs None"

fun nick_of :: "irc_command \<Rightarrow> rstr option" where
  "nick_of (Nick n) = Some n"
| "nick_of _ = None"

fun user_of :: "irc_command \<Rightarrow> (rstr \<times> rstr) option" where
  "user_of (User u r) = Some (u, r)"
| "user_of _ = None"

fun pass_of :: "irc_command \<Rightarrow> rstr option" where
  "pass_of (Pass p) = Some p"
| "pass_of _ = None"

lemma last_some_simps [simp]:
  "last_some f [] = None"
  "last_some f (xs @ [x]) = (case f x of Some y \<Rightarrow> Some y | None \<Rightarrow> last_some f xs)"
  by (auto simp: last_some_def split: option.splits)

lemma login_fold:
  "fold_items login_step cmds user_nick_default =
     \<lparr>un_nick = last_some nick_of cmds, un_user = map_option fst (last_some user_of cmds),
      un_real_name = map_option snd (last_some user_of cmds), un_password = last_some pass_of cmds\<rparr>"
proof (induction cmds rule: rev_induct)
  case Nil
  then show ?case by (simp add: user_nick_default_def)
next
  case (snoc cmd cmds)
  then show ?case
    by (cases cmd) (simp_all add: fold_items_append login_step_def Let_def)
qed

lemma login_step_done:
  "fst (login_step cmd un) \<longleftrightarrow> un_nick (snd (login_step cmd un)) \<noteq> None
     \<and> un_user (snd (login_step cmd un)) \<noteq> None \<and> un_real_name (snd (login_step cmd un)) \<noteq> None"
  by (simp add: login_step_def Let_def)

text \<open>Polling the login future until it gives a result.\<close>

inductive login_reaches ::
  "rstr \<Rightarrow> (irc_server_connection, user_nick) stream_fold_state \<Rightarrow> login_result \<Rightarrow> bool" for sn where
  now: "await_login_poll sn st = Some r \<Longrightarrow> login_reaches sn st r"
| later: "await_login_poll sn st = Some (Login_pending st') \<Longrightarrow> login_reaches sn st' r
    \<Longrightarrow> login_reaches sn st r"

text \<open>The state of a login that has seen the commands \<open>cmds\<close> of the client's bytes \<open>bs\<close>.\<close>

definition login_seen ::
  "u8 list \<Rightarrow> u8 list \<Rightarrow> rstr \<Rightarrow> irc_command list \<Rightarrow> irc_server_connection \<Rightarrow> bool" where
  "login_seen bs out sn cmds conn \<longleftrightarrow> isc_inv conn \<and> queued conn = out \<and> isc_server_name conn = sn
     \<and> commands_of bs = cmds @ commands_of (in_stream conn)"

definition login_outcome :: "u8 list \<Rightarrow> u8 list \<Rightarrow> rstr \<Rightarrow> login_result \<Rightarrow> bool" where
  "login_outcome bs out sn r \<longleftrightarrow>
     (case r of
        Login_pending st \<Rightarrow>
          (\<exists>cmds conn. st = Full conn (fold_items login_step cmds user_nick_default)
             \<and> login_seen bs out sn cmds conn)
      | Logged_in c \<Rightarrow>
          (\<exists>cmds. login_seen bs out sn cmds (iuc_conn c) \<and> iuc_inv c
             \<and> last_some nick_of cmds = Some (iuc_nick c)
             \<and> last_some user_of cmds = Some (iuc_user c, iuc_real_name c)
             \<and> last_some pass_of cmds = Some (iuc_password c)
             \<and> iuc_server_name c = sn \<and> iuc_server_model c = sm_new
             \<and> iuc_user_prefix c = iuc_nick c @ lit ''!'' @ iuc_user c @ lit ''@'' @ sn)
      | Login_failed e None \<Rightarrow> (\<exists>x. e = IoErr x)
      | Login_failed e (Some d) \<Rightarrow>
          e = IoErr (IoError InvalidData (lit ''IRC user did not supply password''))
          \<and> (\<exists>cmds conn nick. login_seen bs out sn cmds conn \<and> last_some nick_of cmds = Some nick
               \<and> last_some user_of cmds \<noteq> None \<and> last_some pass_of cmds = None
               \<and> queued d = out @ line_bytes
                   (numeric_line sn ErrNeedmoreparams nick (lit ''PASS :Password required''))))"

lemma emitted_server_name:
  "emitted isc_poll s is s' \<Longrightarrow> isc_inv s \<Longrightarrow> isc_server_name s' = isc_server_name s"
proof (induction rule: emitted.induct)
  case (item s i s' "is" t)
  note st = isc_poll_step [OF item.prems item.hyps(1)]
  with item.IH stream_step_queued [OF st] show ?case by (simp add: stream_step_inv)
qed simp

lemma login_seen_emitted:
  assumes "login_seen bs out sn cmds s" "emitted isc_poll s is s'"
  shows "login_seen bs out sn (cmds @ is) s'"
  using assms emitted_commands [OF assms(2)] emitted_server_name [OF assms(2)]
  by (simp add: login_seen_def)

lemma fold_items_login:
  "fold_items login_step is (fold_items login_step cmds user_nick_default)
     = fold_items login_step (cmds @ is) user_nick_default"
  by (simp add: fold_items_append)

lemma login_seen_pause:
  assumes "login_seen bs out sn cmds s" "isc_poll s = (Inr NotReady, t)"
  shows "login_seen bs out sn cmds t"
proof -
  have st: "stream_step s (Inr NotReady) t"
    using assms isc_poll_step by (simp add: login_seen_def)
  with assms(1) stream_step_queued [OF st] show ?thesis
    by (simp add: login_seen_def stream_step_def)
qed

text \<open>The three fields a final command leaves set, so no \<open>expect\<close> of the login can panic.\<close>

lemma login_final_fields:
  assumes "is \<noteq> []" "fst (login_step (last is) (fold_items login_step (butlast is) v))"
  shows "\<exists>n u r. un_nick (fold_items login_step is v) = Some n
    \<and> un_user (fold_items login_step is v) = Some u \<and> un_real_name (fold_items login_step is v) = Some r"
proof -
  have "fold_items login_step is v
      = snd (login_step (last is) (fold_items login_step (butlast is) v))"
    using fold_items_append [of login_step "butlast is" "[last is]" v] assms(1) by simp
  with assms(2) show ?thesis
    by (auto simp: login_step_done)
qed

lemma login_finish_outcome:
  assumes seen: "login_seen bs out sn cmds s"
    and un: "un = fold_items login_step cmds user_nick_default"
    and f: "un_nick un = Some n" "un_user un = Some u" "un_real_name un = Some rn"
  shows "case login_finish sn (Some (un, s)) of
      (Inl e, conn) \<Rightarrow> login_outcome bs out sn (Login_failed e conn)
    | (Inr c, _) \<Rightarrow> login_outcome bs out sn (Logged_in c)"
proof (cases "un_password un")
  case None
  have inv: "isc_inv s" and q: "queued s = out" and sn: "isc_server_name s = sn"
    using seen by (simp_all add: login_seen_def)
  have "emits s (write_password_required n s)
      [numeric_line sn ErrNeedmoreparams n (lit ''PASS :Password required'')]"
    using emits_write_numeric [of s ErrNeedmoreparams n] inv sn
    by (simp add: write_password_required_def isc_inv_def)
  then have "queued (write_password_required n s) = out @ line_bytes
      (numeric_line sn ErrNeedmoreparams n (lit ''PASS :Password required''))"
    using q by (simp add: emits_def)
  moreover have "last_some nick_of cmds = Some n" "last_some user_of cmds \<noteq> None"
    "last_some pass_of cmds = None"
    using None f unfolding un login_fold by auto
  ultimately show ?thesis
    using None f seen
    by (simp add: login_finish_def expect_def login_outcome_def) blast
next
  case (Some p)
  have "last_some nick_of cmds = Some n" "last_some user_of cmds = Some (u, rn)"
    "last_some pass_of cmds = Some p"
    using Some f unfolding un login_fold by auto
  then show ?thesis
    using Some f seen
    by (auto simp: login_finish_def expect_def login_outcome_def iuc_inv_def login_seen_def)
qed

lemma login_poll_outcome:
  assumes seen: "login_seen bs out sn cmds s"
  shows "\<exists>r. await_login_poll sn (Full s (fold_items login_step cmds user_nick_default)) = Some r
    \<and> login_outcome bs out sn r"
proof -
  let ?v = "fold_items login_step cmds user_nick_default"
  have inv: "isc_inv s" using seen by (simp add: login_seen_def)
  obtain "is" s' r st where run: "emitted isc_poll s is s'"
    and res: "sf_loop isc_poll login_step s ?v = Some (r, st)"
    and how: "sf_paused isc_poll login_step ?v is s' r st \<or> sf_finished login_step ?v is s' r st"
    using isc.loop_returns [OF inv, of login_step ?v] by auto
  note seen' = login_seen_emitted [OF seen run]
  have inv': "isc_inv s'" using seen' by (simp add: login_seen_def)
  from how show ?thesis
  proof
    assume paused: "sf_paused isc_poll login_step ?v is s' r st"
    obtain q t where q: "isc_poll s' = (q, t)" by (cases "isc_poll s'")
    note step = isc_poll_step [OF inv' q]
    consider e where "q = Inl e" "r = Inl e" | "q = Inr (Ready None)" "r = Inr (Ready None)"
      | "q = Inr NotReady" "r = Inr NotReady" "st = Full t (fold_items login_step is ?v)"
      using paused q
      by (auto simp: sf_paused_def split: sum.splits async.splits option.splits)
    then show ?thesis
    proof cases
      case (1 e)
      then obtain x where "e = IoErr x"
        using step by (cases e) (auto simp: stream_step_def)
      with 1 res show ?thesis by (simp add: await_login_poll_def sf_poll_def login_outcome_def)
    next
      case 2
      with res show ?thesis
        by (simp add: await_login_poll_def sf_poll_def login_outcome_def login_finish_def)
    next
      case 3
      with res fold_items_login login_seen_pause [OF seen'] q show ?thesis
        by (auto simp: await_login_poll_def sf_poll_def login_outcome_def)
    qed
  next
    assume fin: "sf_finished login_step ?v is s' r st"
    then have r: "r = Inr (Ready (Some (fold_items login_step is ?v, s')))"
      by (simp add: sf_finished_def)
    obtain n u rn where f: "un_nick (fold_items login_step is ?v) = Some n"
      "un_user (fold_items login_step is ?v) = Some u"
      "un_real_name (fold_items login_step is ?v) = Some rn"
      using fin login_final_fields [of "is" ?v] by (auto simp: sf_finished_def)
    from login_finish_outcome [OF seen' fold_items_login f] res r show ?thesis
      by (auto simp: await_login_poll_def sf_poll_def split: prod.splits sum.splits)
  qed
qed

lemma login_seen_new: "login_seen (env_data env) (sent env) sn [] (isc_new env sn)"
  by (simp add: login_seen_def isc_new_def isc_inv_def cursor_ok_def queued_def in_stream_def max_line_def)

lemma login_reaches_outcome:
  assumes "login_reaches sn st r"
  shows "st = Full s (fold_items login_step cmds user_nick_default) \<Longrightarrow> login_seen bs out sn cmds s
    \<Longrightarrow> login_outcome bs out sn r"
  using assms
proof (induction arbitrary: s cmds rule: login_reaches.induct)
  case (now st r)
  with login_poll_outcome [of bs out sn cmds s] show ?case by auto
next
  case (later st st' r)
  with login_poll_outcome [of bs out sn cmds s] have "login_outcome bs out sn (Login_pending st')"
    by auto
  then show ?case using later.IH by (auto simp: login_outcome_def)
qed

end
