(* ===== verification/Matrix_Models.thy ===== *)
theory Matrix_Models
  imports Btree_Map
begin

text \<open>
  \<open>src/matrix/protocol.rs\<close> (the structs of a sync response) and \<open>src/matrix/models.rs\<close> (a room built
  from sync responses). \<open>serde_json::Value\<close> is a third-party type: it is the type variable \<open>'j\<close>, and
  the four accessors the program calls on it are the fields of a record that every definition using
  them takes as its first argument.
\<close>

section \<open>Data\<close>

record 'j value_ops =
  vo_get :: "'j \<Rightarrow> rstr \<Rightarrow> 'j option"
  vo_as_str :: "'j \<Rightarrow> rstr option"
  vo_as_object :: "'j \<Rightarrow> (rstr, 'j) btree option"
  vo_as_u64 :: "'j \<Rightarrow> 64 word option"

record event_unsigned =
  eu_transaction_id :: "rstr option"

record 'j event =
  ev_sender :: rstr
  ev_event_id :: rstr
  ev_etype :: rstr
  ev_state_key :: "rstr option"
  ev_content :: 'j
  ev_unsigned :: event_unsigned

record 'j room_timeline_sync_response =
  tl_limited :: bool
  tl_prev_batch :: rstr
  tl_events :: "'j event list"

record 'j room_state_sync_response =
  st_events :: "'j event list"

record 'j joined_room_sync_response =
  jr_timeline :: "'j room_timeline_sync_response"
  jr_state :: "'j room_state_sync_response"

record 'j rooms_sync_response =
  rs_join :: "(rstr, 'j joined_room_sync_response) btree"

record 'j sync_response =
  sr_next_batch :: rstr
  sr_rooms :: "'j rooms_sync_response"

record member =
  mb_user_id :: rstr
  mb_display_name :: rstr
  mb_moderator :: bool

type_synonym 'j state_map = "(rstr, (rstr, 'j event) btree) btree"

record 'j matrix_room =
  rm_room_id :: rstr
  rm_state :: "'j state_map"
  rm_members :: "(rstr, member) btree"

section \<open>Operations\<close>

text \<open>\<open>entry(etype).or_insert_with(BTreeMap::new).insert(state_key, ev)\<close>\<close>

definition put_event :: "rstr \<Rightarrow> 'j event \<Rightarrow> 'j state_map \<Rightarrow> 'j state_map" where
  "put_event state_key ev st =
     bt_insert (ev_etype ev)
       (bt_insert state_key ev (case bt_get st (ev_etype ev) of Some m \<Rightarrow> m | None \<Rightarrow> bt_empty)) st"

fun put_state_events :: "'j event list \<Rightarrow> 'j state_map \<Rightarrow> exn + 'j state_map" where
  "put_state_events [] st = Inr st"
| "put_state_events (ev # evs) st =
     (case ev_state_key ev of
        None \<Rightarrow> Inl (Panic ''state should have state_key'')
      | Some state_key \<Rightarrow> put_state_events evs (put_event state_key ev st))"

fun put_timeline_events :: "'j event list \<Rightarrow> 'j state_map \<Rightarrow> 'j state_map" where
  "put_timeline_events [] st = st"
| "put_timeline_events (ev # evs) st =
     (case ev_state_key ev of
        None \<Rightarrow> put_timeline_events evs st
      | Some state_key \<Rightarrow> put_timeline_events evs (put_event state_key ev st))"

definition get_state :: "'j matrix_room \<Rightarrow> rstr \<Rightarrow> rstr \<Rightarrow> 'j option" where
  "get_state room etype state_key =
     (case bt_get (rm_state room) etype of
        None \<Rightarrow> None
      | Some topic_map \<Rightarrow> map_option ev_content (bt_get topic_map state_key))"

definition get_state_content_key ::
  "'j value_ops \<Rightarrow> 'j matrix_room \<Rightarrow> rstr \<Rightarrow> rstr \<Rightarrow> rstr \<Rightarrow> rstr option" where
  "get_state_content_key V room etype state_key content_key =
     (case get_state room etype state_key of
        None \<Rightarrow> None
      | Some content \<Rightarrow>
          (case vo_as_object V content of
             None \<Rightarrow> None
           | Some obj \<Rightarrow>
               (case bt_get obj content_key of
                  None \<Rightarrow> None
                | Some v \<Rightarrow> vo_as_str V v)))"

definition get_name :: "'j value_ops \<Rightarrow> 'j matrix_room \<Rightarrow> rstr option" where
  "get_name V room = get_state_content_key V room (lit ''m.room.name'') [] (lit ''name'')"

definition get_topic :: "'j value_ops \<Rightarrow> 'j matrix_room \<Rightarrow> rstr option" where
  "get_topic V room = get_state_content_key V room (lit ''m.room.topic'') [] (lit ''topic'')"

text \<open>The moderators: users whose power level is a non-negative integer of at least 50.\<close>

definition moderators :: "'j value_ops \<Rightarrow> 'j matrix_room \<Rightarrow> rstr set" where
  "moderators V room =
     (case get_state room (lit ''m.room.power_levels'') [] of
        None \<Rightarrow> {}
      | Some content \<Rightarrow>
          (case vo_get V content (lit ''users'') of
             None \<Rightarrow> {}
           | Some v \<Rightarrow>
               (case vo_as_object V v of
                  None \<Rightarrow> {}
                | Some users \<Rightarrow>
                    fold (\<lambda>(user_id, level_val) mods.
                      case vo_as_u64 V level_val of
                        Some level \<Rightarrow> if level \<ge> 50 then insert user_id mods else mods
                      | None \<Rightarrow> mods) users {})))"

definition content_str :: "'j value_ops \<Rightarrow> 'j \<Rightarrow> rstr \<Rightarrow> rstr option" where
  "content_str V content key =
     (case vo_get V content key of None \<Rightarrow> None | Some v \<Rightarrow> vo_as_str V v)"

definition unwrap_or :: "'a \<Rightarrow> 'a option \<Rightarrow> 'a" where
  "unwrap_or d x = (case x of Some v \<Rightarrow> v | None \<Rightarrow> d)"

definition recalculate_members :: "'j value_ops \<Rightarrow> 'j matrix_room \<Rightarrow> 'j matrix_room" where
  "recalculate_members V room =
     (let mods = moderators V room in
      case bt_get (rm_state room) (lit ''m.room.member'') of
        None \<Rightarrow> room
      | Some member_state \<Rightarrow>
          room\<lparr>rm_members :=
            fold (\<lambda>(user_id, ev) members.
              let membership = unwrap_or [] (content_str V (ev_content ev) (lit ''membership''));
                  display_name = unwrap_or [] (content_str V (ev_content ev) (lit ''displayname''))
              in if membership = lit ''join'' then
                   bt_insert user_id
                     \<lparr>mb_user_id = user_id, mb_display_name = display_name,
                      mb_moderator = (user_id \<in> mods)\<rparr> members
                 else members) member_state (rm_members room)\<rparr>)"

definition from_sync ::
  "'j value_ops \<Rightarrow> rstr \<Rightarrow> 'j joined_room_sync_response \<Rightarrow> exn + 'j matrix_room" where
  "from_sync V room_id resp =
     (case put_state_events (st_events (jr_state resp)) bt_empty of
        Inl e \<Rightarrow> Inl e
      | Inr state_map \<Rightarrow>
          Inr (recalculate_members V
            \<lparr>rm_room_id = room_id,
             rm_state = put_timeline_events (tl_events (jr_timeline resp)) state_map,
             rm_members = bt_empty\<rparr>))"

text \<open>The event type the update looks for is spelled as in the source.\<close>

definition is_member_event :: "'j event \<Rightarrow> bool" where
  "is_member_event ev \<longleftrightarrow> ev_etype ev = lit ''m.room_member''"

definition update_from_sync ::
  "'j value_ops \<Rightarrow> 'j joined_room_sync_response \<Rightarrow> 'j matrix_room \<Rightarrow> exn + 'j matrix_room" where
  "update_from_sync V resp room =
     (case put_state_events (st_events (jr_state resp)) (rm_state room) of
        Inl e \<Rightarrow> Inl e
      | Inr state_map \<Rightarrow>
          (let contained_member_event =
                 list_ex is_member_event (st_events (jr_state resp))
                 \<or> list_ex (\<lambda>ev. ev_state_key ev \<noteq> None \<and> is_member_event ev)
                     (tl_events (jr_timeline resp));
               room' = room\<lparr>rm_state :=
                 put_timeline_events (tl_events (jr_timeline resp)) state_map\<rparr>
           in Inr (if contained_member_event then recalculate_members V room' else room')))"

section \<open>State: the last event wins\<close>

text \<open>The events of a response in the order they are applied, and the one that counts.\<close>

definition sync_events :: "'j joined_room_sync_response \<Rightarrow> 'j event list" where
  "sync_events resp = st_events (jr_state resp) @ tl_events (jr_timeline resp)"

definition last_event :: "rstr \<Rightarrow> rstr \<Rightarrow> 'j event list \<Rightarrow> 'j event option" where
  "last_event etype key evs =
     (case filter (\<lambda>ev. ev_etype ev = etype \<and> ev_state_key ev = Some key) evs of
        [] \<Rightarrow> None | xs \<Rightarrow> Some (last xs))"

definition lookup_event :: "'j state_map \<Rightarrow> rstr \<Rightarrow> rstr \<Rightarrow> 'j event option" where
  "lookup_event st etype key =
     (case bt_get st etype of None \<Rightarrow> None | Some m \<Rightarrow> bt_get m key)"

definition all_keyed :: "'j event list \<Rightarrow> bool" where
  "all_keyed evs \<longleftrightarrow> (\<forall>ev \<in> set evs. ev_state_key ev \<noteq> None)"

definition state_wf :: "'j state_map \<Rightarrow> bool" where
  "state_wf st \<longleftrightarrow> bt_wf st \<and> (\<forall>etype m. bt_get st etype = Some m \<longrightarrow> bt_wf m)"

lemma state_wf_empty [simp]: "state_wf bt_empty"
  by (simp add: state_wf_def)

lemma state_wf_put [inv_intros]: "state_wf st \<Longrightarrow> state_wf (put_event key ev st)"
  by (auto simp: state_wf_def put_event_def split: option.splits)

lemma lookup_put:
  "lookup_event (put_event key ev st) etype k =
     (if etype = ev_etype ev \<and> k = key then Some ev else lookup_event st etype k)"
  by (auto simp: lookup_event_def put_event_def split: option.splits)

lemma last_event_Cons:
  "last_event etype k (ev # evs) =
     (case last_event etype k evs of
        Some e \<Rightarrow> Some e
      | None \<Rightarrow> if ev_etype ev = etype \<and> ev_state_key ev = Some k then Some ev else None)"
  by (auto simp: last_event_def split: list.splits)

lemma put_timeline_lookup:
  "lookup_event (put_timeline_events evs st) etype k =
     (case last_event etype k evs of Some e \<Rightarrow> Some e | None \<Rightarrow> lookup_event st etype k)"
  by (induction evs st rule: put_timeline_events.induct)
    (auto simp: last_event_Cons lookup_put last_event_def [of _ _ "[]"] split: option.splits)

lemma put_timeline_wf [inv_intros]: "state_wf st \<Longrightarrow> state_wf (put_timeline_events evs st)"
  by (induction evs st rule: put_timeline_events.induct) (auto simp: state_wf_put split: option.splits)

text \<open>Where every event has a key, the two loops do the same.\<close>

lemma put_state_eq:
  "put_state_events evs st =
     (if all_keyed evs then Inr (put_timeline_events evs st)
      else Inl (Panic ''state should have state_key''))"
  by (induction evs st rule: put_state_events.induct) (auto simp: all_keyed_def split: option.splits)

lemma put_timeline_append:
  "put_timeline_events (xs @ ys) st = put_timeline_events ys (put_timeline_events xs st)"
  by (induction xs st rule: put_timeline_events.induct) (auto split: option.splits)

lemma get_state_lookup: "get_state room etype k = map_option ev_content (lookup_event (rm_state room) etype k)"
  by (simp add: get_state_def lookup_event_def split: option.splits)

section \<open>Members\<close>

lemma fold_insert_if:
  "fold (\<lambda>(k, v) s. case P v of Some l \<Rightarrow> if Q l then insert k s else s | None \<Rightarrow> s) xs s0
     = s0 \<union> {k. \<exists>v l. (k, v) \<in> set xs \<and> P v = Some l \<and> Q l}"
  by (induction xs arbitrary: s0) (auto split: option.splits if_splits)

lemma moderators_iff:
  "u \<in> moderators V room \<longleftrightarrow>
     (\<exists>c v users lv level. get_state room (lit ''m.room.power_levels'') [] = Some c
        \<and> vo_get V c (lit ''users'') = Some v \<and> vo_as_object V v = Some users
        \<and> (u, lv) \<in> set users \<and> vo_as_u64 V lv = Some level \<and> level \<ge> 50)"
  by (auto simp: moderators_def fold_insert_if split: option.splits)

definition joined :: "'j value_ops \<Rightarrow> 'j event \<Rightarrow> bool" where
  "joined V ev \<longleftrightarrow> content_str V (ev_content ev) (lit ''membership'') = Some (lit ''join'')"

definition member_of_event :: "'j value_ops \<Rightarrow> rstr set \<Rightarrow> rstr \<Rightarrow> 'j event \<Rightarrow> member" where
  "member_of_event V mods user_id ev =
     \<lparr>mb_user_id = user_id,
      mb_display_name = unwrap_or [] (content_str V (ev_content ev) (lit ''displayname'')),
      mb_moderator = (user_id \<in> mods)\<rparr>"

lemma unwrap_or_join: "unwrap_or [] x = lit ''join'' \<longleftrightarrow> x = Some (lit ''join'')"
  by (cases x) (auto simp: unwrap_or_def)

lemma recalculate_simps [simp, frame_simps]:
  "rm_state (recalculate_members V room) = rm_state room"
  "rm_room_id (recalculate_members V room) = rm_room_id room"
  by (simp_all add: recalculate_members_def Let_def split: option.splits)

lemma fold_members_get:
  "bt_get (fold (\<lambda>(k, v) m. if P v then bt_insert k (g k v) m else m) xs m0) u =
     (case map_of (rev (filter (\<lambda>(k, v). P v) xs)) u of
        Some v \<Rightarrow> Some (g u v) | None \<Rightarrow> bt_get m0 u)"
proof (induction xs arbitrary: m0)
  case (Cons x xs)
  then show ?case
    by (cases x) (auto simp: map_add_def split: option.splits)
qed simp

definition note_member ::
  "'j value_ops \<Rightarrow> rstr set \<Rightarrow> rstr \<times> 'j event \<Rightarrow> (rstr, member) btree \<Rightarrow> (rstr, member) btree" where
  "note_member V mods = (\<lambda>(k, v) m. if joined V v then bt_insert k (member_of_event V mods k v) m else m)"

lemma recalculate_fold:
  "recalculate_members V room =
     (case bt_get (rm_state room) (lit ''m.room.member'') of
        None \<Rightarrow> room
      | Some ms \<Rightarrow> room\<lparr>rm_members := fold (note_member V (moderators V room)) ms (rm_members room)\<rparr>)"
proof -
  have fn: "(\<lambda>(user_id, ev) members.
      let membership = unwrap_or [] (content_str V (ev_content ev) (lit ''membership''));
          display_name = unwrap_or [] (content_str V (ev_content ev) (lit ''displayname''))
      in if membership = lit ''join'' then
           bt_insert user_id \<lparr>mb_user_id = user_id, mb_display_name = display_name,
              mb_moderator = (user_id \<in> mods)\<rparr> members
         else members) = note_member V mods" for mods
    by (auto simp: fun_eq_iff Let_def joined_def member_of_event_def unwrap_or_join note_member_def)
  show ?thesis
    unfolding recalculate_members_def Let_def [of "moderators V room"] fn by (rule refl)
qed

lemma recalculate_get:
  assumes "state_wf (rm_state room)"
  shows "bt_get (rm_members (recalculate_members V room)) u =
    (case lookup_event (rm_state room) (lit ''m.room.member'') u of
       Some ev \<Rightarrow>
         if joined V ev then Some (member_of_event V (moderators V room) u ev)
         else bt_get (rm_members room) u
     | None \<Rightarrow> bt_get (rm_members room) u)"
proof (cases "bt_get (rm_state room) (lit ''m.room.member'')")
  case None
  then show ?thesis by (simp add: recalculate_fold lookup_event_def)
next
  case (Some ms)
  have wf: "bt_wf ms" using assms Some by (simp add: state_wf_def)
  have d: "distinct (map fst (filter (\<lambda>(k, v). joined V v) ms))"
    using wf by (simp add: bt_wf_def strict_sorted_iff distinct_map_filter)
  have "map_of (rev (filter (\<lambda>(k, v). joined V v) ms)) u = Some v \<longleftrightarrow> bt_get ms u = Some v \<and> joined V v" for v
    using d bt_get_mem [OF wf, of u v] by (simp add: map_of_rev_distinct)
  then have eq: "map_of (rev (filter (\<lambda>(k, v). joined V v) ms)) u
      = (case bt_get ms u of Some v \<Rightarrow> if joined V v then Some v else None | None \<Rightarrow> None)"
    by (intro option_eqI) (auto split: option.splits)
  show ?thesis
    by (simp add: recalculate_fold Some note_member_def fold_members_get eq lookup_event_def
        split: option.splits)
qed

text \<open>Nobody is ever removed.\<close>

lemma note_member_keys: "set (bt_keys m) \<subseteq> set (bt_keys (fold (note_member V mods) xs m))"
proof (induction xs arbitrary: m)
  case (Cons x xs)
  have "set (bt_keys m) \<subseteq> set (bt_keys (note_member V mods x m))"
    by (auto simp: note_member_def split: prod.splits)
  with Cons.IH [of "note_member V mods x m"] show ?case by simp
qed simp

lemma recalculate_keys:
  "set (bt_keys (rm_members room)) \<subseteq> set (bt_keys (rm_members (recalculate_members V room)))"
  unfolding recalculate_fold by (auto split: option.splits dest: subsetD [OF note_member_keys])

definition members_keyed :: "'j matrix_room \<Rightarrow> bool" where
  "members_keyed room \<longleftrightarrow> bt_wf (rm_members room)
     \<and> (\<forall>u m. bt_get (rm_members room) u = Some m \<longrightarrow> mb_user_id m = u)"

definition room_inv :: "'j matrix_room \<Rightarrow> bool" where
  "room_inv room \<longleftrightarrow> state_wf (rm_state room) \<and> members_keyed room"

lemma note_member_wf: "bt_wf m \<Longrightarrow> bt_wf (fold (note_member V mods) xs m)"
  by (induction xs arbitrary: m) (auto simp: note_member_def split: prod.splits)

lemma recalculate_wf: "bt_wf (rm_members room) \<Longrightarrow> bt_wf (rm_members (recalculate_members V room))"
  by (simp add: recalculate_fold note_member_wf split: option.splits)

lemma room_inv_recalculate [inv_intros]: "room_inv room \<Longrightarrow> room_inv (recalculate_members V room)"
  unfolding room_inv_def members_keyed_def
  by (auto simp: recalculate_get recalculate_wf member_of_event_def split: option.splits if_splits)

lemma from_sync_eq:
  "from_sync V room_id resp =
     (if all_keyed (st_events (jr_state resp))
      then Inr (recalculate_members V
        \<lparr>rm_room_id = room_id, rm_state = put_timeline_events (sync_events resp) bt_empty,
         rm_members = bt_empty\<rparr>)
      else Inl (Panic ''state should have state_key''))"
  by (simp add: from_sync_def put_state_eq sync_events_def put_timeline_append)

lemma room_inv_from_sync [inv_intros]: "from_sync V room_id resp = Inr room \<Longrightarrow> room_inv room"
  by (auto simp: from_sync_eq split: if_splits intro!: room_inv_recalculate)
    (simp add: room_inv_def members_keyed_def put_timeline_wf)

lemma update_from_sync_state:
  "update_from_sync V resp room = Inr room' \<Longrightarrow>
     rm_state room' = put_timeline_events (sync_events resp) (rm_state room)
     \<and> rm_room_id room' = rm_room_id room"
  by (auto simp: update_from_sync_def put_state_eq sync_events_def put_timeline_append Let_def
      split: if_splits)

text \<open>The state after any number of responses.\<close>

lemma updates_state:
  assumes "foldl (\<lambda>room resp. case room of Inl e \<Rightarrow> Inl e | Inr r \<Rightarrow> update_from_sync V resp r)
      (from_sync V room_id first) later = Inr room"
  shows "rm_state room = put_timeline_events (concat (map sync_events (first # later))) bt_empty"
  using assms
proof (induction later arbitrary: room rule: rev_induct)
  case Nil
  then show ?case by (auto simp: from_sync_eq split: if_splits)
next
  case (snoc resp later)
  then obtain mid where "foldl (\<lambda>room resp. case room of Inl e \<Rightarrow> Inl e | Inr r \<Rightarrow> update_from_sync V resp r)
      (from_sync V room_id first) later = Inr mid" and upd: "update_from_sync V resp mid = Inr room"
    by (auto split: sum.splits)
  with snoc.IH [of mid] update_from_sync_state [OF upd] show ?case by (simp add: put_timeline_append)
qed

lemma room_inv_update [inv_intros]:
  assumes "room_inv room" "update_from_sync V resp room = Inr room'"
  shows "room_inv room'"
proof -
  let ?r = "room\<lparr>rm_state := put_timeline_events (sync_events resp) (rm_state room)\<rparr>"
  have "room_inv ?r"
    using assms(1) by (simp add: room_inv_def members_keyed_def put_timeline_wf)
  moreover have "room' = ?r \<or> room' = recalculate_members V ?r"
    using assms(2)
    by (auto simp: update_from_sync_def put_state_eq sync_events_def put_timeline_append Let_def
        split: if_splits)
  ultimately show ?thesis by (auto intro: room_inv_recalculate)
qed

lemma update_from_sync_ok:
  "(\<exists>room'. update_from_sync V resp room = Inr room') \<longleftrightarrow> all_keyed (st_events (jr_state resp))"
  by (simp add: update_from_sync_def put_state_eq Let_def)

end
