(* ===== verification/Mapping_Store.thy ===== *)
theory Mapping_Store
  imports Irc_Connection Matrix_Models
begin

text \<open>
  \<open>MappingStore\<close> of \<open>src/bridge/mod.rs\<close>: which IRC channel stands for which Matrix room and which
  nick for which Matrix user. Its methods also create the channel or the user on the IRC side, so
  they pass the store and the \<open>IrcUserConnection\<close> along together.
\<close>

section \<open>State\<close>

record mapping_store =
  mp_channel_to_room_id :: "(rstr, rstr) btree"
  mp_room_id_to_channel :: "(rstr, rstr) btree"
  mp_matrix_uid_to_nick :: "(rstr, rstr) btree"
  mp_nick_matrix_uid :: "(rstr, rstr) btree"

definition mapping_store_default :: mapping_store where
  "mapping_store_default =
     \<lparr>mp_channel_to_room_id = bt_empty, mp_room_id_to_channel = bt_empty,
      mp_matrix_uid_to_nick = bt_empty, mp_nick_matrix_uid = bt_empty\<rparr>"

section \<open>Names\<close>

text \<open>The characters both filters let through.\<close>

definition irc_safe :: "rchar \<Rightarrow> bool" where
  "irc_safe c \<longleftrightarrow> \<not> (c \<le> 0x20 \<or> c = 64 \<or> c = 34 \<or> c = 43 \<or> c = 35 \<or> c = 0x7F)"

definition strip_name :: "rstr \<Rightarrow> rstr" where
  "strip_name s = filter irc_safe s"

definition numbered :: "rstr \<Rightarrow> nat \<Rightarrow> rstr" where
  "numbered base idx = base @ lit ''['' @ decimal idx @ lit '']''"

lemma numbered_inject [simp]: "numbered base i = numbered base j \<longleftrightarrow> i = j"
  by (simp add: numbered_def)

text \<open>
  The loop that numbers a taken name. It asks the server's map for \<open>base[1]\<close>, \<open>base[2]\<close> and so on;
  the map is finite and the candidates are different, so the number of taken candidates falls.
\<close>

definition taken_from :: "(rstr, 'v) btree \<Rightarrow> rstr \<Rightarrow> nat \<Rightarrow> nat set" where
  "taken_from m base idx = {j. idx \<le> j \<and> bt_contains m (numbered base j)}"

lemma finite_taken: "finite (taken_from m base idx)"
proof (rule finite_imageD)
  have "numbered base ` taken_from m base idx \<subseteq> set (bt_keys m)"
    by (auto simp: taken_from_def bt_contains_iff)
  then show "finite (numbered base ` taken_from m base idx)"
    using finite_subset by blast
  show "inj_on (numbered base) (taken_from m base idx)"
    by (simp add: inj_on_def)
qed

lemma card_taken: "card (taken_from m base idx) \<le> length m"
proof -
  have "card (taken_from m base idx) = card (numbered base ` taken_from m base idx)"
    by (rule card_image [symmetric]) (simp add: inj_on_def)
  also have "\<dots> \<le> card (set (bt_keys m))"
    by (rule card_mono) (auto simp: taken_from_def bt_contains_iff)
  also have "\<dots> \<le> length m"
    using card_length [of "bt_keys m"] by simp
  finally show ?thesis .
qed

lemma card_taken_Suc:
  assumes "bt_contains m (numbered base idx)"
  shows "card (taken_from m base idx) = Suc (card (taken_from m base (Suc idx)))"
proof -
  have "taken_from m base idx = insert idx (taken_from m base (Suc idx))"
    using assms by (auto simp: taken_from_def Suc_le_eq le_less)
  then show ?thesis
    using finite_taken [of m base "Suc idx"] by (simp add: taken_from_def)
qed

text \<open>The code counts in an \<open>i32\<close>; the counter stays at or below the number of names in use.\<close>

function first_free :: "(rstr, 'v) btree \<Rightarrow> rstr \<Rightarrow> nat \<Rightarrow> rstr" where
  "first_free m base idx =
     (let candidate = numbered base idx in
      if \<not> bt_contains m candidate then candidate else first_free m base (idx + 1))"
  by pat_completeness auto
termination
  by (relation "measure (\<lambda>(m, base, idx). card (taken_from m base idx))")
    (auto simp: card_taken_Suc)

declare first_free.simps [simp del]

definition unique_name :: "(rstr, 'v) btree \<Rightarrow> rstr \<Rightarrow> rstr" where
  "unique_name m name = (if bt_contains m name then first_free m name 1 else name)"

section \<open>Operations\<close>

definition insert_nick ::
  "rstr \<Rightarrow> rstr \<Rightarrow> mapping_store \<Rightarrow> irc_user_connection \<Rightarrow> mapping_store \<times> irc_user_connection" where
  "insert_nick nick user_id mp c =
     (mp\<lparr>mp_matrix_uid_to_nick := bt_insert user_id nick (mp_matrix_uid_to_nick mp),
         mp_nick_matrix_uid := bt_insert nick user_id (mp_nick_matrix_uid mp)\<rparr>,
      iuc_create_user nick user_id c)"

definition channel_to_room_id :: "mapping_store \<Rightarrow> rstr \<Rightarrow> rstr option" where
  "channel_to_room_id mp channel = bt_get (mp_channel_to_room_id mp) channel"

definition room_id_to_channel :: "mapping_store \<Rightarrow> rstr \<Rightarrow> rstr option" where
  "room_id_to_channel mp room_id = bt_get (mp_room_id_to_channel mp) room_id"

definition get_nick_from_matrix :: "mapping_store \<Rightarrow> rstr \<Rightarrow> rstr option" where
  "get_nick_from_matrix mp user_id = bt_get (mp_matrix_uid_to_nick mp) user_id"

definition nick_base :: "rstr \<Rightarrow> rstr \<Rightarrow> rstr" where
  "nick_base user_id display_name =
     (let nick = strip_name display_name in
      if byte_len nick < 3 then strip_name user_id else nick)"

definition create_or_get_nick_from_matrix ::
  "rstr \<Rightarrow> rstr \<Rightarrow> mapping_store \<Rightarrow> irc_user_connection \<Rightarrow>
     rstr \<times> mapping_store \<times> irc_user_connection" where
  "create_or_get_nick_from_matrix user_id display_name mp c =
     (case bt_get (mp_matrix_uid_to_nick mp) user_id of
        Some nick \<Rightarrow> (nick, mp, c)
      | None \<Rightarrow>
          (let nick = unique_name (sm_users (iuc_server_model c)) (nick_base user_id display_name);
               (mp', c') = insert_nick nick user_id mp c
           in (nick, mp', c')))"

text \<open>The loop over the members of a room.\<close>

fun create_or_get_nicks ::
  "(rstr \<times> member) list \<Rightarrow> mapping_store \<Rightarrow> irc_user_connection \<Rightarrow>
     (rstr \<times> bool) list \<times> mapping_store \<times> irc_user_connection" where
  "create_or_get_nicks [] mp c = ([], mp, c)"
| "create_or_get_nicks ((_, member) # ms) mp c =
     (let (nick, mp1, c1) =
            create_or_get_nick_from_matrix (mb_user_id member) (mb_display_name member) mp c;
          (nicks, mp2, c2) = create_or_get_nicks ms mp1 c1
      in ((nick, mb_moderator member) # nicks, mp2, c2))"

definition channel_base :: "'j value_ops \<Rightarrow> 'j matrix_room \<Rightarrow> rstr" where
  "channel_base V room =
     (case get_state_content_key V room (lit ''m.room.canonical_alias'') [] (lit ''alias'') of
        Some alias \<Rightarrow> alias
      | None \<Rightarrow>
          (case get_name V room of
             Some name \<Rightarrow>
               (let stripped_name = strip_name name in
                if stripped_name \<noteq> [] then lit ''#'' @ stripped_name else lit ''#'' @ rm_room_id room)
           | None \<Rightarrow> lit ''#'' @ rm_room_id room))"

definition create_or_get_channel_name_from_matrix ::
  "'j value_ops \<Rightarrow> 'j matrix_room \<Rightarrow> mapping_store \<Rightarrow> irc_user_connection \<Rightarrow>
     exn + ((rstr \<times> bool) \<times> mapping_store \<times> irc_user_connection)" where
  "create_or_get_channel_name_from_matrix V room mp c =
     (case bt_get (mp_room_id_to_channel mp) (rm_room_id room) of
        Some channel \<Rightarrow> Inr ((channel, False), mp, c)
      | None \<Rightarrow>
          (let channel = unique_name (sm_channels (iuc_server_model c)) (channel_base V room);
               mp1 = mp\<lparr>mp_room_id_to_channel :=
                          bt_insert (rm_room_id room) channel (mp_room_id_to_channel mp),
                        mp_channel_to_room_id :=
                          bt_insert channel (rm_room_id room) (mp_channel_to_room_id mp)\<rparr>;
               (members, mp2, c1) = create_or_get_nicks (rm_members room) mp1 c
           in case iuc_add_channel channel (unwrap_or [] (get_topic V room)) members c1 of
                Inl e \<Rightarrow> Inl e
              | Inr c2 \<Rightarrow> Inr ((channel, True), mp2, c2)))"

section \<open>The numbering loop\<close>

lemma first_free_spec:
  "\<exists>j. first_free m base idx = numbered base j \<and> idx \<le> j
     \<and> j \<le> idx + card (taken_from m base idx) \<and> \<not> bt_contains m (numbered base j)
     \<and> (\<forall>i. idx \<le> i \<and> i < j \<longrightarrow> bt_contains m (numbered base i))"
proof (induction m base idx rule: first_free.induct)
  case (1 m base idx)
  show ?case
  proof (cases "bt_contains m (numbered base idx)")
    case False
    then show ?thesis by (auto simp: first_free.simps [of m base idx] intro!: exI [of _ idx])
  next
    case True
    with "1.IH" [OF refl] obtain j where
      j: "first_free m base (idx + 1) = numbered base j" "idx + 1 \<le> j"
        "j \<le> idx + 1 + card (taken_from m base (idx + 1))" "\<not> bt_contains m (numbered base j)"
        "\<forall>i. idx + 1 \<le> i \<and> i < j \<longrightarrow> bt_contains m (numbered base i)"
      by auto
    have "\<forall>i. idx \<le> i \<and> i < j \<longrightarrow> bt_contains m (numbered base i)"
      using True j(5) by (metis Suc_eq_plus1 Suc_leI le_neq_implies_less)
    with True j card_taken_Suc [OF True] show ?thesis
      by (intro exI [of _ j]) (simp add: first_free.simps [of m base idx])
  qed
qed

lemma unique_name_fresh [simp]: "\<not> bt_contains m (unique_name m name)"
  using first_free_spec [of m name 1] by (auto simp: unique_name_def)

section \<open>Invariant\<close>

text \<open>
  The two maps of each pair are inverse to each other, and they know exactly the channels and the
  users of the IRC side.
\<close>

definition inverse_maps :: "(rstr, rstr) btree \<Rightarrow> (rstr, rstr) btree \<Rightarrow> bool" where
  "inverse_maps f g \<longleftrightarrow> (\<forall>x y. bt_get f x = Some y \<longleftrightarrow> bt_get g y = Some x)"

lemma inverse_maps_empty [simp]: "inverse_maps bt_empty bt_empty"
  by (simp add: inverse_maps_def)

lemma inverse_maps_insert:
  assumes fg: "inverse_maps f g" and x: "bt_get f x = None" and y: "bt_get g y = None"
  shows "inverse_maps (bt_insert x y f) (bt_insert y x g)"
  unfolding inverse_maps_def
proof (intro allI)
  fix a b
  have "bt_get f a = Some b \<longleftrightarrow> bt_get g b = Some a" for a b
    using fg by (simp add: inverse_maps_def)
  from this [of a b] this [of a y] this [of x b]
  show "bt_get (bt_insert x y f) a = Some b \<longleftrightarrow> bt_get (bt_insert y x g) b = Some a"
    by (simp add: x y)
qed

lemma inverse_maps_inj:
  "inverse_maps f g \<Longrightarrow> bt_get f x = Some z \<Longrightarrow> bt_get f y = Some z \<Longrightarrow> x = y"
  unfolding inverse_maps_def by (metis option.inject)

definition nicks_inv :: "mapping_store \<Rightarrow> irc_user_connection \<Rightarrow> bool" where
  "nicks_inv mp c \<longleftrightarrow> inverse_maps (mp_matrix_uid_to_nick mp) (mp_nick_matrix_uid mp)
     \<and> (\<forall>n. iuc_nick_exists c n \<longleftrightarrow> bt_get (mp_nick_matrix_uid mp) n \<noteq> None)"

definition channels_inv :: "mapping_store \<Rightarrow> irc_user_connection \<Rightarrow> bool" where
  "channels_inv mp c \<longleftrightarrow> inverse_maps (mp_room_id_to_channel mp) (mp_channel_to_room_id mp)
     \<and> (\<forall>n. iuc_channel_exists c n \<longleftrightarrow> bt_get (mp_channel_to_room_id mp) n \<noteq> None)"

definition mp_inv :: "mapping_store \<Rightarrow> irc_user_connection \<Rightarrow> bool" where
  "mp_inv mp c \<longleftrightarrow> iuc_inv c \<and> nicks_inv mp c \<and> channels_inv mp c"

lemmas mp_inv_defs = mp_inv_def nicks_inv_def channels_inv_def

text \<open>What the creation of users leaves alone.\<close>

definition only_users :: "mapping_store \<times> irc_user_connection \<Rightarrow> mapping_store \<times> irc_user_connection \<Rightarrow> bool" where
  "only_users s s' \<longleftrightarrow>
     mp_channel_to_room_id (fst s') = mp_channel_to_room_id (fst s)
     \<and> mp_room_id_to_channel (fst s') = mp_room_id_to_channel (fst s)
     \<and> (\<exists>sm. snd s' = (snd s)\<lparr>iuc_server_model := sm\<rparr>)
     \<and> (\<forall>n. iuc_channel_exists (snd s') n \<longleftrightarrow> iuc_channel_exists (snd s) n)
     \<and> (\<forall>u n. bt_get (mp_matrix_uid_to_nick (fst s)) u = Some n
          \<longrightarrow> bt_get (mp_matrix_uid_to_nick (fst s')) u = Some n)
     \<and> (\<forall>n. iuc_nick_exists (snd s) n \<longrightarrow> iuc_nick_exists (snd s') n)"

lemma only_users_refl [simp]: "only_users s s"
  by (auto simp: only_users_def intro!: exI [of _ "iuc_server_model (snd s)"])

lemma only_users_trans:
  assumes "only_users a b" "only_users b c" shows "only_users a c"
proof -
  obtain sm sm' where "snd b = (snd a)\<lparr>iuc_server_model := sm\<rparr>" "snd c = (snd b)\<lparr>iuc_server_model := sm'\<rparr>"
    using assms by (auto simp: only_users_def)
  then have "snd c = (snd a)\<lparr>iuc_server_model := sm'\<rparr>" by simp
  with assms show ?thesis unfolding only_users_def by metis
qed

lemma insert_nick_spec:
  assumes inv: "iuc_inv c" "nicks_inv mp c" and fresh: "\<not> iuc_nick_exists c nick"
    and new: "bt_get (mp_matrix_uid_to_nick mp) user_id = None"
    and ins: "insert_nick nick user_id mp c = (mp', c')"
  shows "iuc_inv c'" "nicks_inv mp' c'" "only_users (mp, c) (mp', c')"
    "bt_get (mp_matrix_uid_to_nick mp') user_id = Some nick"
proof -
  have eq: "mp' = mp\<lparr>mp_matrix_uid_to_nick := bt_insert user_id nick (mp_matrix_uid_to_nick mp),
      mp_nick_matrix_uid := bt_insert nick user_id (mp_nick_matrix_uid mp)\<rparr>"
    "c' = iuc_create_user nick user_id c"
    using ins by (auto simp: insert_nick_def)
  show "iuc_inv c'" unfolding eq using inv(1) fresh by (rule iuc_dir.create_invar)
  have "bt_get (mp_nick_matrix_uid mp) nick = None"
    using inv(2) fresh by (simp add: nicks_inv_def)
  then show "nicks_inv mp' c'"
    using inv(2) new by (auto simp: nicks_inv_def eq iuc_dir.nicks_after_create inverse_maps_insert)
  show "bt_get (mp_matrix_uid_to_nick mp') user_id = Some nick" by (simp add: eq)
  show "only_users (mp, c) (mp', c')"
    using new
    by (auto simp: only_users_def eq iuc_dir.nicks_after_create iuc_dir.channels_after_create)
      (auto simp: iuc_create_user_def)
qed

lemma create_or_get_nick_spec:
  assumes inv: "iuc_inv c" "nicks_inv mp c"
    and get: "create_or_get_nick_from_matrix user_id display_name mp c = (nick, mp', c')"
  shows "iuc_inv c' \<and> nicks_inv mp' c' \<and> only_users (mp, c) (mp', c')
    \<and> bt_get (mp_matrix_uid_to_nick mp') user_id = Some nick"
proof (cases "bt_get (mp_matrix_uid_to_nick mp) user_id")
  case (Some n)
  with assms show ?thesis by (auto simp: create_or_get_nick_from_matrix_def)
next
  case None
  let ?n = "unique_name (sm_users (iuc_server_model c)) (nick_base user_id display_name)"
  have ins: "insert_nick ?n user_id mp c = (mp', c')" and n: "nick = ?n"
    using get None by (auto simp: create_or_get_nick_from_matrix_def Let_def split: prod.splits)
  have "\<not> iuc_nick_exists c ?n" by (simp add: iuc_nick_exists_def sm_nick_exists_def)
  from insert_nick_spec [OF inv this None ins] n show ?thesis by simp
qed

lemma nicks_inv_exists:
  "nicks_inv mp c \<Longrightarrow> bt_get (mp_matrix_uid_to_nick mp) u = Some n \<Longrightarrow> iuc_nick_exists c n"
  unfolding nicks_inv_def inverse_maps_def by (metis option.distinct(1))

lemma create_or_get_nicks_spec:
  assumes "iuc_inv c" "nicks_inv mp c" "create_or_get_nicks ms mp c = (nicks, mp', c')"
  shows "iuc_inv c' \<and> nicks_inv mp' c' \<and> only_users (mp, c) (mp', c')
    \<and> list_all2 (\<lambda>(_, m) (n, op). bt_get (mp_matrix_uid_to_nick mp') (mb_user_id m) = Some n
        \<and> op = mb_moderator m) ms nicks"
  using assms
proof (induction ms mp c arbitrary: nicks mp' c' rule: create_or_get_nicks.induct)
  case (2 k m ms mp c)
  obtain n mp1 c1 where 1: "create_or_get_nick_from_matrix (mb_user_id m) (mb_display_name m) mp c = (n, mp1, c1)"
    by (metis prod_cases3)
  obtain ns where 2: "create_or_get_nicks ms mp1 c1 = (ns, mp', c')" "nicks = (n, mb_moderator m) # ns"
    using "2.prems"(3) 1 by (auto split: prod.splits)
  note s = create_or_get_nick_spec [OF "2.prems"(1,2) 1]
  with "2.IH" [OF 1 [symmetric] refl refl _ _ 2(1)] have
    r: "iuc_inv c'" "nicks_inv mp' c'" "only_users (mp1, c1) (mp', c')"
      "list_all2 (\<lambda>(_, m) (n, op). bt_get (mp_matrix_uid_to_nick mp') (mb_user_id m) = Some n
        \<and> op = mb_moderator m) ms ns" by auto
  have "bt_get (mp_matrix_uid_to_nick mp') (mb_user_id m) = Some n"
    using s r(3) by (auto simp: only_users_def)
  with r s 2(2) show ?case by (auto intro: only_users_trans)
qed simp

section \<open>Opening a channel for a room\<close>

definition same_identity :: "irc_user_connection \<Rightarrow> irc_user_connection \<Rightarrow> bool" where
  "same_identity c c' \<longleftrightarrow> iuc_nick c' = iuc_nick c \<and> iuc_server_name c' = iuc_server_name c
     \<and> iuc_user_prefix c' = iuc_user_prefix c \<and> iuc_user c' = iuc_user c \<and> iuc_password c' = iuc_password c
     \<and> iuc_real_name c' = iuc_real_name c \<and> keeps_reader c c'"

definition keeps_names :: "mapping_store \<Rightarrow> mapping_store \<Rightarrow> bool" where
  "keeps_names mp mp' \<longleftrightarrow>
     (\<forall>r ch. room_id_to_channel mp r = Some ch \<longrightarrow> room_id_to_channel mp' r = Some ch)
     \<and> (\<forall>u n. get_nick_from_matrix mp u = Some n \<longrightarrow> get_nick_from_matrix mp' u = Some n)"

lemma same_identity_refl [simp]: "same_identity c c"
  by (simp add: same_identity_def)

lemma same_identity_trans: "same_identity a b \<Longrightarrow> same_identity b c \<Longrightarrow> same_identity a c"
  by (auto simp: same_identity_def intro: keeps_reader_trans)

lemma same_identity_emits: "iuc_emits c c' ls \<Longrightarrow> same_identity c c'"
  by (simp add: same_identity_def iuc_emits_fields iuc_emits_reader)

lemma keeps_names_refl [simp]: "keeps_names mp mp"
  by (simp add: keeps_names_def)

lemma keeps_names_trans: "keeps_names a b \<Longrightarrow> keeps_names b c \<Longrightarrow> keeps_names a c"
  by (simp add: keeps_names_def)

lemma join_lines_cong: "same_identity c c' \<Longrightarrow> join_lines c' = join_lines c"
  by (simp add: same_identity_def join_lines_def fun_eq_iff)

text \<open>The members of the room under their nicks.\<close>

definition named_members :: "mapping_store \<Rightarrow> (rstr \<times> member) list \<Rightarrow> (rstr \<times> bool) list \<Rightarrow> bool" where
  "named_members mp ms nicks \<longleftrightarrow>
     list_all2 (\<lambda>(_, m) (n, op). get_nick_from_matrix mp (mb_user_id m) = Some n \<and> op = mb_moderator m)
       ms nicks"

definition opened ::
  "'j value_ops \<Rightarrow> 'j matrix_room \<Rightarrow> mapping_store \<Rightarrow> irc_user_connection \<Rightarrow>
     rstr \<Rightarrow> mapping_store \<Rightarrow> irc_user_connection \<Rightarrow> bool" where
  "opened V room mp c channel mp' c' \<longleftrightarrow>
     channel = unique_name (sm_channels (iuc_server_model c)) (channel_base V room)
     \<and> (\<exists>nicks. named_members mp' (rm_members room) nicks
          \<and> queued (iuc_conn c') = queued (iuc_conn c) @ concat (map line_bytes
              (join_lines c (make_channel channel (unwrap_or [] (get_topic V room)) nicks))))"

lemma create_or_get_channel_spec:
  assumes inv: "mp_inv mp c"
  shows "\<exists>channel new mp' c'. create_or_get_channel_name_from_matrix V room mp c = Inr ((channel, new), mp', c')
    \<and> mp_inv mp' c' \<and> room_id_to_channel mp' (rm_room_id room) = Some channel
    \<and> keeps_names mp mp' \<and> same_identity c c'
    \<and> (if new then room_id_to_channel mp (rm_room_id room) = None \<and> opened V room mp c channel mp' c'
       else mp' = mp \<and> c' = c)"
proof (cases "bt_get (mp_room_id_to_channel mp) (rm_room_id room)")
  case (Some channel)
  with inv show ?thesis
    by (auto simp: create_or_get_channel_name_from_matrix_def room_id_to_channel_def intro!: exI [of _ False])
next
  case None
  let ?r = "rm_room_id room"
  define ch where "ch = unique_name (sm_channels (iuc_server_model c)) (channel_base V room)"
  define mp1 where "mp1 = mp\<lparr>mp_room_id_to_channel := bt_insert ?r ch (mp_room_id_to_channel mp),
      mp_channel_to_room_id := bt_insert ch ?r (mp_channel_to_room_id mp)\<rparr>"
  obtain nicks mp2 c1 where n: "create_or_get_nicks (rm_members room) mp1 c = (nicks, mp2, c1)"
    by (metis prod_cases3)
  have iuc: "iuc_inv c" and nv: "nicks_inv mp c" and cv: "channels_inv mp c"
    using inv by (simp_all add: mp_inv_def)
  have fresh: "\<not> iuc_channel_exists c ch"
    by (simp add: ch_def iuc_channel_exists_def sm_channel_exists_def)
  have nv1: "nicks_inv mp1 c" using nv by (simp add: nicks_inv_def mp1_def)
  note s = create_or_get_nicks_spec [OF iuc nv1 n]
  then have ou: "only_users (mp1, c) (mp2, c1)" and nv2: "nicks_inv mp2 c1" and iuc1: "iuc_inv c1" by simp_all
  have named: "named_members mp2 (rm_members room) nicks"
    using s by (simp add: named_members_def get_nick_from_matrix_def)
  have "iuc_nick_exists c1 m" if "(m, b) \<in> set nicks" for m b
    using s that nicks_inv_exists [OF nv2] by (fastforce simp: list_all2_conv_all_nth in_set_conv_nth)
  then have known: "\<forall>(m, _) \<in> set nicks. iuc_nick_exists c1 m" by auto
  have fresh1: "\<not> iuc_channel_exists c1 ch" using ou fresh by (simp add: only_users_def)
  let ?topic = "unwrap_or [] (get_topic V room)" and ?ch = "make_channel ch"
  obtain c2 sm where add: "iuc_add_channel ch ?topic nicks c1 = Inr c2" "iuc_inv c2"
    and e: "iuc_emits (c1\<lparr>iuc_server_model := sm\<rparr>) c2 (join_lines c1 (?ch ?topic nicks))"
    using iuc_add_channel_spec [OF iuc1 fresh1 known, of ?topic] by blast
  obtain sm0 where c1: "c1 = c\<lparr>iuc_server_model := sm0\<rparr>" using ou by (auto simp: only_users_def)
  have si1: "same_identity c c1" by (simp add: c1 same_identity_def keeps_reader_def)
  have "same_identity c (c1\<lparr>iuc_server_model := sm\<rparr>)"
    by (simp add: c1 same_identity_def keeps_reader_def)
  then have si: "same_identity c c2" by (rule same_identity_trans [OF _ same_identity_emits [OF e]])
  have q: "queued (iuc_conn c2) = queued (iuc_conn c)
      @ concat (map line_bytes (join_lines c (?ch ?topic nicks)))"
    using iuc_emits_queued [OF e] join_lines_cong [OF si1] by (simp add: c1)
  have fr: "bt_get (mp_channel_to_room_id mp) ch = None"
    using fresh cv by (simp add: channels_inv_def)
  have maps2: "mp_channel_to_room_id mp2 = bt_insert ch ?r (mp_channel_to_room_id mp)"
    "mp_room_id_to_channel mp2 = bt_insert ?r ch (mp_room_id_to_channel mp)"
    using ou by (simp_all add: only_users_def mp1_def)
  have ex: "iuc_channel_exists c2 d \<longleftrightarrow> d = ch \<or> iuc_channel_exists c d" for d
    using iuc_dir.names_after_add(1) [OF add(1)] ou by (simp add: only_users_def)
  have "channels_inv mp2 c2"
    using cv None fr by (auto simp: channels_inv_def maps2 ex inverse_maps_insert)
  moreover have "nicks_inv mp2 c2"
    using nv2 iuc_dir.names_after_add(2) [OF add(1)] by (simp add: nicks_inv_def)
  moreover have "keeps_names mp mp2"
    using None ou by (auto simp: keeps_names_def room_id_to_channel_def get_nick_from_matrix_def maps2
        only_users_def mp1_def)
  moreover have "room_id_to_channel mp2 ?r = Some ch"
    by (simp add: room_id_to_channel_def maps2)
  moreover have "opened V room mp c ch mp2 c2"
    using named q by (auto simp: opened_def ch_def)
  moreover have "create_or_get_channel_name_from_matrix V room mp c = Inr ((ch, True), mp2, c2)"
    using None n add(1)
    by (simp add: create_or_get_channel_name_from_matrix_def Let_def flip: ch_def mp1_def)
  ultimately show ?thesis
    using add(2) si None by (auto simp: mp_inv_def room_id_to_channel_def)
qed

end
