(* ===== verification/Http_Parser.thy ===== *)
theory Http_Parser
  imports Utf8 Io_Env
begin

text \<open>
  \<open>HttpParser\<close> of \<open>src/http.rs\<close>: cutting the bytes of a connection into responses. The syntax of
  header blocks and of chunk sizes belongs to the crate \<open>httparse\<close>; the two parse functions are a
  parameter (\<open>http_syntax\<close>). \<open>netbuf::Buf\<close> is used as a queue of bytes and is modelled by its
  contents; how much a read offers is the crate's choice, which the scripts of \<open>Io_Env\<close> range over.
  Sums of \<open>usize\<close> panic on overflow, as they do in a build with overflow checks.
\<close>

section \<open>Data\<close>

datatype 'a parsed = Complete 'a | Partial | Malformed

record http_syntax =
  hs_response :: "u8 list \<Rightarrow> (nat \<times> 16 word option \<times> (rstr \<times> u8 list) list) parsed"
  hs_chunk_size :: "u8 list \<Rightarrow> (nat \<times> nat) parsed"

record response =
  rp_code :: "16 word"
  rp_content_type :: "rstr option"
  rp_data :: "u8 list"

definition response_default :: response where
  "response_default = \<lparr>rp_code = 0, rp_content_type = None, rp_data = []\<rparr>"

datatype http_stream_state = Headers | RawData "nat option" | ChunkedData

record http_parser =
  hp_response_buffer :: "u8 list"
  hp_curr_state :: http_stream_state
  hp_partial_response :: response

definition http_parser_new :: http_parser where
  "http_parser_new =
     \<lparr>hp_response_buffer = [], hp_curr_state = Headers, hp_partial_response = response_default\<rparr>"

section \<open>Headers\<close>

text \<open>
  \<open>str::to_lowercase\<close>, for comparison with ASCII text: besides the capital letters, two characters
  have an ASCII letter in their lower case, the dotted capital I and the Kelvin sign. The lower case
  of every other character has no ASCII character in it, and neither has the character itself.
\<close>

definition to_lowercase :: "rstr \<Rightarrow> rstr" where
  "to_lowercase s = concat (map (\<lambda>c.
     if 65 \<le> c \<and> c \<le> 90 then [c + 32]
     else if c = 0x130 then [105, 0x307]
     else if c = 0x212A then [107] else [c]) s)"

definition usize_max :: nat where
  "usize_max = 2 ^ 64 - 1"

definition read_header :: "rstr \<times> u8 list \<Rightarrow> http_parser \<Rightarrow> http_parser" where
  "read_header header p =
     (let name = to_lowercase (fst header); value = snd header in
      if name = lit ''content-type'' then
        p\<lparr>hp_partial_response := (hp_partial_response p)\<lparr>rp_content_type := from_utf8 value\<rparr>\<rparr>
      else if name = lit ''content-length'' then
        (case from_utf8 value of
           None \<Rightarrow> p
         | Some s \<Rightarrow>
             (case parse_uint usize_max s of
                None \<Rightarrow> p
              | Some len \<Rightarrow> p\<lparr>hp_curr_state := RawData (Some len)\<rparr>))
      else if name = lit ''transfer-encoding'' then
        (case from_utf8 value of
           None \<Rightarrow> p
         | Some s \<Rightarrow>
             if starts_with (lit ''chunked'') (to_lowercase s)
             then p\<lparr>hp_curr_state := ChunkedData\<rparr> else p)
      else p)"

section \<open>The loop\<close>

text \<open>\<open>read_into_vec\<close> and the check for end of file that follows three of its four calls.\<close>

definition read_into_vec :: "u8 list \<Rightarrow> io_env \<Rightarrow> (exn + nat async) \<times> u8 list \<times> io_env" where
  "read_into_vec buf e =
     (case env_read (length (env_data e)) e of
        (Inr bs, e') \<Rightarrow> (Inr (Ready (length bs)), buf @ bs, e')
      | (Inl x, e') \<Rightarrow>
          if err_kind x = WouldBlock then (Inr NotReady, buf, e') else (Inl (IoErr x), buf, e'))"

definition fill :: "string \<Rightarrow> http_parser \<Rightarrow> io_env \<Rightarrow> (exn + unit async) \<times> http_parser \<times> io_env" where
  "fill msg p e =
     (case read_into_vec (hp_response_buffer p) e of
        (Inl x, buf, e') \<Rightarrow> (Inl x, p\<lparr>hp_response_buffer := buf\<rparr>, e')
      | (Inr NotReady, buf, e') \<Rightarrow> (Inr NotReady, p\<lparr>hp_response_buffer := buf\<rparr>, e')
      | (Inr (Ready num_bytes), buf, e') \<Rightarrow>
          (if num_bytes = 0 then Inl (IoErr (IoError UnexpectedEof (lit msg))) else Inr (Ready ()),
           p\<lparr>hp_response_buffer := buf\<rparr>, e'))"

definition parser_size :: "http_parser \<Rightarrow> io_env \<Rightarrow> nat" where
  "parser_size p e = length (hp_response_buffer p) + env_size e"

definition finish_response :: "http_parser \<Rightarrow> (exn + response async) \<times> http_parser" where
  "finish_response p =
     (Inr (Ready (hp_partial_response p)),
      p\<lparr>hp_curr_state := Headers, hp_partial_response := response_default\<rparr>)"

definition add_data :: "u8 list \<Rightarrow> http_parser \<Rightarrow> http_parser" where
  "add_data bs p =
     p\<lparr>hp_partial_response := (hp_partial_response p)\<lparr>rp_data := rp_data (hp_partial_response p) @ bs\<rparr>\<rparr>"

definition consume :: "nat \<Rightarrow> http_parser \<Rightarrow> http_parser" where
  "consume n p = p\<lparr>hp_response_buffer := drop n (hp_response_buffer p)\<rparr>"

definition start_response :: "16 word \<Rightarrow> (rstr \<times> u8 list) list \<Rightarrow> http_parser \<Rightarrow> http_parser" where
  "start_response code headers p =
     fold read_header headers
       (p\<lparr>hp_partial_response := (hp_partial_response p)\<lparr>rp_code := code\<rparr>,
          hp_curr_state := RawData None\<rparr>)"

text \<open>Reading \<open>bs\<close> and doing nothing else to the connection.\<close>

definition consumed :: "io_env \<Rightarrow> u8 list \<Rightarrow> io_env \<Rightarrow> bool" where
  "consumed e bs e' \<longleftrightarrow> env_data e = bs @ env_data e' \<and> sent e' = sent e \<and> wr e' = wr e
     \<and> set (rd e') \<subseteq> set (rd e)"

lemma consumed_refl [simp]: "consumed e [] e"
  by (simp add: consumed_def)

lemma consumed_trans: "consumed a xs b \<Longrightarrow> consumed b ys c \<Longrightarrow> consumed a (xs @ ys) c"
  by (auto simp: consumed_def)

lemma read_all_entries:
  "env_read (length (env_data e)) e = (q, e') \<Longrightarrow>
     set (rd e') \<subseteq> set (rd e) \<and> (q = Inr [] \<longrightarrow> Inr [] \<in> set (rd e))"
  by (auto simp: env_read_def env_data_def split: list.splits sum.splits if_splits)

lemma read_into_vec_cases:
  assumes "read_into_vec buf e = (r, buf', e')"
  shows "(\<exists>bs. buf' = buf @ bs \<and> consumed e bs e'
      \<and> (r = Inr (Ready (length bs)) \<or> bs = [] \<and> (r = Inr NotReady \<or> (\<exists>x. r = Inl (IoErr x)))))"
    "r = Inr (Ready n) \<Longrightarrow> n \<noteq> 0 \<Longrightarrow> length buf' + env_size e' < length buf + env_size e"
proof -
  obtain q e1 where q: "env_read (length (env_data e)) e = (q, e1)" by fastforce
  have *: "(\<exists>bs. buf' = buf @ bs \<and> consumed e bs e'
      \<and> (r = Inr (Ready (length bs)) \<or> bs = [] \<and> (r = Inr NotReady \<or> (\<exists>x. r = Inl (IoErr x)))))
    \<and> (\<forall>n. r = Inr (Ready n) \<longrightarrow> n \<noteq> 0 \<longrightarrow> length buf' + env_size e' < length buf + env_size e)"
  proof (cases q)
    case (Inl x)
    with assms q env_read_InlD [OF q [unfolded Inl]] read_all_entries [OF q] show ?thesis
      by (auto simp: read_into_vec_def consumed_def split: if_splits)
  next
    case (Inr bs)
    note d = env_read_InrD [OF q [unfolded Inr]]
    have "bs \<noteq> [] \<Longrightarrow> env_size e1 + length bs < env_size e"
      by (rule d(6)) (use d(1) in auto)
    with assms q Inr d(1,3,5) read_all_entries [OF q] show ?thesis
      by (auto simp: read_into_vec_def consumed_def)
  qed
  then show "(\<exists>bs. buf' = buf @ bs \<and> consumed e bs e'
      \<and> (r = Inr (Ready (length bs)) \<or> bs = [] \<and> (r = Inr NotReady \<or> (\<exists>x. r = Inl (IoErr x)))))" ..
  from * show "r = Inr (Ready n) \<Longrightarrow> n \<noteq> 0 \<Longrightarrow> length buf' + env_size e' < length buf + env_size e"
    by blast
qed

lemma read_into_vec_eof: "read_into_vec buf e = (Inr (Ready 0), buf', e') \<Longrightarrow> Inr [] \<in> set (rd e)"
  using read_all_entries [of e] by (auto simp: read_into_vec_def split: prod.splits sum.splits if_splits)

lemma fill_cases:
  assumes "fill msg p e = (r, p', e')"
  shows "\<exists>bs. p' = p\<lparr>hp_response_buffer := hp_response_buffer p @ bs\<rparr> \<and> consumed e bs e'
      \<and> (r = Inr (Ready ()) \<and> bs \<noteq> [] \<and> parser_size p' e' < parser_size p e
         \<or> bs = [] \<and> (r = Inr NotReady \<or> (\<exists>x. r = Inl (IoErr x))))"
proof -
  obtain q buf e1 where q: "read_into_vec (hp_response_buffer p) e = (q, buf, e1)"
    by (metis prod_cases3)
  from read_into_vec_cases [OF q] assms q show ?thesis
    by (auto simp: fill_def parser_size_def split: sum.splits async.splits if_splits)
qed

lemma fill_decreases:
  "(Inr (Ready u), p', e') = fill msg p e \<Longrightarrow>
     parser_size p' e' < parser_size p e \<and> hp_curr_state p' = hp_curr_state p"
  using fill_cases [of msg p e "Inr (Ready u)" p' e'] by auto

text \<open>For termination: only a header block leads to another state, and every other pass uses up input.\<close>

lemma read_header_buffer [simp]: "hp_response_buffer (read_header h p) = hp_response_buffer p"
  by (simp add: read_header_def Let_def split: option.splits)

lemma read_header_not_headers:
  "hp_curr_state p \<noteq> Headers \<Longrightarrow> hp_curr_state (read_header h p) \<noteq> Headers"
  by (simp add: read_header_def Let_def split: option.splits)

lemma read_headers_not_headers:
  "hp_curr_state p \<noteq> Headers \<Longrightarrow> hp_curr_state (fold read_header hs p) \<noteq> Headers"
  by (induction hs arbitrary: p) (simp_all add: read_header_not_headers)

lemma start_response_not_headers [simp]: "hp_curr_state (start_response code hs p) \<noteq> Headers"
  unfolding start_response_def by (rule read_headers_not_headers) simp

lemma read_headers_buffer: "hp_response_buffer (fold read_header hs p) = hp_response_buffer p"
  by (induction hs arbitrary: p) simp_all

lemma start_response_buffer [simp]:
  "hp_response_buffer (start_response code hs p) = hp_response_buffer p"
  by (simp add: start_response_def read_headers_buffer)

lemma consume_simps [simp]:
  "hp_curr_state (consume n p) = hp_curr_state p"
  "hp_response_buffer (consume n p) = drop n (hp_response_buffer p)"
  "hp_partial_response (consume n p) = hp_partial_response p"
  by (simp_all add: consume_def)

lemma add_data_simps [simp]:
  "hp_curr_state (add_data bs p) = hp_curr_state p"
  "hp_response_buffer (add_data bs p) = hp_response_buffer p"
  by (simp_all add: add_data_def)

lemma first_fill_decreases:
  "(Inr (Ready u), p', e') = (if hp_response_buffer p = [] then fill msg p e else (Inr (Ready ()), p, e))
     \<Longrightarrow> parser_size p' e' \<le> parser_size p e \<and> hp_curr_state p' = hp_curr_state p"
  by (auto split: if_splits dest: fill_decreases)

lemma parser_size_partial [simp]:
  "parser_size (p\<lparr>hp_partial_response := r\<rparr>) e = parser_size p e"
  by (simp add: parser_size_def)

lemma read_decreases:
  "(Inr (Ready n), buf, e') = read_into_vec (hp_response_buffer p) e \<Longrightarrow> 0 < n \<Longrightarrow>
     parser_size (p\<lparr>hp_response_buffer := buf\<rparr>) e' < parser_size p e"
  using read_into_vec_cases(2) [of "hp_response_buffer p" e "Inr (Ready n)" buf e' n]
  by (simp add: parser_size_def)

lemma consume_decreases:
  "0 < n \<Longrightarrow> n \<le> length (hp_response_buffer p) \<Longrightarrow>
     parser_size (consume n (add_data bs p)) e < parser_size p e"
  by (simp add: parser_size_def)

function poll_for_response ::
  "http_syntax \<Rightarrow> http_parser \<Rightarrow> io_env \<Rightarrow> (exn + response async) \<times> http_parser \<times> io_env" where
  "poll_for_response H p e =
     (case hp_curr_state p of
        Headers \<Rightarrow>
          (case (if hp_response_buffer p = []
                 then fill ''EOF while waiting for new response'' p e
                 else (Inr (Ready ()), p, e)) of
             (Inl x, p1, e1) \<Rightarrow> (Inl x, p1, e1)
           | (Inr NotReady, p1, e1) \<Rightarrow> (Inr NotReady, p1, e1)
           | (Inr (Ready _), p1, e1) \<Rightarrow>
               (let p2 = p1\<lparr>hp_partial_response := response_default\<rparr> in
                case hs_response H (hp_response_buffer p2) of
                  Complete (bytes_read, code_opt, headers) \<Rightarrow>
                    (case code_opt of
                       None \<Rightarrow> (Inl (Panic ''expected response code''), p2, e1)
                     | Some code \<Rightarrow>
                         poll_for_response H (consume bytes_read (start_response code headers p2)) e1)
                | Malformed \<Rightarrow>
                    (Inl (IoErr (IoError InvalidData (lit ''HTTP parse error''))), p2, e1)
                | Partial \<Rightarrow>
                    (case fill ''Unexpected EOF parsing headers'' p2 e1 of
                       (Inl x, p3, e2) \<Rightarrow> (Inl x, p3, e2)
                     | (Inr NotReady, p3, e2) \<Rightarrow> (Inr NotReady, p3, e2)
                     | (Inr (Ready _), p3, e2) \<Rightarrow> poll_for_response H p3 e2)))
      | RawData (Some len) \<Rightarrow>
          if len \<le> length (hp_response_buffer p) then
            (let p1 = p\<lparr>hp_partial_response := (hp_partial_response p)
                   \<lparr>rp_data := take len (hp_response_buffer p)\<rparr>\<rparr>;
                 (r, p2) = finish_response (consume len p1)
             in (r, p2, e))
          else
            (case fill ''Unexpected EOF parsing body'' p e of
               (Inl x, p1, e1) \<Rightarrow> (Inl x, p1, e1)
             | (Inr NotReady, p1, e1) \<Rightarrow> (Inr NotReady, p1, e1)
             | (Inr (Ready _), p1, e1) \<Rightarrow> poll_for_response H p1 e1)
      | RawData None \<Rightarrow>
          (case read_into_vec (hp_response_buffer p) e of
             (Inl x, buf, e1) \<Rightarrow> (Inl x, p\<lparr>hp_response_buffer := buf\<rparr>, e1)
           | (Inr NotReady, buf, e1) \<Rightarrow> (Inr NotReady, p\<lparr>hp_response_buffer := buf\<rparr>, e1)
           | (Inr (Ready num_bytes), buf, e1) \<Rightarrow>
               if num_bytes = 0 then
                 (let (r, p2) = finish_response (p\<lparr>hp_response_buffer := buf\<rparr>) in (r, p2, e1))
               else poll_for_response H (p\<lparr>hp_response_buffer := buf\<rparr>) e1)
      | ChunkedData \<Rightarrow>
          (let more =
             (case fill ''Unexpected EOF parsing chunked body'' p e of
                (Inl x, p1, e1) \<Rightarrow> (Inl x, p1, e1)
              | (Inr NotReady, p1, e1) \<Rightarrow> (Inr NotReady, p1, e1)
              | (Inr (Ready _), p1, e1) \<Rightarrow> poll_for_response H p1 e1)
           in case hs_chunk_size H (hp_response_buffer p) of
                Complete (bytes_read, chunk_len) \<Rightarrow>
                  if chunk_len = 0 then
                    if bytes_read + 2 \<le> length (hp_response_buffer p) then
                      (let (r, p2) = finish_response (consume (bytes_read + 2) p) in (r, p2, e))
                    else more
                  else if usize_max < bytes_read + chunk_len + 2 then
                    (Inl (Panic ''attempt to add with overflow''), p, e)
                  else if bytes_read + chunk_len + 2 \<le> length (hp_response_buffer p) then
                    poll_for_response H
                      (consume (bytes_read + chunk_len + 2)
                        (add_data (take chunk_len (drop bytes_read (hp_response_buffer p))) p)) e
                  else more
              | Partial \<Rightarrow> more
              | Malformed \<Rightarrow>
                  (Inl (IoErr (IoError InvalidData (lit ''HTTP invalid chunked body''))), p, e)))"
  by pat_completeness auto
termination
  by (relation "measures [\<lambda>(H, p, e). if hp_curr_state p = Headers then 1 else 0, \<lambda>(H, p, e). parser_size p e]")
    (auto split: if_splits dest!: fill_decreases intro: read_decreases consume_decreases)

declare poll_for_response.simps [simp del]

section \<open>The stream of responses\<close>

text \<open>
  What the bytes of a connection stand for, without buffers, reads or states of a loop: the first
  response and the bytes behind it, if they are all there. A response without a length goes on to the
  end of the stream: then it is the response so far, without a body, and the bytes of the body.
\<close>

datatype decoded = Done response "u8 list" | More | Bad | is_until_eof: Until_eof response "u8 list" | Crash

function dechunk :: "http_syntax \<Rightarrow> response \<Rightarrow> u8 list \<Rightarrow> decoded" where
  "dechunk H r bs =
     (case hs_chunk_size H bs of
        Malformed \<Rightarrow> Bad
      | Partial \<Rightarrow> More
      | Complete (n, len) \<Rightarrow>
          if len = 0 then (if n + 2 \<le> length bs then Done r (drop (n + 2) bs) else More)
          else if usize_max < n + len + 2 then Crash
          else if n + len + 2 \<le> length bs then
            dechunk H (r\<lparr>rp_data := rp_data r @ take len (drop n bs)\<rparr>) (drop (n + len + 2) bs)
          else More)"
  by pat_completeness auto
termination
  by (relation "measure (\<lambda>(H, r, bs). length bs)") auto

declare dechunk.simps [simp del]

definition decode_body :: "http_syntax \<Rightarrow> http_stream_state \<Rightarrow> response \<Rightarrow> u8 list \<Rightarrow> decoded" where
  "decode_body H st r bs =
     (case st of
        RawData (Some len) \<Rightarrow>
          if len \<le> length bs then Done (r\<lparr>rp_data := take len bs\<rparr>) (drop len bs) else More
      | RawData None \<Rightarrow> Until_eof r bs
      | ChunkedData \<Rightarrow> dechunk H r bs
      | Headers \<Rightarrow> More)"

definition decode_head :: "http_syntax \<Rightarrow> u8 list \<Rightarrow> decoded" where
  "decode_head H bs =
     (if bs = [] then More
      else
        (case hs_response H bs of
           Malformed \<Rightarrow> Bad
         | Partial \<Rightarrow> More
         | Complete (n, code_opt, headers) \<Rightarrow>
             (case code_opt of
                None \<Rightarrow> Crash
              | Some code \<Rightarrow>
                  (let p = start_response code headers http_parser_new
                   in decode_body H (hp_curr_state p) (hp_partial_response p) (drop n bs)))))"

text \<open>The same from the middle of a response, for a parser and the bytes that follow its buffer.\<close>

definition pdecode :: "http_syntax \<Rightarrow> http_parser \<Rightarrow> u8 list \<Rightarrow> decoded" where
  "pdecode H p xs =
     (if hp_curr_state p = Headers then decode_head H (hp_response_buffer p @ xs)
      else decode_body H (hp_curr_state p) (hp_partial_response p) (hp_response_buffer p @ xs))"

text \<open>
  The documented behaviour of the two parse functions: they read from the left, so a result other
  than \<open>Partial\<close> does not change when more bytes follow, a complete parse has a length within the
  input, and a complete response line has a code.
\<close>

definition left_to_right :: "(u8 list \<Rightarrow> (nat \<times> 'a) parsed) \<Rightarrow> bool" where
  "left_to_right f \<longleftrightarrow>
     (\<forall>bs xs n a. f bs = Complete (n, a) \<longrightarrow> n \<le> length bs \<and> f (bs @ xs) = Complete (n, a))
     \<and> (\<forall>bs xs. f bs = Malformed \<longrightarrow> f (bs @ xs) = Malformed)"

definition http_syntax_ok :: "http_syntax \<Rightarrow> bool" where
  "http_syntax_ok H \<longleftrightarrow> left_to_right (hs_response H) \<and> left_to_right (hs_chunk_size H)
     \<and> (\<forall>bs n hs. hs_response H bs \<noteq> Complete (n, None, hs))"

lemma left_to_rightD:
  assumes "left_to_right f"
  shows "f bs = Complete (n, a) \<Longrightarrow> n \<le> length bs" "f bs = Complete (n, a) \<Longrightarrow> f (bs @ xs) = Complete (n, a)"
    "f bs = Malformed \<Longrightarrow> f (bs @ xs) = Malformed"
  using assms by (simp_all add: left_to_right_def)

lemma read_header_buffer_update:
  "read_header h (p\<lparr>hp_response_buffer := b\<rparr>) = (read_header h p)\<lparr>hp_response_buffer := b\<rparr>"
  by (simp add: read_header_def Let_def split: option.splits)

lemma read_headers_buffer_update:
  "fold read_header hs (p\<lparr>hp_response_buffer := b\<rparr>) = (fold read_header hs p)\<lparr>hp_response_buffer := b\<rparr>"
  by (induction hs arbitrary: p) (simp_all add: read_header_buffer_update)

text \<open>The state a header block leads to does not depend on what was in the parser before it.\<close>

lemma start_response_parts:
  assumes "hp_partial_response p = response_default"
  shows "hp_curr_state (start_response code hs p) = hp_curr_state (start_response code hs http_parser_new)"
    "hp_partial_response (start_response code hs p)
       = hp_partial_response (start_response code hs http_parser_new)"
proof -
  have "start_response code hs p =
      start_response code hs (http_parser_new\<lparr>hp_response_buffer := hp_response_buffer p\<rparr>)"
    using assms by (cases p) (simp add: start_response_def http_parser_new_def)
  also have "\<dots> = (start_response code hs http_parser_new)\<lparr>hp_response_buffer := hp_response_buffer p\<rparr>"
    using read_headers_buffer_update [of hs "hp_response_buffer p" "http_parser_new
        \<lparr>hp_partial_response := (hp_partial_response http_parser_new)\<lparr>rp_code := code\<rparr>,
         hp_curr_state := RawData None\<rparr>"]
    unfolding start_response_def http_parser_new_def by simp
  finally have "start_response code hs p = \<dots>" .
  then show "hp_curr_state (start_response code hs p) = hp_curr_state (start_response code hs http_parser_new)"
    "hp_partial_response (start_response code hs p)
       = hp_partial_response (start_response code hs http_parser_new)"
    by simp_all
qed

lemma pdecode_fill:
  "pdecode H (p\<lparr>hp_response_buffer := hp_response_buffer p @ bs\<rparr>) xs = pdecode H p (bs @ xs)"
  by (simp add: pdecode_def)

lemma pdecode_partial_reset:
  "hp_curr_state p = Headers \<Longrightarrow> pdecode H (p\<lparr>hp_partial_response := r\<rparr>) xs = pdecode H p xs"
  by (simp add: pdecode_def)

lemma pdecode_head:
  assumes "http_syntax_ok H" "hp_curr_state p = Headers" "hp_partial_response p = response_default"
    "hp_response_buffer p \<noteq> []" "hs_response H (hp_response_buffer p) = Complete (n, Some code, hs)"
  shows "pdecode H p xs = pdecode H (consume n (start_response code hs p)) xs"
proof -
  have "n \<le> length (hp_response_buffer p)"
    "hs_response H (hp_response_buffer p @ xs) = Complete (n, Some code, hs)"
    using assms(1,5) left_to_rightD [of "hs_response H"] by (auto simp: http_syntax_ok_def)
  then show ?thesis
    using assms(2-4) by (simp add: pdecode_def decode_head_def start_response_parts Let_def)
qed

lemma pdecode_chunk:
  assumes "http_syntax_ok H" "hp_curr_state p = ChunkedData"
    "hs_chunk_size H (hp_response_buffer p) = Complete (n, len)" "len \<noteq> 0"
    "n + len + 2 \<le> usize_max" "n + len + 2 \<le> length (hp_response_buffer p)"
  shows "pdecode H p xs = pdecode H (consume (n + len + 2)
      (add_data (take len (drop n (hp_response_buffer p))) p)) xs"
proof -
  have "hs_chunk_size H (hp_response_buffer p @ xs) = Complete (n, len)"
    using assms(1,3) left_to_rightD [of "hs_chunk_size H"] by (auto simp: http_syntax_ok_def)
  moreover have "n \<le> length (hp_response_buffer p)" "len \<le> length (hp_response_buffer p) - n"
    using assms(6) by linarith+
  ultimately show ?thesis
    using assms(2-)
    by (simp add: pdecode_def decode_body_def dechunk.simps [of H _ "hp_response_buffer p @ xs"] add_data_def
        consume_def)
qed


section \<open>The parser computes the stream of responses\<close>

lemma parser_induct [case_names step]:
  assumes "\<And>p e. (\<And>p1 e1. hp_curr_state p = Headers \<and> hp_curr_state p1 \<noteq> Headers
      \<or> hp_curr_state p1 = hp_curr_state p \<and> parser_size p1 e1 < parser_size p e \<Longrightarrow> P p1 e1) \<Longrightarrow> P p e"
  shows "P p e"
proof -
  let ?R = "measures [\<lambda>(p, e). if hp_curr_state p = Headers then 1 else 0 :: nat,
      \<lambda>(p, e). parser_size p e]"
  have "P (fst x) (snd x)" for x
  proof (induction x rule: wf_induct_rule [OF wf_measures [of "[\<lambda>(p, e). if hp_curr_state p = Headers then 1 else 0 :: nat,
      \<lambda>(p, e). parser_size p e]"]])
    case (1 x)
    show ?case
    proof (rule assms)
      fix p1 e1
      assume "hp_curr_state (fst x) = Headers \<and> hp_curr_state p1 \<noteq> Headers
        \<or> hp_curr_state p1 = hp_curr_state (fst x) \<and> parser_size p1 e1 < parser_size (fst x) (snd x)"
      then have "((p1, e1), x) \<in> ?R" by (auto simp: split_beta)
      from "1.IH" [OF this] show "P p1 e1" by simp
    qed
  qed
  from this [of "(p, e)"] show ?thesis by simp
qed

definition parse_step ::
  "http_syntax \<Rightarrow> http_parser \<Rightarrow> u8 list \<Rightarrow> exn + response async \<Rightarrow> http_parser \<Rightarrow> bool" where
  "parse_step H p bs r p' \<longleftrightarrow>
     (case r of
        Inr (Ready resp) \<Rightarrow> hp_curr_state p' = Headers
          \<and> ((\<forall>xs. pdecode H p (bs @ xs) = Done resp (hp_response_buffer p' @ xs))
             \<or> (\<forall>xs. pdecode H p (bs @ xs) = Until_eof resp (hp_response_buffer p' @ xs)))
      | Inr NotReady \<Rightarrow> (\<forall>xs. pdecode H p (bs @ xs) = pdecode H p' xs)
          \<and> (pdecode H p' [] = More \<or> is_until_eof (pdecode H p' []))
      | Inl (Panic _) \<Rightarrow> pdecode H p bs = Crash
      | Inl (IoErr _) \<Rightarrow> pdecode H p bs \<in> {More, Bad} \<or> is_until_eof (pdecode H p bs))"

text \<open>A response that goes on to the end of the stream comes back only when a read was at the end.\<close>

definition ended_by_eof ::
  "http_syntax \<Rightarrow> http_parser \<Rightarrow> u8 list \<Rightarrow> exn + response async \<Rightarrow> io_env \<Rightarrow> bool" where
  "ended_by_eof H p bs r e \<longleftrightarrow>
     (\<forall>resp. r = Inr (Ready resp) \<and> is_until_eof (pdecode H p bs) \<longrightarrow> Inr [] \<in> set (rd e))"

lemma ended_by_eof_pass:
  assumes "\<And>xs. pdecode H p (bs @ xs) = pdecode H p1 xs" "ended_by_eof H p1 cs r e1" "set (rd e1) \<subseteq> set (rd e)"
  shows "ended_by_eof H p (bs @ cs) r e"
  using assms by (auto simp: ended_by_eof_def)

lemma parse_step_pass:
  assumes "\<And>xs. pdecode H p (bs @ xs) = pdecode H p1 xs" "parse_step H p1 cs r p'"
  shows "parse_step H p (bs @ cs) r p'"
  using assms by (auto simp: parse_step_def split: sum.splits async.splits exn.splits)

definition good :: "http_syntax \<Rightarrow> http_parser \<Rightarrow> io_env \<Rightarrow> bool" where
  "good H p e \<longleftrightarrow> (\<forall>r p' e'. poll_for_response H p e = (r, p', e')
     \<longrightarrow> (\<exists>bs. consumed e bs e' \<and> parse_step H p bs r p' \<and> ended_by_eof H p bs r e))"

text \<open>A pass that reads: it stops for want of input, or goes on with a longer buffer.\<close>

lemma good_fill:
  assumes f: "fill msg p e = (q, p1, e1)"
    and eq: "poll_for_response H p e =
      (case q of Inl x \<Rightarrow> (Inl x, p1, e1) | Inr NotReady \<Rightarrow> (Inr NotReady, p1, e1)
       | Inr (Ready _) \<Rightarrow> poll_for_response H p1 e1)"
    and incomplete: "pdecode H p [] = More \<or> is_until_eof (pdecode H p [])"
    and IH: "q = Inr (Ready ()) \<Longrightarrow> good H p1 e1"
  shows "good H p e"
  unfolding good_def
proof (intro allI impI)
  fix r p' e'
  assume poll: "poll_for_response H p e = (r, p', e')"
  obtain bs where p1: "p1 = p\<lparr>hp_response_buffer := hp_response_buffer p @ bs\<rparr>"
    and data: "consumed e bs e1"
    and q: "q = Inr (Ready ()) \<or> bs = [] \<and> (q = Inr NotReady \<or> (\<exists>x. q = Inl (IoErr x)))"
    using fill_cases [OF f] by blast
  show "\<exists>bs. consumed e bs e' \<and> parse_step H p bs r p' \<and> ended_by_eof H p bs r e"
  proof (cases "q = Inr (Ready ())")
    case True
    with IH poll eq obtain cs where cs: "consumed e1 cs e'" "parse_step H p1 cs r p'" "ended_by_eof H p1 cs r e1"
      by (auto simp: good_def)
    have pass: "pdecode H p (bs @ xs) = pdecode H p1 xs" for xs by (simp add: p1 pdecode_fill)
    have "set (rd e1) \<subseteq> set (rd e)" using data by (simp add: consumed_def)
    with pass cs have "consumed e (bs @ cs) e'" "parse_step H p (bs @ cs) r p'" "ended_by_eof H p (bs @ cs) r e"
      using consumed_trans [OF data] parse_step_pass ended_by_eof_pass by blast+
    then show ?thesis by blast
  next
    case False
    with q poll eq p1 data incomplete have "consumed e [] e'" "parse_step H p [] r p'" "ended_by_eof H p [] r e"
      by (auto simp: parse_step_def ended_by_eof_def)
    then show ?thesis by blast
  qed
qed

lemma good_pass:
  assumes "poll_for_response H p e = poll_for_response H p1 e" "good H p1 e"
    "\<And>xs. pdecode H p xs = pdecode H p1 xs"
  shows "good H p e"
  unfolding good_def
proof (intro allI impI)
  fix r p' e'
  assume "poll_for_response H p e = (r, p', e')"
  with assms(1) have "poll_for_response H p1 e = (r, p', e')" by simp
  with assms(2) obtain cs where "consumed e cs e'" "parse_step H p1 cs r p'" "ended_by_eof H p1 cs r e"
    unfolding good_def by blast
  moreover from this(2,3) have "parse_step H p cs r p'" "ended_by_eof H p cs r e"
    using parse_step_pass [of H p "[]" p1 cs r p'] ended_by_eof_pass [of H p "[]" p1 cs r e e]
    by (simp_all add: assms(3))
  ultimately show "\<exists>bs. consumed e bs e' \<and> parse_step H p bs r p' \<and> ended_by_eof H p bs r e" by auto
qed

lemma good_stop:
  assumes "\<And>r p' e'. poll_for_response H p e = (r, p', e') \<Longrightarrow> e' = e \<and> parse_step H p [] r p' \<and> ended_by_eof H p [] r e"
  shows "good H p e"
  unfolding good_def using assms consumed_refl by blast

lemma good_headers_nonempty:
  assumes ok: "http_syntax_ok H" and st: "hp_curr_state p = Headers" and ne: "hp_response_buffer p \<noteq> []"
    and IH: "\<And>p1 e1. hp_curr_state p1 \<noteq> Headers
      \<or> hp_curr_state p1 = Headers \<and> parser_size p1 e1 < parser_size p e \<Longrightarrow> good H p1 e1"
  shows "good H p e"
proof -
  define p2 where "p2 = p\<lparr>hp_partial_response := response_default\<rparr>"
  have p2: "hp_curr_state p2 = Headers" "hp_partial_response p2 = response_default"
    "hp_response_buffer p2 = hp_response_buffer p" "parser_size p2 e = parser_size p e"
    "p2\<lparr>hp_partial_response := response_default\<rparr> = p2"
    using st by (simp_all add: p2_def)
  have eq: "poll_for_response H p e = poll_for_response H p2 e"
    using st ne unfolding p2_def
    by (simp add: poll_for_response.simps [of H p e]
        poll_for_response.simps [of H "p\<lparr>hp_partial_response := response_default\<rparr>" e] Let_def
        split: parsed.splits option.splits)
  note unf = poll_for_response.simps [of H p2 e]
  have "good H p2 e"
  proof (cases "hs_response H (hp_response_buffer p2)")
    case (Complete x)
    obtain n c hs where x: "x = (n, c, hs)" by (cases x)
    with Complete ok obtain code where c: "c = Some code"
      by (cases c) (auto simp: http_syntax_ok_def)
    note h = Complete [unfolded x c]
    show ?thesis
    proof (rule good_pass)
      show "poll_for_response H p2 e = poll_for_response H (consume n (start_response code hs p2)) e"
        using h p2(1-3) ne by (simp add: unf p2(5))
      show "good H (consume n (start_response code hs p2)) e" by (rule IH) simp
      show "pdecode H p2 xs = pdecode H (consume n (start_response code hs p2)) xs" for xs
        using ok p2 ne h by (intro pdecode_head) simp_all
    qed
  next
    case Malformed
    then have "pdecode H p2 [] = Bad" using p2 ne by (simp add: pdecode_def decode_head_def)
    with Malformed p2 ne show ?thesis
      by (intro good_stop) (auto simp: unf p2(5) parse_step_def ended_by_eof_def)
  next
    case Partial
    obtain q p3 e2 where f: "fill ''Unexpected EOF parsing headers'' p2 e = (q, p3, e2)"
      by (metis prod_cases3)
    show ?thesis
    proof (rule good_fill [OF f])
      show "poll_for_response H p2 e = (case q of Inl x \<Rightarrow> (Inl x, p3, e2)
          | Inr NotReady \<Rightarrow> (Inr NotReady, p3, e2) | Inr (Ready _) \<Rightarrow> poll_for_response H p3 e2)"
        using Partial p2(1-3) ne f by (simp add: unf p2(5) split: sum.splits async.splits)
      show "pdecode H p2 [] = More \<or> is_until_eof (pdecode H p2 [])"
        using Partial p2 ne by (simp add: pdecode_def decode_head_def)
      show "good H p3 e2" if "q = Inr (Ready ())"
        using fill_decreases [OF f [unfolded that, symmetric]] p2(1,4) by (intro IH) simp
    qed
  qed
  with eq show ?thesis
    by (rule good_pass) (simp add: p2_def pdecode_partial_reset st)
qed

lemma good_headers:
  assumes ok: "http_syntax_ok H" and st: "hp_curr_state p = Headers"
    and IH: "\<And>p1 e1. hp_curr_state p1 \<noteq> Headers
      \<or> hp_curr_state p1 = Headers \<and> parser_size p1 e1 < parser_size p e \<Longrightarrow> good H p1 e1"
  shows "good H p e"
proof (cases "hp_response_buffer p = []")
  case False
  then show ?thesis by (rule good_headers_nonempty [OF ok st _ IH])
next
  case True
  obtain q p1 e1 where f: "fill ''EOF while waiting for new response'' p e = (q, p1, e1)"
    by (metis prod_cases3)
  obtain bs where p1: "p1 = p\<lparr>hp_response_buffer := bs\<rparr>"
    and bs: "q = Inr (Ready ()) \<longrightarrow> bs \<noteq> []"
    using fill_cases [OF f] True by auto
  show ?thesis
  proof (rule good_fill [OF f])
    show "poll_for_response H p e = (case q of Inl x \<Rightarrow> (Inl x, p1, e1)
        | Inr NotReady \<Rightarrow> (Inr NotReady, p1, e1) | Inr (Ready _) \<Rightarrow> poll_for_response H p1 e1)"
      using True st f bs
      unfolding p1
      by (simp add: poll_for_response.simps [of H p e]
          poll_for_response.simps [of H "p\<lparr>hp_response_buffer := bs\<rparr>" e1] Let_def
          split: sum.splits async.splits)
    show "pdecode H p [] = More \<or> is_until_eof (pdecode H p [])"
      using True st by (simp add: pdecode_def decode_head_def)
    show "good H p1 e1" if "q = Inr (Ready ())"
      using fill_decreases [OF f [unfolded that, symmetric]] st by (intro IH) simp
  qed
qed


lemma good_raw_length:
  assumes st: "hp_curr_state p = RawData (Some len)"
    and IH: "\<And>p1 e1. hp_curr_state p1 = hp_curr_state p \<and> parser_size p1 e1 < parser_size p e \<Longrightarrow> good H p1 e1"
  shows "good H p e"
proof (cases "len \<le> length (hp_response_buffer p)")
  case True
  then show ?thesis
    by (intro good_stop) (auto simp: st poll_for_response.simps [of H p e] Let_def finish_response_def
        parse_step_def ended_by_eof_def pdecode_def decode_body_def)
next
  case False
  obtain q p1 e1 where f: "fill ''Unexpected EOF parsing body'' p e = (q, p1, e1)"
    by (metis prod_cases3)
  show ?thesis
  proof (rule good_fill [OF f])
    show "poll_for_response H p e = (case q of Inl x \<Rightarrow> (Inl x, p1, e1)
        | Inr NotReady \<Rightarrow> (Inr NotReady, p1, e1) | Inr (Ready _) \<Rightarrow> poll_for_response H p1 e1)"
      using False st f by (simp add: poll_for_response.simps [of H p e] split: sum.splits async.splits)
    show "pdecode H p [] = More \<or> is_until_eof (pdecode H p [])"
      using False st by (simp add: pdecode_def decode_body_def)
    show "good H p1 e1" if "q = Inr (Ready ())"
      using fill_decreases [OF f [unfolded that, symmetric]] st by (intro IH) simp
  qed
qed

lemma good_raw_eof:
  assumes st: "hp_curr_state p = RawData None"
    and IH: "\<And>p1 e1. hp_curr_state p1 = hp_curr_state p \<and> parser_size p1 e1 < parser_size p e \<Longrightarrow> good H p1 e1"
  shows "good H p e"
  unfolding good_def
proof (intro allI impI)
  fix r p' e'
  assume poll: "poll_for_response H p e = (r, p', e')"
  obtain q buf e1 where f: "read_into_vec (hp_response_buffer p) e = (q, buf, e1)"
    by (metis prod_cases3)
  let ?p1 = "p\<lparr>hp_response_buffer := buf\<rparr>"
  have eof: "pdecode H p xs = Until_eof (hp_partial_response p) (hp_response_buffer p @ xs)" for xs
    using st by (simp add: pdecode_def decode_body_def)
  obtain bs where bs: "buf = hp_response_buffer p @ bs" "consumed e bs e1"
    "q = Inr (Ready (length bs)) \<or> bs = [] \<and> (q = Inr NotReady \<or> (\<exists>x. q = Inl (IoErr x)))"
    using read_into_vec_cases(1) [OF f] by blast
  show "\<exists>bs. consumed e bs e' \<and> parse_step H p bs r p' \<and> ended_by_eof H p bs r e"
  proof (cases "q = Inr (Ready (length bs)) \<and> bs \<noteq> []")
    case True
    then have "poll_for_response H ?p1 e1 = (r, p', e')"
      using poll st f by (simp add: poll_for_response.simps [of H p e])
    moreover have "good H ?p1 e1"
      using True f by (intro IH) (simp add: read_decreases)
    ultimately obtain cs where "consumed e1 cs e'" "parse_step H ?p1 cs r p'" "ended_by_eof H ?p1 cs r e1"
      unfolding good_def by blast
    moreover have "parse_step H p (bs @ cs) r p'"
      by (rule parse_step_pass [OF _ calculation(2)]) (simp add: bs(1) pdecode_fill)
    moreover have "ended_by_eof H p (bs @ cs) r e"
      by (rule ended_by_eof_pass [OF _ calculation(3)]) (use bs in \<open>simp_all add: pdecode_fill consumed_def\<close>)
    ultimately show ?thesis using consumed_trans [OF bs(2)] by blast
  next
    case False
    with poll st f bs read_into_vec_eof [of "hp_response_buffer p" e buf e1]
    have "consumed e [] e'" "parse_step H p [] r p'" "ended_by_eof H p [] r e"
      by (auto simp: poll_for_response.simps [of H p e] finish_response_def parse_step_def ended_by_eof_def eof)
        (simp_all add: pdecode_def decode_body_def)
    then show ?thesis by blast
  qed
qed

lemma good_chunked:
  assumes ok: "http_syntax_ok H" and st: "hp_curr_state p = ChunkedData"
    and IH: "\<And>p1 e1. hp_curr_state p1 = hp_curr_state p \<and> parser_size p1 e1 < parser_size p e \<Longrightarrow> good H p1 e1"
  shows "good H p e"
proof -
  let ?b = "hp_response_buffer p"
  obtain q p1 e1 where f: "fill ''Unexpected EOF parsing chunked body'' p e = (q, p1, e1)"
    by (metis prod_cases3)
  have more: "good H p e"
    if "poll_for_response H p e = (case q of Inl x \<Rightarrow> (Inl x, p1, e1)
        | Inr NotReady \<Rightarrow> (Inr NotReady, p1, e1) | Inr (Ready _) \<Rightarrow> poll_for_response H p1 e1)"
      "pdecode H p [] = More"
  proof (rule good_fill [OF f])
    show "good H p1 e1" if "q = Inr (Ready ())"
      using fill_decreases [OF f [unfolded that, symmetric]] st by (intro IH) simp
  qed (use that in simp_all)
  note unf = poll_for_response.simps [of H p e] and dec = pdecode_def decode_body_def dechunk.simps [of H _ ?b]
  show ?thesis
  proof (cases "hs_chunk_size H ?b")
    case Partial
    then show ?thesis
      by (intro more) (simp_all add: unf st f dec Let_def split: sum.splits async.splits)
  next
    case Malformed
    then show ?thesis
      by (intro good_stop) (auto simp: unf st parse_step_def ended_by_eof_def dec Let_def)
  next
    case (Complete x)
    obtain n len where x: "x = (n, len)" by (cases x)
    note c = Complete [unfolded x]
    have cx: "hs_chunk_size H (?b @ xs) = Complete (n, len)" for xs
      using c ok left_to_rightD(2) by (auto simp: http_syntax_ok_def)
    consider "len = 0" "n + 2 \<le> length ?b" | "len \<noteq> 0" "usize_max < n + len + 2"
      | "len \<noteq> 0" "n + len + 2 \<le> usize_max" "n + len + 2 \<le> length ?b"
      | "len = 0" "\<not> n + 2 \<le> length ?b"
      | "len \<noteq> 0" "n + len + 2 \<le> usize_max" "\<not> n + len + 2 \<le> length ?b"
      by linarith
    then show ?thesis
    proof cases
      case 1
      then show ?thesis using c
        by (intro good_stop)
          (auto simp: unf st Let_def finish_response_def parse_step_def ended_by_eof_def pdecode_def decode_body_def
            dechunk.simps [of H _ "?b @ _"] cx cx [of "[]", simplified] dechunk.simps [of H _ ?b])
    next
      case 2
      then show ?thesis using c
        by (intro good_stop) (auto simp: unf st Let_def parse_step_def ended_by_eof_def dec)
    next
      case 3
      let ?p1 = "consume (n + len + 2) (add_data (take len (drop n ?b)) p)"
      show ?thesis
      proof (rule good_pass)
        show "poll_for_response H p e = poll_for_response H ?p1 e"
          using 3 c by (simp add: unf st Let_def)
        show "good H ?p1 e"
          using 3 by (intro IH) (simp add: consume_decreases)
        show "pdecode H p xs = pdecode H ?p1 xs" for xs
          using pdecode_chunk [OF ok st c 3(1) 3(2) 3(3)] .
      qed
    next
      case 4
      with c show ?thesis
        by (intro more) (simp_all add: unf st f dec Let_def split: sum.splits async.splits)
    next
      case 5
      with c show ?thesis
        by (intro more) (simp_all add: unf st f dec Let_def split: sum.splits async.splits)
    qed
  qed
qed

lemma poll_good: "http_syntax_ok H \<Longrightarrow> good H p e"
proof (induction p e rule: parser_induct)
  case (step p e)
  have IH: "good H p1 e1" if "hp_curr_state p = Headers \<and> hp_curr_state p1 \<noteq> Headers
      \<or> hp_curr_state p1 = hp_curr_state p \<and> parser_size p1 e1 < parser_size p e" for p1 e1
    by (rule step.IH [OF that step.prems])
  show ?case
  proof (cases "hp_curr_state p")
    case Headers
    show ?thesis
      by (rule good_headers [OF step.prems Headers IH]) (use Headers in auto)
  next
    case (RawData len)
    show ?thesis
    proof (cases len)
      case None
      show ?thesis by (rule good_raw_eof [OF RawData [unfolded None] IH]) simp
    next
      case (Some n)
      show ?thesis by (rule good_raw_length [OF RawData [unfolded Some] IH]) simp
    qed
  next
    case ChunkedData
    show ?thesis by (rule good_chunked [OF step.prems ChunkedData IH]) simp
  qed
qed

lemma poll_for_response_step:
  assumes "http_syntax_ok H" "poll_for_response H p e = (r, p', e')"
  obtains bs where "consumed e bs e'" "parse_step H p bs r p'" "ended_by_eof H p bs r e"
  using poll_good [OF assms(1), of p e] assms(2) unfolding good_def by blast

section \<open>Runs of the parser\<close>

text \<open>The parser takes the bytes \<open>bs\<close> for the responses \<open>rs\<close>, one after the other.\<close>

inductive parses :: "http_syntax \<Rightarrow> http_parser \<Rightarrow> u8 list \<Rightarrow> response list \<Rightarrow> http_parser \<Rightarrow> bool" for H where
  none: "parses H p [] [] p"
| one: "parse_step H p bs (Inr (Ready r)) p1 \<Longrightarrow> parses H p1 cs rs p2 \<Longrightarrow> parses H p (bs @ cs) (r # rs) p2"

inductive_simps parses_no_response [simp]: "parses H p bs [] p'"

end
