(* ===== verification/Http_Client.thy ===== *)
theory Http_Client
  imports Http_Parser Btree_Map
begin

text \<open>
  The rest of \<open>src/http.rs\<close>: the queue of requests shared by an \<open>HttpClient\<close> and its connection,
  the handler that writes requests and hands responses out in order, and the stream that reconnects.
  A oneshot channel is a ticket; the completions of a poll are the list of tickets sent to, with what
  was sent. \<open>netbuf::Buf::write_to\<close> is one write of the buffered bytes.
\<close>

section \<open>Requests and tickets\<close>

record request =
  rq_method :: rstr
  rq_path :: rstr
  rq_headers :: "(rstr \<times> rstr) list"
  rq_body :: "u8 list"

type_synonym ticket = nat
type_synonym outcome = "io_error + response"

record http_client_inner =
  hci_requests :: "(request \<times> ticket) list"
  hci_task :: bool
  hci_next_ticket :: ticket

definition http_client_inner_new :: http_client_inner where
  "http_client_inner_new = \<lparr>hci_requests = [], hci_task = False, hci_next_ticket = 0\<rparr>"

text \<open>
  \<open>send_request\<close> returns the receiving end of a new oneshot; the flag says whether the task of the
  connection was notified.
\<close>

definition send_request ::
  "request \<Rightarrow> http_client_inner \<Rightarrow> ticket \<times> http_client_inner \<times> bool" where
  "send_request request inner =
     (let t = hci_next_ticket inner in
      (t, inner\<lparr>hci_requests := hci_requests inner @ [(request, t)], hci_next_ticket := t + 1\<rparr>,
       hci_task inner))"

text \<open>\<open>HttpResponseFuture::poll\<close>; a dropped sender is \<open>Some None\<close>.\<close>

definition response_future_poll :: "outcome option option \<Rightarrow> exn + response async" where
  "response_future_poll oneshot =
     (case oneshot of
        None \<Rightarrow> Inr NotReady
      | Some None \<Rightarrow> Inl (IoErr (IoError Other (lit ''stream went away'')))
      | Some (Some (Inl e)) \<Rightarrow> Inl (IoErr e)
      | Some (Some (Inr response)) \<Rightarrow> Inr (Ready response))"

section \<open>The handler of a connection\<close>

record http_client_handler =
  hch_write_buffer :: "u8 list"
  hch_requests :: "ticket list"
  hch_stream :: io_env
  hch_host :: rstr
  hch_client_reader :: http_parser

definition http_client_handler_new :: "rstr \<Rightarrow> io_env \<Rightarrow> http_client_handler" where
  "http_client_handler_new host stream =
     \<lparr>hch_write_buffer = [], hch_requests = [], hch_stream = stream, hch_host = host,
      hch_client_reader = http_parser_new\<rparr>"

definition crlf :: rstr where
  "crlf = [13, 10]"

definition request_bytes :: "rstr \<Rightarrow> request \<Rightarrow> u8 list" where
  "request_bytes host request =
     utf8_bytes
       (rq_method request @ lit '' '' @ rq_path request @ lit '' HTTP/1.1'' @ crlf
        @ lit ''Host: '' @ host @ crlf
        @ lit ''Connection: keep-alive'' @ crlf
        @ lit ''Content-Length: '' @ decimal (length (rq_body request)) @ crlf
        @ concat (map (\<lambda>(name, value). name @ lit '': '' @ value @ crlf) (rq_headers request))
        @ crlf)
     @ rq_body request"

definition write_request :: "request \<Rightarrow> http_client_handler \<Rightarrow> http_client_handler" where
  "write_request request h =
     h\<lparr>hch_write_buffer := hch_write_buffer h @ request_bytes (hch_host h) request\<rparr>"

definition accept_request :: "request \<times> ticket \<Rightarrow> http_client_handler \<Rightarrow> http_client_handler" where
  "accept_request = (\<lambda>(req, future) h.
     (write_request req h)\<lparr>hch_requests := hch_requests h @ [future]\<rparr>)"

definition write_to_stream :: "http_client_handler \<Rightarrow> (exn + unit) \<times> http_client_handler" where
  "write_to_stream h =
     (case env_write (hch_write_buffer h) (hch_stream h) of
        (Inl x, e) \<Rightarrow> (Inl (IoErr x), h\<lparr>hch_stream := e\<rparr>)
      | (Inr n, e) \<Rightarrow>
          (Inr (), h\<lparr>hch_stream := e, hch_write_buffer := drop n (hch_write_buffer h)\<rparr>))"

lemma accept_requests_simps [simp]:
  "hch_requests (fold accept_request rs h) = hch_requests h @ map snd rs"
  "hch_write_buffer (fold accept_request rs h)
     = hch_write_buffer h @ concat (map (\<lambda>(r, t). request_bytes (hch_host h) r) rs)"
  "hch_stream (fold accept_request rs h) = hch_stream h"
  "hch_host (fold accept_request rs h) = hch_host h"
  "hch_client_reader (fold accept_request rs h) = hch_client_reader h"
  by (induction rs arbitrary: h) (auto simp: accept_request_def write_request_def)

lemma write_to_stream_frame:
  assumes "write_to_stream h = (r, h')"
  shows "hch_requests h' = hch_requests h" "hch_host h' = hch_host h"
    "hch_client_reader h' = hch_client_reader h" "env_data (hch_stream h') = env_data (hch_stream h)"
    "sent (hch_stream h') @ hch_write_buffer h' = sent (hch_stream h) @ hch_write_buffer h"
    "\<not> is_panic r"
proof -
  obtain q e where q: "env_write (hch_write_buffer h) (hch_stream h) = (q, e)" by fastforce
  have "hch_requests h' = hch_requests h \<and> hch_host h' = hch_host h
    \<and> hch_client_reader h' = hch_client_reader h \<and> env_data (hch_stream h') = env_data (hch_stream h)
    \<and> sent (hch_stream h') @ hch_write_buffer h' = sent (hch_stream h) @ hch_write_buffer h
    \<and> \<not> is_panic r"
  proof (cases q)
    case (Inl x)
    with assms q env_write_InlD [OF q [unfolded Inl]] show ?thesis
      by (auto simp: write_to_stream_def dest: env_cong)
  next
    case (Inr n)
    with assms q env_write_InrD [OF q [unfolded Inr]] show ?thesis
      by (auto simp: write_to_stream_def dest: env_cong)
  qed
  then show "hch_requests h' = hch_requests h" "hch_host h' = hch_host h"
    "hch_client_reader h' = hch_client_reader h" "env_data (hch_stream h') = env_data (hch_stream h)"
    "sent (hch_stream h') @ hch_write_buffer h' = sent (hch_stream h) @ hch_write_buffer h"
    "\<not> is_panic r"
    by simp_all
qed

lemma write_to_stream_requests:
  "(r, h') = (if P then write_to_stream h else (Inr (), h)) \<Longrightarrow> hch_requests h' = hch_requests h"
  using write_to_stream_frame(1) [of h r h'] by (auto split: if_splits)

text \<open>
  \<open>poll_inner\<close> takes the queue, writes, reads a response and goes round. Every further pass hands a
  response to a pending request, and nothing is queued in between, so the loop ends.
\<close>

function poll_inner ::
  "http_syntax \<Rightarrow> http_client_inner \<Rightarrow> http_client_handler \<Rightarrow> (ticket \<times> outcome) list \<Rightarrow>
     (exn + unit async) \<times> http_client_inner \<times> http_client_handler \<times> (ticket \<times> outcome) list" where
  "poll_inner H inner h done =
     (let inner1 = inner\<lparr>hci_task := True, hci_requests := []\<rparr>;
          h1 = fold accept_request (hci_requests inner) h
      in case (if hch_write_buffer h1 \<noteq> [] then write_to_stream h1 else (Inr (), h1)) of
           (Inl x, h2) \<Rightarrow> (Inl x, inner1, h2, done)
         | (Inr _, h2) \<Rightarrow>
             (case poll_for_response H (hch_client_reader h2) (hch_stream h2) of
                (Inl x, p, e) \<Rightarrow>
                  (Inl x, inner1, h2\<lparr>hch_client_reader := p, hch_stream := e\<rparr>, done)
              | (Inr NotReady, p, e) \<Rightarrow>
                  (Inr NotReady, inner1, h2\<lparr>hch_client_reader := p, hch_stream := e\<rparr>, done)
              | (Inr (Ready resp), p, e) \<Rightarrow>
                  (let h3 = h2\<lparr>hch_client_reader := p, hch_stream := e\<rparr> in
                   case hch_requests h3 of
                     [] \<Rightarrow>
                       (Inl (IoErr (IoError InvalidData (lit ''Response without request''))),
                        inner1, h3, done)
                   | future # rest \<Rightarrow>
                       poll_inner H inner1 (h3\<lparr>hch_requests := rest\<rparr>) (done @ [(future, Inr resp)]))))"
  by pat_completeness auto
termination
  by (relation "measure (\<lambda>(H, inner, h, done). length (hci_requests inner) + length (hch_requests h))")
    (auto dest!: write_to_stream_requests dest: arg_cong [of _ _ length])

declare poll_inner.simps [simp del]

text \<open>Only the inner error of an error is copied with it; the text of one without is lost.\<close>

fun clone_io_error :: "io_error \<Rightarrow> io_error" where
  "clone_io_error (IoError kind inner) = IoError kind inner"
| "clone_io_error (OsError kind _) = IoError kind []"

definition handler_poll ::
  "http_syntax \<Rightarrow> http_client_inner \<Rightarrow> http_client_handler \<Rightarrow>
     (exn + unit async) \<times> http_client_inner \<times> http_client_handler \<times> (ticket \<times> outcome) list" where
  "handler_poll H inner h =
     (case poll_inner H inner h [] of
        (Inl (IoErr x), inner', h', done) \<Rightarrow>
          (Inl (IoErr x), inner', h'\<lparr>hch_requests := []\<rparr>,
           done @ map (\<lambda>f. (f, Inl (clone_io_error x))) (hch_requests h'))
      | (r, inner', h', done) \<Rightarrow> (r, inner', h', done))"

section \<open>Reconnecting\<close>

text \<open>
  The future of a connection attempt is a parameter; a script gives the results its polls will have
  (\<open>Inl ()\<close> a failure). A script that has run out is not ready.
\<close>

datatype connection_state = Connected http_client_handler | Connecting

text \<open>
  \<open>ReconnectingStream\<close>: its state, the \<open>Host\<close> it writes, and what \<open>reconnect_func\<close> captured, the place
  it connects to and whether it speaks TLS there. \<open>new\<close> and \<open>spawn\<close> return the client and the stream
  that runs as a task of its own; both share the queue.
\<close>

record http_target =
  ht_host :: rstr
  ht_port :: "16 word"
  ht_tls :: bool

record reconnecting_stream =
  rst_connection_state :: connection_state
  rst_host :: rstr
  rst_reconnect_func :: http_target

definition spawn :: "rstr \<Rightarrow> http_target \<Rightarrow> reconnecting_stream" where
  "spawn host reconnect_func =
     \<lparr>rst_connection_state = Connecting, rst_host = host, rst_reconnect_func = reconnect_func\<rparr>"

definition http_client_new :: "rstr \<Rightarrow> 16 word \<Rightarrow> bool \<Rightarrow> http_client_inner \<times> reconnecting_stream" where
  "http_client_new host port tls =
     (http_client_inner_new, spawn host \<lparr>ht_host = host, ht_port = port, ht_tls = tls\<rparr>)"

type_synonym connect_script = "(unit + io_env) async list"

function reconnecting_poll ::
  "http_syntax \<Rightarrow> rstr \<Rightarrow> http_client_inner \<Rightarrow> connection_state \<Rightarrow> connect_script \<Rightarrow>
     (ticket \<times> outcome) list \<Rightarrow>
     (exn + unit async) \<times> http_client_inner \<times> connection_state \<times> connect_script \<times> (ticket \<times> outcome) list" where
  "reconnecting_poll H host inner st script done =
     (case st of
        Connected handler \<Rightarrow>
          (case handler_poll H inner handler of
             (Inl (Panic m), inner', h', d) \<Rightarrow> (Inl (Panic m), inner', Connected h', script, done @ d)
           | (Inr NotReady, inner', h', d) \<Rightarrow> (Inr NotReady, inner', Connected h', script, done @ d)
           | (_, inner', h', d) \<Rightarrow> reconnecting_poll H host inner' Connecting script (done @ d))
      | Connecting \<Rightarrow>
          (case script of
             [] \<Rightarrow> (Inr NotReady, inner, Connecting, [], done)
           | NotReady # r \<Rightarrow> (Inr NotReady, inner, Connecting, r, done)
           | Ready (Inr stream) # r \<Rightarrow>
               reconnecting_poll H host inner (Connected (http_client_handler_new host stream)) r done
           | Ready (Inl _) # r \<Rightarrow> reconnecting_poll H host inner Connecting r done))"
  by pat_completeness auto
termination
  by (relation "measure (\<lambda>(H, host, inner, st, script, done).
      2 * length script + (case st of Connected _ \<Rightarrow> 1 | Connecting \<Rightarrow> 0))") auto

declare reconnecting_poll.simps [simp del]

text \<open>\<open>Future::poll\<close> of the stream with the answers it gives.\<close>

definition stream_poll ::
  "http_syntax \<Rightarrow> http_client_inner \<Rightarrow> reconnecting_stream \<Rightarrow> connect_script \<Rightarrow>
     (exn + unit async) \<times> http_client_inner \<times> reconnecting_stream \<times> connect_script \<times> (ticket \<times> outcome) list" where
  "stream_poll H inner stream script =
     (case reconnecting_poll H (rst_host stream) inner (rst_connection_state stream) script [] of
        (r, inner', st, script', answers) \<Rightarrow>
          (r, inner', stream\<lparr>rst_connection_state := st\<rparr>, script', answers))"

section \<open>Requests are answered in order\<close>

text \<open>The bytes a connection has sent or has still to send.\<close>

definition outgoing :: "http_client_handler \<Rightarrow> u8 list" where
  "outgoing h = sent (hch_stream h) @ hch_write_buffer h"

definition queue_bytes :: "rstr \<Rightarrow> (request \<times> ticket) list \<Rightarrow> u8 list" where
  "queue_bytes host rs = concat (map (\<lambda>(r, t). request_bytes host r) rs)"

text \<open>
  What a run of the loop has done: the responses \<open>rs\<close> of the bytes it read went to the first of the
  waiting tickets, and the requests of the queue were added behind what was to be sent.
\<close>

definition handler_run ::
  "http_syntax \<Rightarrow> http_client_inner \<Rightarrow> http_client_handler \<Rightarrow> response list \<Rightarrow> ticket list \<Rightarrow>
     http_client_inner \<Rightarrow> http_client_handler \<Rightarrow> bool" where
  "handler_run H inner h rs ts inner' h' \<longleftrightarrow>
     length ts = length rs
     \<and> ts @ hch_requests h' = hch_requests h @ map snd (hci_requests inner)
     \<and> inner' = inner\<lparr>hci_task := True, hci_requests := []\<rparr>
     \<and> hch_host h' = hch_host h
     \<and> outgoing h' = outgoing h @ queue_bytes (hch_host h) (hci_requests inner)
     \<and> (\<exists>bs p rest. parses H (hch_client_reader h) bs rs p
          \<and> env_data (hch_stream h) = bs @ rest @ env_data (hch_stream h'))"

lemma poll_inner_step:
  "http_syntax_ok H \<Longrightarrow> poll_inner H inner h done = (r, inner', h', done') \<Longrightarrow>
     r \<noteq> Inr (Ready ()) \<and> (\<exists>rs ts. done' = done @ zip ts (map Inr rs) \<and> handler_run H inner h rs ts inner' h')"
proof (induction H inner h "done" rule: poll_inner.induct)
  case (1 H inner h "done")
  define inner1 where "inner1 = inner\<lparr>hci_task := True, hci_requests := []\<rparr>"
  define h1 where "h1 = fold accept_request (hci_requests inner) h"
  obtain q h2 where q: "(if hch_write_buffer h1 \<noteq> [] then write_to_stream h1 else (Inr (), h1)) = (q, h2)"
    by fastforce
  have h2: "hch_requests h2 = hch_requests h @ map snd (hci_requests inner)" "hch_host h2 = hch_host h"
    "outgoing h2 = outgoing h @ queue_bytes (hch_host h) (hci_requests inner)"
    "hch_client_reader h2 = hch_client_reader h" "env_data (hch_stream h2) = env_data (hch_stream h)"
    using q write_to_stream_frame(1-5) [of h1 q h2]
    by (auto simp: h1_def outgoing_def queue_bytes_def split: if_splits)
  obtain a p e where a: "poll_for_response H (hch_client_reader h2) (hch_stream h2) = (a, p, e)"
    by (metis prod_cases3)
  obtain bs where bs: "consumed (hch_stream h2) bs e" "parse_step H (hch_client_reader h) bs a p"
    using poll_for_response_step [OF "1.prems"(1) a] h2(4) by metis
  define h3 where "h3 = h2\<lparr>hch_client_reader := p, hch_stream := e\<rparr>"
  have h3: "hch_requests h3 = hch_requests h @ map snd (hci_requests inner)" "hch_host h3 = hch_host h"
    "outgoing h3 = outgoing h @ queue_bytes (hch_host h) (hci_requests inner)" "hch_client_reader h3 = p"
    "env_data (hch_stream h) = bs @ env_data (hch_stream h3)"
    using h2 bs(1) by (simp_all add: h3_def outgoing_def consumed_def)
  note unf = "1.prems"(2) [unfolded poll_inner.simps [of H inner h] Let_def, folded inner1_def h1_def, unfolded q]
  have stop: "handler_run H inner h [] [] inner1 h2" "handler_run H inner h [] [] inner1 h3"
    using h2 h3 by (auto simp: handler_run_def inner1_def)
  show ?case
  proof (cases "\<exists>u resp f fs. q = Inr u \<and> a = Inr (Ready resp) \<and> hch_requests h3 = f # fs")
    case False
    then have "r \<noteq> Inr (Ready ()) \<and> done' = done \<and> inner' = inner1 \<and> (h' = h2 \<or> h' = h3)"
      using unf a by (auto simp: h3_def split: sum.splits async.splits list.splits)
    with stop show ?thesis by (intro conjI exI [of _ "[]"]) auto
  next
    case True
    then obtain u resp f fs where t: "q = Inr u" "a = Inr (Ready resp)" "hch_requests h3 = f # fs" by blast
    then have "poll_inner H inner1 (h3\<lparr>hch_requests := fs\<rparr>) (done @ [(f, Inr resp)]) = (r, inner', h', done')"
      using unf a by (simp add: h3_def)
    from "1.IH" [OF inner1_def h1_def q [symmetric] t(1) a [symmetric] t(2) refl refl h3_def t(3) "1.prems"(1) this]
    obtain rs ts where r: "r \<noteq> Inr (Ready ())" "done' = (done @ [(f, Inr resp)]) @ zip ts (map Inr rs)"
      and run: "handler_run H inner1 (h3\<lparr>hch_requests := fs\<rparr>) rs ts inner' h'"
      by auto
    from run obtain cs p2 rest where ps: "parses H p cs rs p2"
      and data: "env_data (hch_stream h3) = cs @ rest @ env_data (hch_stream h')"
      by (auto simp: handler_run_def h3(4))
    have "parses H (hch_client_reader h) (bs @ cs) (resp # rs) p2"
      using parses.one bs(2) t(2) ps by blast
    moreover have "env_data (hch_stream h) = (bs @ cs) @ rest @ env_data (hch_stream h')"
      using h3(5) data by simp
    ultimately have "\<exists>bs p rest. parses H (hch_client_reader h) bs (resp # rs) p
        \<and> env_data (hch_stream h) = bs @ rest @ env_data (hch_stream h')" by blast
    with run h3(1-3) t(3) have "handler_run H inner h (resp # rs) (f # ts) inner' h'"
      unfolding handler_run_def by (simp add: inner1_def outgoing_def queue_bytes_def)
    with r show ?thesis by (intro conjI exI [of _ "resp # rs"] exI [of _ "f # ts"]) auto
  qed
qed

text \<open>A poll of the handler keeps every request in order, and an error answers all that are left.\<close>

lemma handler_poll_run:
  assumes ok: "http_syntax_ok H" and poll: "handler_poll H inner h = (r, inner', h', answers)"
  shows "r \<noteq> Inr (Ready ())
    \<and> (\<exists>rs ts h1. handler_run H inner h rs ts inner' h1
        \<and> (case r of
             Inl (IoErr x) \<Rightarrow> h' = h1\<lparr>hch_requests := []\<rparr>
               \<and> answers = zip ts (map Inr rs) @ map (\<lambda>t. (t, Inl (clone_io_error x))) (hch_requests h1)
           | _ \<Rightarrow> h' = h1 \<and> answers = zip ts (map Inr rs)))"
proof -
  obtain r1 i1 h1 d1 where p: "poll_inner H inner h [] = (r1, i1, h1, d1)"
    by (metis prod_cases4)
  from poll_inner_step [OF ok p] obtain rs ts where s: "r1 \<noteq> Inr (Ready ())" "d1 = zip ts (map Inr rs)"
    "handler_run H inner h rs ts i1 h1" by auto
  from poll [unfolded handler_poll_def p] s show ?thesis
    by (auto split: sum.splits exn.splits intro!: exI [of _ rs] exI [of _ ts] exI [of _ h1])
qed

lemma handler_poll_step:
  assumes ok: "http_syntax_ok H" and poll: "handler_poll H inner h = (r, inner', h', new)"
  shows "map fst new @ hch_requests h' = hch_requests h @ map snd (hci_requests inner)"
    "inner' = inner\<lparr>hci_task := True, hci_requests := []\<rparr>" "hch_host h' = hch_host h"
    "outgoing h' = outgoing h @ queue_bytes (hch_host h) (hci_requests inner)"
    "r = Inl (IoErr x) \<Longrightarrow> hch_requests h' = []"
proof -
  from handler_poll_run [OF ok poll] obtain rs ts h1 where run: "handler_run H inner h rs ts inner' h1"
    and h': "case r of
        Inl (IoErr x) \<Rightarrow> h' = h1\<lparr>hch_requests := []\<rparr>
          \<and> new = zip ts (map Inr rs) @ map (\<lambda>t. (t, Inl (clone_io_error x))) (hch_requests h1)
      | _ \<Rightarrow> h' = h1 \<and> new = zip ts (map Inr rs)" by blast
  have "length ts = length rs" using run by (simp add: handler_run_def)
  then have "map fst new @ hch_requests h' = hch_requests h @ map snd (hci_requests inner)
    \<and> inner' = inner\<lparr>hci_task := True, hci_requests := []\<rparr> \<and> hch_host h' = hch_host h
    \<and> outgoing h' = outgoing h @ queue_bytes (hch_host h) (hci_requests inner)
    \<and> (r = Inl (IoErr x) \<longrightarrow> hch_requests h' = [])"
    using run h' by (auto simp: handler_run_def comp_def outgoing_def split: sum.splits exn.splits)
  then show "map fst new @ hch_requests h' = hch_requests h @ map snd (hci_requests inner)"
    "inner' = inner\<lparr>hci_task := True, hci_requests := []\<rparr>" "hch_host h' = hch_host h"
    "outgoing h' = outgoing h @ queue_bytes (hch_host h) (hci_requests inner)"
    "r = Inl (IoErr x) \<Longrightarrow> hch_requests h' = []"
    by simp_all
qed

fun pending_tickets :: "connection_state \<Rightarrow> ticket list" where
  "pending_tickets (Connected h) = hch_requests h"
| "pending_tickets Connecting = []"

lemma handler_new_requests [simp]: "hch_requests (http_client_handler_new host stream) = []"
  by (simp add: http_client_handler_new_def)

lemma handler_poll_not_done:
  "http_syntax_ok H \<Longrightarrow> handler_poll H inner h = (r, i', h', d') \<Longrightarrow> r \<noteq> Inr (Ready ())"
  using handler_poll_run by blast

text \<open>
  Across reconnections: what was pending or queued is answered in that order, and the rest is still
  pending or queued. No request is lost, answered twice or overtaken.
\<close>

lemma reconnecting_poll_step:
  "http_syntax_ok H \<Longrightarrow> reconnecting_poll H host inner st script done = (r, inner', st', script', done') \<Longrightarrow>
     \<exists>new. done' = done @ new
       \<and> map fst new @ pending_tickets st' @ map snd (hci_requests inner')
           = pending_tickets st @ map snd (hci_requests inner)
       \<and> hci_next_ticket inner' = hci_next_ticket inner"
proof (induction H host inner st script "done" rule: reconnecting_poll.induct)
  case (1 H host inner st script "done")
  note unf = "1.prems"(2) [unfolded reconnecting_poll.simps [of H host inner st]]
  show ?case
  proof (cases st)
    case (Connected h)
    obtain q i1 h1 d1 where p: "handler_poll H inner h = (q, i1, h1, d1)"
      by (metis prod_cases4)
    note s = handler_poll_step [OF "1.prems"(1) p]
    show ?thesis
    proof (cases "\<exists>x. q = Inl (IoErr x)")
      case True
      then obtain x where x: "q = Inl (IoErr x)" by blast
      with unf p have "reconnecting_poll H host i1 Connecting script (done @ d1) = (r, inner', st', script', done')"
        by (simp add: Connected)
      with "1.IH"(1) Connected p x "1.prems"(1) s s(5) [OF x] show ?thesis
        by fastforce
    next
      case False
      then have "q = Inr NotReady \<or> (\<exists>m. q = Inl (Panic m))"
        using handler_poll_not_done [OF "1.prems"(1) p] by (cases q) (auto, metis exn.exhaust, metis async.exhaust old.unit.exhaust)
      with unf p s show ?thesis by (auto simp: Connected)
    qed
  next
    case Connecting
    then show ?thesis
      using unf "1.IH" "1.prems"(1) by (cases script) (auto split: async.splits sum.splits)
  qed
qed

text \<open>
  The task of a connection never ends: when a poll returns without a panic it is not ready. A connection
  of a client that has gone is kept, and made again when it breaks.
\<close>

lemma reconnecting_poll_not_done:
  "http_syntax_ok H \<Longrightarrow> reconnecting_poll H host inner st script done = (r, rest) \<Longrightarrow>
     r = Inr NotReady \<or> (\<exists>m. r = Inl (Panic m))"
proof (induction H host inner st script "done" rule: reconnecting_poll.induct)
  case (1 H host inner st script "done")
  note unf = "1.prems"(2) [unfolded reconnecting_poll.simps [of H host inner st]]
  show ?case
  proof (cases st)
    case (Connected h)
    obtain q i1 h1 d1 where p: "handler_poll H inner h = (q, i1, h1, d1)"
      by (metis prod_cases4)
    consider x where "q = Inl (IoErr x)" | m where "q = Inl (Panic m)" | "q = Inr NotReady"
      using handler_poll_not_done [OF "1.prems"(1) p]
      by (cases q) (metis exn.exhaust, metis async.exhaust old.unit.exhaust)
    then show ?thesis
    proof cases
      case 1
      with unf p have "reconnecting_poll H host i1 Connecting script (done @ d1) = (r, rest)"
        by (simp add: Connected)
      with "1.IH"(1) Connected p 1 "1.prems"(1) show ?thesis by fastforce
    qed (use unf p Connected in auto)
  next
    case Connecting
    then show ?thesis
      using unf "1.IH" "1.prems"(1) by (cases script) (auto split: async.splits sum.splits)
  qed
qed

lemma stream_poll_not_done:
  "http_syntax_ok H \<Longrightarrow> stream_poll H inner stream script = (r, rest) \<Longrightarrow>
     r = Inr NotReady \<or> (\<exists>m. r = Inl (Panic m))"
  by (auto simp: stream_poll_def split: prod.splits dest: reconnecting_poll_not_done)

section \<open>Tickets\<close>

text \<open>
  The oneshots of a client that have been sent and not yet received. Everything a client does to its
  queue is to add requests with new tickets (\<open>requested\<close>). A ticket is pending, queued or answered, it
  is only one of these, and it has been given out (\<open>http_wf\<close>).
\<close>

type_synonym oneshots = "(ticket, outcome option) btree"

text \<open>\<open>Complete::send\<close> for every answer of a poll.\<close>

definition deliver :: "(ticket \<times> outcome) list \<Rightarrow> oneshots \<Rightarrow> oneshots" where
  "deliver answers cells = fold (\<lambda>(t, result). bt_insert t (Some result)) answers cells"

definition requested :: "http_client_inner \<Rightarrow> http_client_inner \<Rightarrow> bool" where
  "requested http http' \<longleftrightarrow>
     (\<exists>new. hci_requests http' = hci_requests http @ new
        \<and> hci_next_ticket http' = hci_next_ticket http + length new
        \<and> map snd new = [hci_next_ticket http..<hci_next_ticket http'])"

definition http_wf :: "ticket list \<Rightarrow> http_client_inner \<Rightarrow> oneshots \<Rightarrow> bool" where
  "http_wf pending http cells \<longleftrightarrow>
     distinct (pending @ map snd (hci_requests http))
     \<and> set (bt_keys cells) \<inter> set (pending @ map snd (hci_requests http)) = {}
     \<and> (\<forall>t \<in> set (pending @ map snd (hci_requests http)) \<union> set (bt_keys cells). t < hci_next_ticket http)"

lemma requested_refl [simp, intro]: "requested http http"
  by (simp add: requested_def)

lemma requested_next: "requested a b \<Longrightarrow> hci_next_ticket a \<le> hci_next_ticket b"
  by (auto simp: requested_def)

lemma requested_trans: "requested a b \<Longrightarrow> requested b c \<Longrightarrow> requested a c"
proof -
  assume "requested a b" "requested b c"
  then obtain xs ys where
    xs: "hci_requests b = hci_requests a @ xs" "hci_next_ticket b = hci_next_ticket a + length xs"
      "map snd xs = [hci_next_ticket a..<hci_next_ticket b]"
    and ys: "hci_requests c = hci_requests b @ ys" "hci_next_ticket c = hci_next_ticket b + length ys"
      "map snd ys = [hci_next_ticket b..<hci_next_ticket c]"
    by (auto simp: requested_def)
  have "map snd (xs @ ys) = [hci_next_ticket a..<hci_next_ticket c]"
    using xs(2,3) ys(2,3) upt_add_eq_append [of "hci_next_ticket a" "hci_next_ticket b" "length ys"] by simp
  then show "requested a c"
    using xs(1,2) ys(1,2) unfolding requested_def by (intro exI [of _ "xs @ ys"]) simp
qed

lemma requested_send: "send_request req http = (t, http', n) \<Longrightarrow> requested http http'"
  by (auto simp: send_request_def requested_def Let_def)

lemma http_wf_new [simp]: "http_wf [] http_client_inner_new bt_empty"
  by (simp add: http_wf_def http_client_inner_new_def)

lemma http_wf_requested [intro]:
  assumes wf: "http_wf pending http cells" and req: "requested http http'"
  shows "http_wf pending http' cells"
proof -
  obtain new where new: "hci_requests http' = hci_requests http @ new"
    "hci_next_ticket http' = hci_next_ticket http + length new"
    "map snd new = [hci_next_ticket http..<hci_next_ticket http']"
    using req by (auto simp: requested_def)
  define old where "old = set (pending @ map snd (hci_requests http))"
  have d: "distinct (pending @ map snd (hci_requests http))" "set (bt_keys cells) \<inter> old = {}"
    and lt: "\<forall>t \<in> old \<union> set (bt_keys cells). t < hci_next_ticket http"
    using wf by (simp_all add: http_wf_def old_def)
  have n: "set (map snd new) = {hci_next_ticket http..<hci_next_ticket http'}" "distinct (map snd new)"
    using new(3) by simp_all
  have fresh: "t \<notin> set (map snd new)" if "t < hci_next_ticket http" for t
    using that n(1) by simp
  have all: "set (pending @ map snd (hci_requests http')) = old \<union> set (map snd new)"
    by (auto simp: new(1) old_def)
  have "distinct ((pending @ map snd (hci_requests http)) @ map snd new)"
    using d(1) n(2) lt fresh unfolding distinct_append old_def by blast
  then have "distinct (pending @ map snd (hci_requests http'))" by (simp add: new(1))
  moreover have "set (bt_keys cells) \<inter> (old \<union> set (map snd new)) = {}" using d(2) lt fresh by blast
  moreover have "\<forall>t \<in> (old \<union> set (map snd new)) \<union> set (bt_keys cells). t < hci_next_ticket http'"
  proof
    fix t assume "t \<in> (old \<union> set (map snd new)) \<union> set (bt_keys cells)"
    then consider "t \<in> old \<union> set (bt_keys cells)" | "t \<in> set (map snd new)" by blast
    then show "t < hci_next_ticket http'"
    proof cases
      case 1
      then have "t < hci_next_ticket http" using lt by blast
      with new(2) show ?thesis by simp
    next
      case 2
      with n(1) show ?thesis by simp
    qed
  qed
  ultimately show ?thesis unfolding http_wf_def all by blast
qed

lemma http_wf_keys:
  "http_wf pending http cells \<Longrightarrow> set (bt_keys cells') \<subseteq> set (bt_keys cells) \<Longrightarrow> http_wf pending http cells'"
  by (auto simp: http_wf_def)

lemma keys_deliver: "set (bt_keys (deliver answers cells)) = set (map fst answers) \<union> set (bt_keys cells)"
  by (induction answers arbitrary: cells) (auto simp: deliver_def)

text \<open>A poll of the connection moves tickets from pending and queued to answered.\<close>

lemma stream_poll_in_order:
  assumes "http_syntax_ok H" "stream_poll H http stream script = (r, http', stream', script', answers)"
  shows "pending_tickets (rst_connection_state stream) @ map snd (hci_requests http)
    = map fst answers @ pending_tickets (rst_connection_state stream') @ map snd (hci_requests http')"
proof -
  obtain st where rp: "reconnecting_poll H (rst_host stream) http (rst_connection_state stream) script []
      = (r, http', st, script', answers)" "stream' = stream\<lparr>rst_connection_state := st\<rparr>"
    using assms(2) by (auto simp: stream_poll_def split: prod.splits)
  then show ?thesis using reconnecting_poll_step [OF assms(1) rp(1)] by auto
qed

lemma http_wf_poll:
  assumes "http_syntax_ok H" and wf: "http_wf (pending_tickets (rst_connection_state stream)) http cells"
    and poll: "stream_poll H http stream script = (r, http', stream', script', answers)"
  shows "http_wf (pending_tickets (rst_connection_state stream')) http' (deliver answers cells)"
    "hci_next_ticket http' = hci_next_ticket http"
proof -
  obtain st where rp: "reconnecting_poll H (rst_host stream) http (rst_connection_state stream) script []
      = (r, http', st, script', answers)" "stream' = stream\<lparr>rst_connection_state := st\<rparr>"
    using poll by (auto simp: stream_poll_def split: prod.splits)
  note s = reconnecting_poll_step [OF assms(1) rp(1)]
  show n: "hci_next_ticket http' = hci_next_ticket http" using s by auto
  note eq = stream_poll_in_order [OF assms(1) poll, unfolded rp(2) reconnecting_stream.simps]
  show "http_wf (pending_tickets (rst_connection_state stream')) http' (deliver answers cells)"
    using wf unfolding http_wf_def eq keys_deliver n rp(2) by auto
qed

end
