(* ===== verification/Matrix_Client.thy ===== *)
theory Matrix_Client
  imports Matrix_Models Http_Client
begin

text \<open>
  \<open>src/matrix/sync.rs\<close> and \<open>src/matrix/mod.rs\<close>: the long-poll loop for sync responses and the client
  that keeps the rooms, filters its own messages and posts requests. The crates \<open>url\<close>,
  \<open>percent_encoding\<close> and \<open>serde_json\<close> are parameters: \<open>'u\<close> is \<open>Url\<close>, \<open>'j\<close> is \<open>Value\<close>, and the
  operations the program calls are the fields of \<open>url_ops\<close> and \<open>json_ops\<close>. Outcomes of oneshots that
  have been sent and not yet received are a map from tickets.
\<close>

section \<open>Parameters\<close>

record 'u url_ops =
  uo_host_str :: "'u \<Rightarrow> rstr option"
  uo_port_or_known_default :: "'u \<Rightarrow> 16 word option"
  uo_scheme :: "'u \<Rightarrow> rstr"
  uo_join :: "'u \<Rightarrow> rstr \<Rightarrow> 'u option"
  uo_path :: "'u \<Rightarrow> rstr"
  uo_query :: "'u \<Rightarrow> rstr option"
  uo_set_query :: "'u \<Rightarrow> (rstr \<times> rstr) list \<Rightarrow> 'u"
  uo_string :: "'u \<Rightarrow> rstr"
  uo_percent_encode :: "u8 list \<Rightarrow> rstr"

record login_response =
  lr_access_token :: rstr
  lr_device_id :: rstr
  lr_home_server :: rstr
  lr_user_id :: rstr

record room_join_response =
  rj_room_id :: rstr

record room_send_response =
  rsr_event_id :: rstr

record login_password_input =
  lp_user :: rstr
  lp_password :: rstr
  lp_login_type :: rstr

record room_send_input =
  ri_msgtype :: rstr
  ri_body :: rstr

record 'j json_ops =
  jo_parse_sync :: "u8 list \<Rightarrow> rstr + 'j sync_response"
  jo_parse_login :: "u8 list \<Rightarrow> rstr + login_response"
  jo_parse_join :: "u8 list \<Rightarrow> rstr + room_join_response"
  jo_parse_send :: "u8 list \<Rightarrow> rstr + room_send_response"
  jo_login_to_vec :: "login_password_input \<Rightarrow> u8 list option"
  jo_send_to_vec :: "room_send_input \<Rightarrow> u8 list option"
  jo_join_to_vec :: "u8 list option"

text \<open>Receiving from a oneshot takes what was sent.\<close>

definition receive :: "ticket \<Rightarrow> oneshots \<Rightarrow> (exn + response async) \<times> oneshots" where
  "receive t cells = (response_future_poll (bt_get cells t), bt_remove t cells)"

section \<open>The sync loop\<close>

record 'u matrix_sync_client =
  msc_url :: 'u
  msc_access_token :: rstr
  msc_next_token :: "rstr option"
  msc_http_stream :: http_client_inner
  msc_current_sync :: "ticket option"

definition sync_filter :: rstr where
  "sync_filter = lit ''{\"presence\":{\"not_types\":[\"m.presence\"]}}''"

definition sync_query :: "rstr \<Rightarrow> rstr option \<Rightarrow> (rstr \<times> rstr) list" where
  "sync_query access_token next_token =
     [(lit ''access_token'', access_token), (lit ''filter'', sync_filter),
      (lit ''timeout'', lit ''30000'')]
     @ (case next_token of Some token \<Rightarrow> [(lit ''since'', token)] | None \<Rightarrow> [])"

definition url_path_and_query :: "'u url_ops \<Rightarrow> 'u \<Rightarrow> rstr" where
  "url_path_and_query U url = uo_path U url @ lit ''?'' @ unwrap_or [] (uo_query U url)"

definition start_sync :: "'u url_ops \<Rightarrow> 'u matrix_sync_client \<Rightarrow> 'u matrix_sync_client" where
  "start_sync U c =
     (let url = uo_set_query U (msc_url c) (sync_query (msc_access_token c) (msc_next_token c));
          (t, http, _) = send_request
            \<lparr>rq_method = lit ''GET'', rq_path = url_path_and_query U url, rq_headers = [], rq_body = []\<rparr>
            (msc_http_stream c)
      in c\<lparr>msc_url := url, msc_http_stream := http, msc_current_sync := Some t\<rparr>)"

lemma bt_remove_shorter:
  "bt_get m k = Some v \<Longrightarrow> length (bt_remove k m) < length m"
  unfolding bt_remove_def by (rule length_filter_less [of "(k, v)"]) (auto dest: bt_get_SomeD)

lemma receive_shorter:
  "(Inl e, cells') = receive t cells \<Longrightarrow> length cells' < length cells"
  by (auto simp: receive_def response_future_poll_def bt_remove_shorter split: option.splits sum.splits)

function sync_client_poll ::
  "'u url_ops \<Rightarrow> 'j json_ops \<Rightarrow> 'u matrix_sync_client \<Rightarrow> oneshots \<Rightarrow>
     (exn + 'j sync_response async) \<times> 'u matrix_sync_client \<times> oneshots" where
  "sync_client_poll U J c cells =
     (case msc_current_sync c of
        None \<Rightarrow> sync_client_poll U J (start_sync U c) cells
      | Some current_sync \<Rightarrow>
          (case receive current_sync cells of
             (Inr NotReady, _) \<Rightarrow> (Inr NotReady, c, cells)
           | (Inl _, cells') \<Rightarrow> sync_client_poll U J (c\<lparr>msc_current_sync := None\<rparr>) cells'
           | (Inr (Ready response), cells') \<Rightarrow>
               (let c1 = c\<lparr>msc_current_sync := None\<rparr> in
                if rp_code response \<noteq> 200 then
                  (Inl (IoErr (IoError Other (lit ''Sync returned '' @ decimal (unat (rp_code response))))),
                   c1, cells')
                else
                  (case jo_parse_sync J (rp_data response) of
                     Inl e \<Rightarrow>
                       (Inl (IoErr (IoError Other (lit ''Sync returned invalid JSON: '' @ e))), c1, cells')
                   | Inr sync_response \<Rightarrow>
                       (Inr (Ready sync_response),
                        c1\<lparr>msc_next_token := Some (sr_next_batch sync_response)\<rparr>, cells')))))"
  by pat_completeness auto
termination
  by (relation "measure (\<lambda>(U, J, c, cells).
      2 * length cells + (if msc_current_sync c = None then 1 else 0))")
    (auto simp: start_sync_def Let_def dest!: receive_shorter split: prod.splits)

declare sync_client_poll.simps [simp del]

section \<open>The client\<close>

record ('u, 'j) matrix_client =
  mc_url :: 'u
  mc_user_id :: rstr
  mc_access_token :: rstr
  mc_sync_client :: "'u matrix_sync_client"
  mc_rooms :: "(rstr, 'j matrix_room) btree"
  mc_http_stream :: http_client_inner

text \<open>
  The host, port and kind of connection of a base address, as \<open>MatrixClient::login\<close> and
  \<open>MatrixSyncClient::new\<close> both take them from it.
\<close>

definition http_target_of :: "'u url_ops \<Rightarrow> 'u \<Rightarrow> exn + http_target" where
  "http_target_of U base_url =
     (case uo_host_str U base_url of
        None \<Rightarrow> Inl (Panic ''expected host in base_url'')
      | Some host \<Rightarrow>
          (case uo_port_or_known_default U base_url of
             None \<Rightarrow> Inl (Panic ''called `Option::unwrap()` on a `None` value'')
           | Some port \<Rightarrow>
               if uo_scheme U base_url = lit ''http'' then
                 Inr \<lparr>ht_host = host, ht_port = port, ht_tls = False\<rparr>
               else if uo_scheme U base_url = lit ''https'' then
                 Inr \<lparr>ht_host = host, ht_port = port, ht_tls = True\<rparr>
               else Inl (Panic ''Unrecognized scheme'')))"

definition http_client_of :: "http_target \<Rightarrow> http_client_inner \<times> reconnecting_stream" where
  "http_client_of target = http_client_new (ht_host target) (ht_port target) (ht_tls target)"

text \<open>A new client comes with the task of its connection.\<close>

definition matrix_sync_client_new ::
  "'u url_ops \<Rightarrow> 'u \<Rightarrow> rstr \<Rightarrow> exn + ('u matrix_sync_client \<times> reconnecting_stream)" where
  "matrix_sync_client_new U base_url access_token =
     (case http_target_of U base_url of
        Inl e \<Rightarrow> Inl e
      | Inr target \<Rightarrow>
          (case uo_join U base_url (lit ''/_matrix/client/r0/sync'') of
             None \<Rightarrow> Inl (Panic ''called `Result::unwrap()` on an `Err` value'')
           | Some url \<Rightarrow>
               (let (http, stream) = http_client_of target
                in Inr (\<lparr>msc_url = url, msc_access_token = access_token, msc_next_token = None,
                      msc_http_stream = http, msc_current_sync = None\<rparr>, stream))))"

definition matrix_client_new ::
  "'u url_ops \<Rightarrow> http_client_inner \<Rightarrow> 'u \<Rightarrow> rstr \<Rightarrow> rstr \<Rightarrow>
     exn + (('u, 'j) matrix_client \<times> reconnecting_stream)" where
  "matrix_client_new U http_stream base_url user_id access_token =
     (case matrix_sync_client_new U base_url access_token of
        Inl e \<Rightarrow> Inl e
      | Inr (sync_client, stream) \<Rightarrow>
          Inr (\<lparr>mc_url = base_url, mc_user_id = user_id, mc_access_token = access_token,
                mc_sync_client = sync_client, mc_rooms = bt_empty, mc_http_stream = http_stream\<rparr>, stream))"

datatype json_post_error = JIo io_error | ErrorResponse "16 word"

definition into_io_error :: "json_post_error \<Rightarrow> io_error" where
  "into_io_error e =
     (case e of
        JIo err \<Rightarrow> err
      | ErrorResponse code \<Rightarrow> IoError Other (lit ''Received '' @ decimal (unat code) @ lit '' response''))"

text \<open>
  \<open>do_json_post\<close>: the request is queued at once; what its future makes of the response is a
  function of the response.
\<close>

definition json_post_request :: "'u url_ops \<Rightarrow> rstr \<Rightarrow> 'u \<Rightarrow> u8 list \<Rightarrow> request" where
  "json_post_request U method url body =
     \<lparr>rq_method = method, rq_path = url_path_and_query U url,
      rq_headers = [(lit ''Content-Type'', lit ''application/json'')], rq_body = body\<rparr>"

definition do_json_post ::
  "'u url_ops \<Rightarrow> rstr \<Rightarrow> http_client_inner \<Rightarrow> 'u \<Rightarrow> u8 list option \<Rightarrow> exn + (ticket \<times> http_client_inner)" where
  "do_json_post U method stream url input =
     (case input of
        None \<Rightarrow> Inl (Panic ''input to be valid json'')
      | Some body \<Rightarrow>
          (let (t, stream', _) = send_request (json_post_request U method url body) stream
           in Inr (t, stream')))"

definition json_post_result :: "(u8 list \<Rightarrow> rstr + 'o) \<Rightarrow> outcome option \<Rightarrow> json_post_error + 'o" where
  "json_post_result from_slice result =
     (case result of
        None \<Rightarrow> Inl (JIo (IoError Other (lit ''stream went away'')))
      | Some (Inl e) \<Rightarrow> Inl (JIo e)
      | Some (Inr resp) \<Rightarrow>
          if rp_code resp \<noteq> 200 then Inl (ErrorResponse (rp_code resp))
          else
            (case from_slice (rp_data resp) of
               Inl e \<Rightarrow> Inl (JIo (IoError InvalidData (lit ''invalid json response: '' @ e)))
             | Inr x \<Rightarrow> Inr x))"

datatype login_error = LoginIo io_error | InvalidPassword

text \<open>\<open>login\<close>: the request, and what becomes of its response.\<close>

definition login_request ::
  "'u url_ops \<Rightarrow> 'j json_ops \<Rightarrow> 'u \<Rightarrow> rstr \<Rightarrow> rstr \<Rightarrow>
     exn + (ticket \<times> http_client_inner \<times> reconnecting_stream)" where
  "login_request U J base_url user password =
     (case http_target_of U base_url of
        Inl e \<Rightarrow> Inl e
      | Inr target \<Rightarrow>
          (let (http_stream, stream) = http_client_of target in
           case uo_join U base_url (lit ''/_matrix/client/r0/login'') of
             None \<Rightarrow> Inl (Panic ''called `Result::unwrap()` on an `Err` value'')
           | Some url \<Rightarrow>
               (case do_json_post U (lit ''POST'') http_stream url
                   (jo_login_to_vec J \<lparr>lp_user = user, lp_password = password,
                      lp_login_type = lit ''m.login.password''\<rparr>) of
                  Inl e \<Rightarrow> Inl e
                | Inr (t, http_stream') \<Rightarrow> Inr (t, http_stream', stream))))"

definition login_map_err :: "json_post_error \<Rightarrow> login_error" where
  "login_map_err err =
     (case err of
        JIo e \<Rightarrow> LoginIo e
      | ErrorResponse code \<Rightarrow>
          if code = 401 \<or> code = 403 then InvalidPassword
          else LoginIo (IoError Other (lit ''Got '' @ decimal (unat code) @ lit '' response'')))"

definition login_finish_response ::
  "'u url_ops \<Rightarrow> 'j json_ops \<Rightarrow> 'u \<Rightarrow> http_client_inner \<Rightarrow> outcome option \<Rightarrow>
     exn + (login_error + (('u, 'j) matrix_client \<times> reconnecting_stream))" where
  "login_finish_response U J base_url http_stream result =
     (case json_post_result (jo_parse_login J) result of
        Inl err \<Rightarrow> Inr (Inl (login_map_err err))
      | Inr response \<Rightarrow>
          map_sum id Inr
            (matrix_client_new U http_stream base_url (lr_user_id response) (lr_access_token response)))"

text \<open>Requests of a session. The random message id of \<open>send_text_message\<close> is an argument.\<close>

definition token_query :: "('u, 'j) matrix_client \<Rightarrow> (rstr \<times> rstr) list" where
  "token_query c = [(lit ''access_token'', mc_access_token c)]"

definition send_text_message ::
  "'u url_ops \<Rightarrow> 'j json_ops \<Rightarrow> 16 word \<Rightarrow> rstr \<Rightarrow> rstr \<Rightarrow> rstr \<Rightarrow> ('u, 'j) matrix_client \<Rightarrow>
     exn + (ticket \<times> ('u, 'j) matrix_client)" where
  "send_text_message U J msg_id room_id body msgtype c =
     (case uo_join U (mc_url c) (lit ''/_matrix/client/r0/rooms/'' @ room_id
         @ lit ''/send/m.room.message/mircd-'' @ decimal (unat msg_id)) of
        None \<Rightarrow> Inl (Panic ''Unable to construct a valid API url'')
      | Some url \<Rightarrow>
          (case do_json_post U (lit ''PUT'') (mc_http_stream c) (uo_set_query U url (token_query c))
              (jo_send_to_vec J \<lparr>ri_msgtype = msgtype, ri_body = body\<rparr>) of
             Inl e \<Rightarrow> Inl e
           | Inr (t, http) \<Rightarrow> Inr (t, c\<lparr>mc_http_stream := http\<rparr>)))"

definition join_room ::
  "'u url_ops \<Rightarrow> 'j json_ops \<Rightarrow> rstr \<Rightarrow> ('u, 'j) matrix_client \<Rightarrow>
     exn + (ticket \<times> ('u, 'j) matrix_client)" where
  "join_room U J room_id c =
     (case uo_join U (mc_url c)
         (lit ''/_matrix/client/r0/join/'' @ uo_percent_encode U (utf8_bytes room_id)) of
        None \<Rightarrow> Inl (Panic ''Unable to construct a valid API url'')
      | Some url \<Rightarrow>
          (case do_json_post U (lit ''POST'') (mc_http_stream c) (uo_set_query U url (token_query c))
              (jo_join_to_vec J) of
             Inl e \<Rightarrow> Inl e
           | Inr (t, http) \<Rightarrow> Inr (t, c\<lparr>mc_http_stream := http\<rparr>)))"

definition get_room :: "('u, 'j) matrix_client \<Rightarrow> rstr \<Rightarrow> 'j matrix_room option" where
  "get_room c room_id = bt_get (mc_rooms c) room_id"

text \<open>The capture of \<open>^mxc://([^/]+/[^/]+)$\<close>: a non-empty part on either side of the one slash.\<close>

definition mxc_capture :: "rstr \<Rightarrow> rstr option" where
  "mxc_capture url =
     (case strip_prefix (lit ''mxc://'') url of
        None \<Rightarrow> None
      | Some rest \<Rightarrow>
          (case split_on 47 rest of
             [server, media] \<Rightarrow> if server \<noteq> [] \<and> media \<noteq> [] then Some rest else None
           | _ \<Rightarrow> None))"

definition media_url :: "'u url_ops \<Rightarrow> ('u, 'j) matrix_client \<Rightarrow> rstr \<Rightarrow> exn + rstr" where
  "media_url U c url =
     (case mxc_capture url of
        None \<Rightarrow> Inr url
      | Some captured \<Rightarrow>
          (case uo_join U (mc_url c) (lit ''/_matrix/media/v1/download/'') of
             None \<Rightarrow> Inl (Panic ''called `Result::unwrap()` on an `Err` value'')
           | Some base \<Rightarrow>
               (case uo_join U base captured of
                  None \<Rightarrow> Inl (Panic ''called `Result::unwrap()` on an `Err` value'')
                | Some u \<Rightarrow> Inr (uo_string U u))))"

section \<open>Applying a sync response\<close>

definition own_echo :: "'j event \<Rightarrow> bool" where
  "own_echo ev \<longleftrightarrow>
     (case eu_transaction_id (ev_unsigned ev) of
        Some txn_id \<Rightarrow> starts_with (lit ''mircd-'') txn_id
      | None \<Rightarrow> False)"

definition retain_foreign :: "'j joined_room_sync_response \<Rightarrow> 'j joined_room_sync_response" where
  "retain_foreign sync =
     sync\<lparr>jr_timeline := (jr_timeline sync)
       \<lparr>tl_events := filter (\<lambda>ev. \<not> own_echo ev) (tl_events (jr_timeline sync))\<rparr>\<rparr>"

fun apply_rooms ::
  "'j value_ops \<Rightarrow> (rstr \<times> 'j joined_room_sync_response) list \<Rightarrow> (rstr, 'j matrix_room) btree \<Rightarrow>
     exn + (rstr, 'j matrix_room) btree" where
  "apply_rooms V [] rooms = Inr rooms"
| "apply_rooms V ((room_id, sync) # r) rooms =
     (case (case bt_get rooms room_id of
              Some room \<Rightarrow> update_from_sync V (retain_foreign sync) room
            | None \<Rightarrow> from_sync V room_id (retain_foreign sync)) of
        Inl e \<Rightarrow> Inl e
      | Inr room' \<Rightarrow> apply_rooms V r (bt_insert room_id room' rooms))"

definition retain_response :: "'j sync_response \<Rightarrow> 'j sync_response" where
  "retain_response resp =
     resp\<lparr>sr_rooms := (sr_rooms resp)
       \<lparr>rs_join := map (\<lambda>(room_id, sync). (room_id, retain_foreign sync)) (rs_join (sr_rooms resp))\<rparr>\<rparr>"

definition matrix_poll_sync ::
  "'u url_ops \<Rightarrow> 'j json_ops \<Rightarrow> 'j value_ops \<Rightarrow> ('u, 'j) matrix_client \<Rightarrow> oneshots \<Rightarrow>
     (exn + 'j sync_response option async) \<times> ('u, 'j) matrix_client \<times> oneshots" where
  "matrix_poll_sync U J V c cells =
     (case sync_client_poll U J (mc_sync_client c) cells of
        (Inl e, sc, cells') \<Rightarrow> (Inl e, c\<lparr>mc_sync_client := sc\<rparr>, cells')
      | (Inr NotReady, sc, cells') \<Rightarrow> (Inr NotReady, c\<lparr>mc_sync_client := sc\<rparr>, cells')
      | (Inr (Ready resp), sc, cells') \<Rightarrow>
          (case apply_rooms V (rs_join (sr_rooms resp)) (mc_rooms c) of
             Inl e \<Rightarrow> (Inl e, c\<lparr>mc_sync_client := sc\<rparr>, cells')
           | Inr rooms \<Rightarrow>
               (Inr (Ready (Some (retain_response resp))),
                c\<lparr>mc_sync_client := sc, mc_rooms := rooms\<rparr>, cells')))"

section \<open>One request at a time\<close>

text \<open>No outcome is there for a ticket that has not been given out.\<close>

definition tickets_fresh :: "http_client_inner \<Rightarrow> oneshots \<Rightarrow> bool" where
  "tickets_fresh http cells \<longleftrightarrow> (\<forall>t \<ge> hci_next_ticket http. bt_get cells t = None)"

definition sync_request :: "'u url_ops \<Rightarrow> 'u matrix_sync_client \<Rightarrow> request" where
  "sync_request U c =
     \<lparr>rq_method = lit ''GET'',
      rq_path = url_path_and_query U
        (uo_set_query U (msc_url c) (sync_query (msc_access_token c) (msc_next_token c))),
      rq_headers = [], rq_body = []\<rparr>"

lemma start_sync_simps [simp]:
  "msc_current_sync (start_sync U c) = Some (hci_next_ticket (msc_http_stream c))"
  "msc_next_token (start_sync U c) = msc_next_token c"
  "msc_access_token (start_sync U c) = msc_access_token c"
  "hci_requests (msc_http_stream (start_sync U c)) =
     hci_requests (msc_http_stream c) @ [(sync_request U c, hci_next_ticket (msc_http_stream c))]"
  "hci_next_ticket (msc_http_stream (start_sync U c)) = Suc (hci_next_ticket (msc_http_stream c))"
  by (simp_all add: start_sync_def send_request_def sync_request_def Let_def)

lemma sync_poll_start:
  assumes "msc_current_sync c = None" "tickets_fresh (msc_http_stream c) cells"
  shows "sync_client_poll U J c cells = (Inr NotReady, start_sync U c, cells)"
proof -
  have "receive (hci_next_ticket (msc_http_stream c)) cells
      = (Inr NotReady, bt_remove (hci_next_ticket (msc_http_stream c)) cells)"
    using assms(2) by (simp add: receive_def response_future_poll_def tickets_fresh_def)
  then show ?thesis
    using assms(1)
    by (simp add: sync_client_poll.simps [of U J c] sync_client_poll.simps [of U J "start_sync U c"])
qed

text \<open>What the poll makes of the outcome of the request that is under way.\<close>

definition sync_result :: "'j json_ops \<Rightarrow> response \<Rightarrow> exn + 'j sync_response async" where
  "sync_result J response =
     (if rp_code response \<noteq> 200 then
        Inl (IoErr (IoError Other (lit ''Sync returned '' @ decimal (unat (rp_code response)))))
      else
        (case jo_parse_sync J (rp_data response) of
           Inl e \<Rightarrow> Inl (IoErr (IoError Other (lit ''Sync returned invalid JSON: '' @ e)))
         | Inr sync_response \<Rightarrow> Inr (Ready sync_response)))"

lemma sync_poll_current:
  assumes "msc_current_sync c = Some t"
  shows "bt_get cells t = None \<Longrightarrow> sync_client_poll U J c cells = (Inr NotReady, c, cells)"
    "bt_get cells t = Some (Some (Inr response)) \<Longrightarrow>
       \<exists>c'. sync_client_poll U J c cells = (sync_result J response, c', bt_remove t cells)
         \<and> msc_current_sync c' = None \<and> msc_http_stream c' = msc_http_stream c
         \<and> msc_next_token c' = (case sync_result J response of
             Inr (Ready r) \<Rightarrow> Some (sr_next_batch r) | _ \<Rightarrow> msc_next_token c)"
    "bt_get cells t = Some None \<or> bt_get cells t = Some (Some (Inl e)) \<Longrightarrow>
       sync_client_poll U J c cells = sync_client_poll U J (c\<lparr>msc_current_sync := None\<rparr>) (bt_remove t cells)"
  using assms
  by (auto simp: sync_client_poll.simps [of U J c cells] receive_def response_future_poll_def
      sync_result_def Let_def split: sum.splits)

definition sync_poll_step ::
  "'u url_ops \<Rightarrow> 'u matrix_sync_client \<Rightarrow> exn + 'j sync_response async \<Rightarrow> 'u matrix_sync_client \<Rightarrow> oneshots \<Rightarrow> bool" where
  "sync_poll_step U c r c' cells' \<longleftrightarrow>
     tickets_fresh (msc_http_stream c') cells'
     \<and> (\<exists>new. hci_requests (msc_http_stream c') = hci_requests (msc_http_stream c) @ new
          \<and> hci_next_ticket (msc_http_stream c') = hci_next_ticket (msc_http_stream c) + length new
          \<and> (new = [] \<or> new = [(sync_request U c, hci_next_ticket (msc_http_stream c))]))
     \<and> (case r of
          Inr NotReady \<Rightarrow> msc_next_token c' = msc_next_token c
            \<and> (\<exists>t. msc_current_sync c' = Some t \<and> bt_get cells' t = None)
        | Inr (Ready resp) \<Rightarrow> msc_next_token c' = Some (sr_next_batch resp) \<and> msc_current_sync c' = None
        | Inl e \<Rightarrow> (\<exists>x. e = IoErr x) \<and> msc_next_token c' = msc_next_token c \<and> msc_current_sync c' = None)"

lemma sync_request_current [simp]: "sync_request U (c\<lparr>msc_current_sync := x\<rparr>) = sync_request U c"
  by (simp add: sync_request_def)

lemma tickets_fresh_remove: "tickets_fresh http cells \<Longrightarrow> tickets_fresh http (bt_remove t cells)"
  by (simp add: tickets_fresh_def)

lemma tickets_fresh_start:
  "tickets_fresh (msc_http_stream c) cells \<Longrightarrow> tickets_fresh (msc_http_stream (start_sync U c)) cells"
  by (simp add: tickets_fresh_def)

lemma sync_poll_start_step:
  assumes "msc_current_sync c = None" "tickets_fresh (msc_http_stream c) cells"
    "sync_client_poll U J c cells = (r, c', cells')"
  shows "sync_poll_step U c r c' cells'"
  using assms(3) tickets_fresh_start [OF assms(2), of U] assms(2)
  by (auto simp: sync_poll_start [OF assms(1,2)] sync_poll_step_def tickets_fresh_def)

lemma sync_client_poll_step:
  assumes fresh: "tickets_fresh (msc_http_stream c) cells"
    and poll: "sync_client_poll U J c cells = (r, c', cells')"
  shows "sync_poll_step U c r c' cells'"
proof (cases "msc_current_sync c")
  case None
  then show ?thesis using fresh poll by (rule sync_poll_start_step)
next
  case (Some t)
  note cur = sync_poll_current [OF Some]
  consider "bt_get cells t = None" | response where "bt_get cells t = Some (Some (Inr response))"
    | e where "bt_get cells t = Some None \<or> bt_get cells t = Some (Some (Inl e))"
    by (metis old.sum.exhaust option.exhaust)
  then show ?thesis
  proof cases
    case 1
    with poll cur(1) [OF 1, of U J] Some fresh show ?thesis by (auto simp: sync_poll_step_def)
  next
    case (2 response)
    from cur(2) [OF 2, of U J] poll fresh show ?thesis
      by (auto simp: sync_poll_step_def sync_result_def tickets_fresh_remove split: sum.splits if_splits)
  next
    case (3 e)
    from cur(3) [OF 3, of U J] poll
    have "sync_client_poll U J (c\<lparr>msc_current_sync := None\<rparr>) (bt_remove t cells) = (r, c', cells')" by simp
    from sync_poll_start_step [OF _ _ this] fresh show ?thesis
      by (auto simp: tickets_fresh_remove sync_poll_step_def split: sum.splits async.splits)
  qed
qed

text \<open>The three ways a poll goes, by the request that is under way.\<close>

lemma sync_client_poll_cases:
  assumes fresh: "tickets_fresh (msc_http_stream c) cells"
    and poll: "sync_client_poll U J c cells = (r, c', cells')"
  shows "case (case msc_current_sync c of None \<Rightarrow> Some None | Some t \<Rightarrow> bt_get cells t) of
      None \<Rightarrow> r = Inr NotReady \<and> c' = c \<and> cells' = cells
    | Some (Some (Inr response)) \<Rightarrow>
        r = sync_result J response \<and> msc_current_sync c' = None \<and> msc_http_stream c' = msc_http_stream c
        \<and> cells' = bt_remove (the (msc_current_sync c)) cells
        \<and> msc_next_token c' = (case sync_result J response of
             Inr (Ready r) \<Rightarrow> Some (sr_next_batch r) | _ \<Rightarrow> msc_next_token c)
    | _ \<Rightarrow>
        r = Inr NotReady \<and> msc_next_token c' = msc_next_token c \<and> msc_access_token c' = msc_access_token c
        \<and> msc_current_sync c' = Some (hci_next_ticket (msc_http_stream c))
        \<and> hci_next_ticket (msc_http_stream c') = Suc (hci_next_ticket (msc_http_stream c))
        \<and> hci_requests (msc_http_stream c') =
            hci_requests (msc_http_stream c) @ [(sync_request U c, hci_next_ticket (msc_http_stream c))]
        \<and> cells' = (case msc_current_sync c of None \<Rightarrow> cells | Some t \<Rightarrow> bt_remove t cells)"
proof (cases "msc_current_sync c")
  case None
  with poll sync_poll_start [OF None fresh, of U J] show ?thesis by auto
next
  case (Some t)
  note cur = sync_poll_current [OF Some]
  have start: "r = Inr NotReady \<and> c' = start_sync U (c\<lparr>msc_current_sync := None\<rparr>) \<and> cells' = bt_remove t cells"
    if "bt_get cells t = Some None \<or> bt_get cells t = Some (Some (Inl e))" for e
    using poll unfolding cur(3) [OF that]
    by (subst (asm) sync_poll_start) (use fresh in \<open>auto simp: tickets_fresh_remove\<close>)
  show ?thesis
  proof (cases "bt_get cells t")
    case None
    with Some poll cur(1) [OF None, of U J] show ?thesis by simp
  next
    case (Some v)
    show ?thesis
    proof (cases v)
      case None
      with start [of undefined] Some \<open>msc_current_sync c = Some t\<close> show ?thesis by simp
    next
      case (Some w)
      with start \<open>bt_get cells t = Some v\<close> \<open>msc_current_sync c = Some t\<close> cur(2) [where U = U and J = J] poll
      show ?thesis by (cases w) (simp, fastforce)
    qed
  qed
qed

section \<open>The rooms of a session\<close>

definition rooms_inv :: "(rstr, 'j matrix_room) btree \<Rightarrow> bool" where
  "rooms_inv rooms \<longleftrightarrow> bt_wf rooms
     \<and> (\<forall>r room. bt_get rooms r = Some room \<longrightarrow> rm_room_id room = r \<and> room_inv room)"

lemma retain_foreign_state [simp]: "jr_state (retain_foreign sync) = jr_state sync"
  by (simp add: retain_foreign_def)

lemma rooms_inv_insert:
  "rooms_inv rooms \<Longrightarrow> rm_room_id room = r \<Longrightarrow> room_inv room \<Longrightarrow> rooms_inv (bt_insert r room rooms)"
  by (simp add: rooms_inv_def)

lemma from_sync_room_id: "from_sync V room_id resp = Inr room \<Longrightarrow> rm_room_id room = room_id"
  by (auto simp: from_sync_eq split: if_splits)

lemma apply_rooms_spec:
  "rooms_inv rooms \<Longrightarrow> apply_rooms V joins rooms = Inr rooms' \<Longrightarrow>
     rooms_inv rooms' \<and> set (bt_keys rooms') = set (bt_keys rooms) \<union> fst ` set joins"
proof (induction V joins rooms rule: apply_rooms.induct)
  case (2 V room_id sync r rooms)
  show ?case
  proof (cases "bt_get rooms room_id")
    case None
    with "2.prems" obtain room' where f: "from_sync V room_id (retain_foreign sync) = Inr room'"
      "apply_rooms V r (bt_insert room_id room' rooms) = Inr rooms'"
      by (auto split: sum.splits)
    moreover have "rooms_inv (bt_insert room_id room' rooms)"
      using "2.prems"(1) f(1) by (intro rooms_inv_insert room_inv_from_sync from_sync_room_id)
    ultimately show ?thesis using "2.IH" [of room'] None by auto
  next
    case (Some room)
    with "2.prems" obtain room' where f: "update_from_sync V (retain_foreign sync) room = Inr room'"
      "apply_rooms V r (bt_insert room_id room' rooms) = Inr rooms'"
      by (auto split: sum.splits)
    have room: "rm_room_id room = room_id" "room_inv room"
      using Some "2.prems"(1) by (auto simp: rooms_inv_def)
    have "rooms_inv (bt_insert room_id room' rooms)"
      using "2.prems"(1) f(1) room update_from_sync_state [OF f(1)]
      by (intro rooms_inv_insert) (auto intro: room_inv_update)
    then show ?thesis using f "2.IH" [of room'] Some by auto
  qed
qed simp

lemma apply_rooms_ok:
  "(\<exists>rooms'. apply_rooms V joins rooms = Inr rooms')
     \<longleftrightarrow> (\<forall>(r, sync) \<in> set joins. all_keyed (st_events (jr_state sync)))"
proof (induction V joins rooms rule: apply_rooms.induct)
  case (2 V room_id sync r rooms)
  show ?case
  proof (cases "all_keyed (st_events (jr_state sync))")
    case True
    then obtain room' where "(case bt_get rooms room_id of
        Some room \<Rightarrow> update_from_sync V (retain_foreign sync) room
      | None \<Rightarrow> from_sync V room_id (retain_foreign sync)) = Inr room'"
      using update_from_sync_ok [of V "retain_foreign sync"] from_sync_eq [of V room_id "retain_foreign sync"]
      by (cases "bt_get rooms room_id") auto
    with 2 True show ?thesis by simp
  next
    case False
    then have "\<nexists>room'. (case bt_get rooms room_id of
        Some room \<Rightarrow> update_from_sync V (retain_foreign sync) room
      | None \<Rightarrow> from_sync V room_id (retain_foreign sync)) = Inr room'"
      using update_from_sync_ok [of V "retain_foreign sync"] from_sync_eq [of V room_id "retain_foreign sync"]
      by (cases "bt_get rooms room_id") auto
    with False show ?thesis by (auto split: sum.splits)
  qed
qed simp

text \<open>What the caller is given: the response without the echoes of the bridge's own messages.\<close>

lemma retain_response_join:
  "(r, sync) \<in> set (rs_join (sr_rooms (retain_response resp))) \<longleftrightarrow>
     (\<exists>s. (r, s) \<in> set (rs_join (sr_rooms resp)) \<and> sync = retain_foreign s)"
  by (auto simp: retain_response_def)

lemma retain_foreign_events:
  "tl_events (jr_timeline (retain_foreign sync)) = filter (\<lambda>ev. \<not> own_echo ev) (tl_events (jr_timeline sync))"
  by (simp add: retain_foreign_def)

definition mc_inv :: "('u, 'j) matrix_client \<Rightarrow> oneshots \<Rightarrow> bool" where
  "mc_inv c cells \<longleftrightarrow> rooms_inv (mc_rooms c) \<and> tickets_fresh (msc_http_stream (mc_sync_client c)) cells"

lemma matrix_poll_sync_step:
  assumes inv: "mc_inv c cells" and poll: "matrix_poll_sync U J V c cells = (r, c', cells')"
  shows "mc_inv c' cells'"
    "r = Inr (Ready out) \<Longrightarrow> \<exists>resp. out = Some (retain_response resp)
       \<and> msc_next_token (mc_sync_client c') = Some (sr_next_batch resp)
       \<and> set (bt_keys (mc_rooms c')) = set (bt_keys (mc_rooms c)) \<union> fst ` set (rs_join (sr_rooms resp))"
    "mc_url c' = mc_url c \<and> mc_user_id c' = mc_user_id c \<and> mc_http_stream c' = mc_http_stream c"
proof -
  obtain q sc cells1 where q: "sync_client_poll U J (mc_sync_client c) cells = (q, sc, cells1)"
    by (metis prod_cases3)
  have fr: "tickets_fresh (msc_http_stream (mc_sync_client c)) cells" and ri: "rooms_inv (mc_rooms c)"
    using inv by (simp_all add: mc_inv_def)
  note st = sync_client_poll_step [OF fr q]
  have fr': "tickets_fresh (msc_http_stream sc) cells1" using st by (simp add: sync_poll_step_def)
  note p = poll [unfolded matrix_poll_sync_def q]
  have "mc_inv c' cells' \<and> (r = Inr (Ready out) \<longrightarrow> (\<exists>resp. out = Some (retain_response resp)
       \<and> msc_next_token (mc_sync_client c') = Some (sr_next_batch resp)
       \<and> set (bt_keys (mc_rooms c')) = set (bt_keys (mc_rooms c)) \<union> fst ` set (rs_join (sr_rooms resp))))
    \<and> (mc_url c' = mc_url c \<and> mc_user_id c' = mc_user_id c \<and> mc_http_stream c' = mc_http_stream c)"
  proof (cases "\<exists>resp rooms. q = Inr (Ready resp) \<and> apply_rooms V (rs_join (sr_rooms resp)) (mc_rooms c) = Inr rooms")
    case True
    then obtain resp rooms where t: "q = Inr (Ready resp)"
      "apply_rooms V (rs_join (sr_rooms resp)) (mc_rooms c) = Inr rooms" by blast
    from apply_rooms_spec [OF ri t(2)] p t st fr' show ?thesis
      by (auto simp: mc_inv_def sync_poll_step_def)
  next
    case False
    with p fr' ri show ?thesis
      by (auto simp: mc_inv_def split: sum.splits async.splits)
  qed
  then show "mc_inv c' cells'"
    "r = Inr (Ready out) \<Longrightarrow> \<exists>resp. out = Some (retain_response resp)
       \<and> msc_next_token (mc_sync_client c') = Some (sr_next_batch resp)
       \<and> set (bt_keys (mc_rooms c')) = set (bt_keys (mc_rooms c)) \<union> fst ` set (rs_join (sr_rooms resp))"
    "mc_url c' = mc_url c \<and> mc_user_id c' = mc_user_id c \<and> mc_http_stream c' = mc_http_stream c"
    by simp_all
qed

lemma matrix_poll_sync_foreign:
  assumes "mc_inv c cells" "matrix_poll_sync U J V c cells = (Inr (Ready (Some out)), c', cells')"
  shows "\<forall>(r, sync) \<in> set (rs_join (sr_rooms out)). get_room c' r \<noteq> None
     \<and> list_all (\<lambda>ev. \<not> own_echo ev) (tl_events (jr_timeline sync))"
proof -
  obtain resp where resp: "out = retain_response resp"
    "set (bt_keys (mc_rooms c')) = set (bt_keys (mc_rooms c)) \<union> fst ` set (rs_join (sr_rooms resp))"
    using matrix_poll_sync_step(2) [OF assms, of "Some out"] by auto
  have "get_room c' r \<noteq> None \<and> list_all (\<lambda>ev. \<not> own_echo ev) (tl_events (jr_timeline sync))"
    if "(r, sync) \<in> set (rs_join (sr_rooms out))" for r sync
  proof -
    from that resp(1) obtain s where s: "(r, s) \<in> set (rs_join (sr_rooms resp))" "sync = retain_foreign s"
      by (auto simp: retain_response_join)
    then have "r \<in> set (bt_keys (mc_rooms c'))" using resp(2) by force
    then have "get_room c' r \<noteq> None" by (simp add: get_room_def bt.set_keys)
    with s(2) show ?thesis by (simp add: retain_foreign_events list_all_iff)
  qed
  then show ?thesis by blast
qed

end
