(* ===== verification/Bridge.thy ===== *)
theory Bridge
  imports Mapping_Store Matrix_Client
begin

text \<open>
  \<open>Bridge\<close> of \<open>src/bridge/mod.rs\<close>: what an IRC command does on the Matrix side and what a sync response
  does on the IRC side, the two polling loops, and the closure that runs when a join has an answer.
  The executor of \<open>tasked-futures\<close> decides when these run; \<open>bridge_step\<close> allows every order.
\<close>

section \<open>State\<close>

record ('u, 'j) bridge =
  br_irc_conn :: irc_user_connection
  br_matrix_client :: "('u, 'j) matrix_client"
  br_closed :: bool
  br_mappings :: mapping_store
  br_is_first_sync :: bool
  br_joining_map :: "(rstr, rstr) btree"
  br_joins :: "(ticket \<times> rstr) list"
  br_draws :: nat

text \<open>
  The parameters of a run: the three crates and the numbers \<open>thread_rng\<close> gives. \<open>br_joins\<close> are the
  join futures on the executor's queue with the channel each one captured.
\<close>

record ('u, 'j) crates =
  cr_url :: "'u url_ops"
  cr_json :: "'j json_ops"
  cr_value :: "'j value_ops"
  cr_rng :: "nat \<Rightarrow> 16 word"

section \<open>From IRC to Matrix\<close>

definition handle_privmsg_action :: "rstr \<Rightarrow> rstr \<times> rstr" where
  "handle_privmsg_action text =
     (let emote_content =
        (case strip_prefix (1 # lit ''ACTION'') text of
           None \<Rightarrow> None
         | Some noprefix \<Rightarrow> strip_suffix [1] noprefix)
      in case emote_content of
           Some v \<Rightarrow> (lit ''m.emote'', v)
         | None \<Rightarrow> (lit ''m.text'', text))"

definition handle_irc_cmd ::
  "('u, 'j) crates \<Rightarrow> irc_command \<Rightarrow> ('u, 'j) bridge \<Rightarrow> exn + ('u, 'j) bridge" where
  "handle_irc_cmd K line b =
     (case line of
        PrivMsg channel text \<Rightarrow>
          (case channel_to_room_id (br_mappings b) channel of
             Some room_id \<Rightarrow>
               (let (msgtype, body) = handle_privmsg_action text in
                case send_text_message (cr_url K) (cr_json K) (cr_rng K (br_draws b)) room_id body msgtype
                    (br_matrix_client b) of
                  Inl e \<Rightarrow> Inl e
                | Inr (_, mc) \<Rightarrow> Inr (b\<lparr>br_matrix_client := mc, br_draws := br_draws b + 1\<rparr>))
           | None \<Rightarrow> Inr b)
      | Join channel \<Rightarrow>
          (case join_room (cr_url K) (cr_json K) channel (br_matrix_client b) of
             Inl e \<Rightarrow> Inl e
           | Inr (t, mc) \<Rightarrow>
               Inr (b\<lparr>br_matrix_client := mc, br_joins := br_joins b @ [(t, channel)]\<rparr>))
      | Away message \<Rightarrow>
          Inr (b\<lparr>br_irc_conn := (if message = [] then unaway (br_irc_conn b) else away (br_irc_conn b))\<rparr>)
      | _ \<Rightarrow> Inr b)"

definition join_answered ::
  "rstr \<Rightarrow> room_join_response \<Rightarrow> ('u, 'j) bridge \<Rightarrow> ('u, 'j) bridge" where
  "join_answered channel response b =
     (let room_id = rj_room_id response in
      case room_id_to_channel (br_mappings b) room_id of
        Some mapped_channel \<Rightarrow>
          if mapped_channel = channel then b
          else b\<lparr>br_irc_conn := write_redirect_join channel mapped_channel (br_irc_conn b)\<rparr>
      | None \<Rightarrow> b\<lparr>br_joining_map := bt_insert room_id channel (br_joining_map b)\<rparr>)"

section \<open>From Matrix to IRC\<close>

definition relay_event ::
  "('u, 'j) crates \<Rightarrow> ('u, 'j) matrix_client \<Rightarrow> mapping_store \<Rightarrow> rstr \<Rightarrow> 'j event \<Rightarrow>
     irc_user_connection \<Rightarrow> exn + irc_user_connection" where
  "relay_event K mc mp channel ev c =
     (if ev_etype ev = lit ''m.room.message'' then
        (case get_nick_from_matrix mp (ev_sender ev) of
           None \<Rightarrow> Inr c
         | Some sender_nick \<Rightarrow>
             (case content_str (cr_value K) (ev_content ev) (lit ''body'') of
                None \<Rightarrow> Inr c
              | Some body \<Rightarrow>
                  (case content_str (cr_value K) (ev_content ev) (lit ''msgtype'') of
                     None \<Rightarrow> Inr c
                   | Some msgtype \<Rightarrow>
                       if msgtype = lit ''m.text'' then Inr (send_message channel sender_nick body c)
                       else if msgtype = lit ''m.emote'' then Inr (send_action channel sender_nick body c)
                       else if msgtype = lit ''m.image'' \<or> msgtype = lit ''m.file''
                         \<or> msgtype = lit ''m.video'' \<or> msgtype = lit ''m.audio'' then
                         (case content_str (cr_value K) (ev_content ev) (lit ''url'') of
                            Some url \<Rightarrow>
                              (case media_url (cr_url K) mc url of
                                 Inl e \<Rightarrow> Inl e
                               | Inr u \<Rightarrow> Inr (send_message channel sender_nick u c))
                          | None \<Rightarrow> Inr c)
                       else Inr (send_message channel sender_nick body c))))
      else Inr c)"

fun relay_events ::
  "('u, 'j) crates \<Rightarrow> ('u, 'j) matrix_client \<Rightarrow> mapping_store \<Rightarrow> rstr \<Rightarrow> 'j event list \<Rightarrow>
     irc_user_connection \<Rightarrow> exn + irc_user_connection" where
  "relay_events K mc mp channel [] c = Inr c"
| "relay_events K mc mp channel (ev # evs) c =
     (case relay_event K mc mp channel ev c of
        Inl e \<Rightarrow> Inl e
      | Inr c' \<Rightarrow> relay_events K mc mp channel evs c')"

definition redirect_attempt :: "rstr \<Rightarrow> rstr \<Rightarrow> (rstr, rstr) btree \<Rightarrow> irc_user_connection \<Rightarrow> irc_user_connection" where
  "redirect_attempt room_id channel joining c =
     (case bt_get joining room_id of
        Some attempt_channel \<Rightarrow>
          if attempt_channel \<noteq> channel then write_redirect_join attempt_channel channel c else c
      | None \<Rightarrow> c)"

definition handle_room_sync ::
  "('u, 'j) crates \<Rightarrow> rstr \<Rightarrow> 'j joined_room_sync_response \<Rightarrow> ('u, 'j) bridge \<Rightarrow> exn + ('u, 'j) bridge" where
  "handle_room_sync K room_id sync b =
     (case get_room (br_matrix_client b) room_id of
        None \<Rightarrow> Inr b
      | Some room \<Rightarrow>
          (case create_or_get_channel_name_from_matrix (cr_value K) room (br_mappings b) (br_irc_conn b) of
             Inl e \<Rightarrow> Inl e
           | Inr ((channel, _), mp, c) \<Rightarrow>
               (case relay_events K (br_matrix_client b) mp channel (tl_events (jr_timeline sync))
                   (redirect_attempt room_id channel (br_joining_map b) c) of
                  Inl e \<Rightarrow> Inl e
                | Inr c' \<Rightarrow>
                    Inr (b\<lparr>br_irc_conn := c', br_mappings := mp,
                           br_joining_map := bt_remove room_id (br_joining_map b)\<rparr>))))"

fun handle_room_syncs ::
  "('u, 'j) crates \<Rightarrow> (rstr \<times> 'j joined_room_sync_response) list \<Rightarrow> ('u, 'j) bridge \<Rightarrow>
     exn + ('u, 'j) bridge" where
  "handle_room_syncs K [] b = Inr b"
| "handle_room_syncs K ((room_id, sync) # r) b =
     (case handle_room_sync K room_id sync b of
        Inl e \<Rightarrow> Inl e
      | Inr b' \<Rightarrow> handle_room_syncs K r b')"

definition handle_sync_response ::
  "('u, 'j) crates \<Rightarrow> 'j sync_response \<Rightarrow> ('u, 'j) bridge \<Rightarrow> exn + ('u, 'j) bridge" where
  "handle_sync_response K sync_response b =
     (let b1 = (if br_is_first_sync b
          then b\<lparr>br_irc_conn := send_ping (lit ''HELLO'') (iuc_welcome (br_irc_conn b))\<rparr> else b)
      in case handle_room_syncs K (rs_join (sr_rooms sync_response)) b1 of
           Inl e \<Rightarrow> Inl e
         | Inr b2 \<Rightarrow> Inr (if br_is_first_sync b2 then b2\<lparr>br_is_first_sync := False\<rparr> else b2))"

section \<open>The two loops\<close>

lemma handle_irc_cmd_reader:
  "handle_irc_cmd K line b = Inr b' \<Longrightarrow> keeps_reader (br_irc_conn b) (br_irc_conn b')"
  by (auto simp: handle_irc_cmd_def away_def unaway_def split: irc_command.splits option.splits sum.splits
      prod.splits if_splits)

lemma poll_irc_decreases:
  "(Inr (Ready (Some line)), conn) = iuc_poll c \<Longrightarrow>
     handle_irc_cmd K line (b\<lparr>br_irc_conn := conn\<rparr>) = Inr b' \<Longrightarrow>
     read_size (iuc_conn (br_irc_conn b')) < read_size (iuc_conn c)"
  using iuc_poll_consumes [of c line conn] handle_irc_cmd_reader [of K line "b\<lparr>br_irc_conn := conn\<rparr>" b']
    keeps_reader_size [of conn "br_irc_conn b'"] by simp

function poll_irc_loop ::
  "('u, 'j) crates \<Rightarrow> ('u, 'j) bridge \<Rightarrow> (exn + unit async) \<times> ('u, 'j) bridge" where
  "poll_irc_loop K b =
     (case iuc_poll (br_irc_conn b) of
        (Inl e, conn) \<Rightarrow> (Inl e, b\<lparr>br_irc_conn := conn\<rparr>)
      | (Inr NotReady, conn) \<Rightarrow> (Inr NotReady, b\<lparr>br_irc_conn := conn\<rparr>)
      | (Inr (Ready None), conn) \<Rightarrow> (Inr (Ready ()), b\<lparr>br_irc_conn := conn, br_closed := True\<rparr>)
      | (Inr (Ready (Some line)), conn) \<Rightarrow>
          (case handle_irc_cmd K line (b\<lparr>br_irc_conn := conn\<rparr>) of
             Inl e \<Rightarrow> (Inl e, b\<lparr>br_irc_conn := conn\<rparr>)
           | Inr b' \<Rightarrow> poll_irc_loop K b'))"
  by pat_completeness auto
termination
  by (relation "measure (\<lambda>(K, b). read_size (iuc_conn (br_irc_conn b)))")
    (auto intro: poll_irc_decreases)

declare poll_irc_loop.simps [simp del]

definition poll_irc ::
  "('u, 'j) crates \<Rightarrow> ('u, 'j) bridge \<Rightarrow> (exn + unit async) \<times> ('u, 'j) bridge" where
  "poll_irc K b = (if br_is_first_sync b then (Inr NotReady, b) else poll_irc_loop K b)"

text \<open>Every response takes the outcome of a request out of the oneshots.\<close>

lemma receive_ready_shorter:
  "receive t cells = (Inr (Ready x), cells') \<Longrightarrow> length cells' < length cells"
  by (auto simp: receive_def response_future_poll_def bt_remove_shorter split: option.splits sum.splits)

lemma sync_client_poll_shorter:
  "sync_client_poll U J c cells = (Inr (Ready x), c', cells') \<Longrightarrow> length cells' < length cells"
proof (induction U J c cells rule: sync_client_poll.induct)
  case (1 U J c cells)
  show ?case
  proof (cases "msc_current_sync c")
    case None
    with 1 show ?thesis by (simp add: sync_client_poll.simps [of U J c])
  next
    case (Some t)
    obtain q cells1 where q: "receive t cells = (q, cells1)" by fastforce
    consider e where "q = Inl e" | "q = Inr NotReady" | r where "q = Inr (Ready r)"
      by (metis async.exhaust old.sum.exhaust)
    then show ?thesis
    proof cases
      case (1 e)
      have "length cells1 < length cells" using q 1 receive_shorter [of e cells1 t cells] by simp
      with "1.IH"(2) "1.prems" Some q 1 show ?thesis
        by (fastforce simp: sync_client_poll.simps [of U J c])
    next
      case 2
      with "1.prems" Some q show ?thesis by (simp add: sync_client_poll.simps [of U J c])
    next
      case (3 r)
      with "1.prems" Some q receive_ready_shorter [OF q [unfolded 3]] show ?thesis
        by (auto simp: sync_client_poll.simps [of U J c] Let_def split: if_splits sum.splits)
    qed
  qed
qed

lemma matrix_poll_sync_shorter:
  "matrix_poll_sync U J V c cells = (Inr (Ready x), c', cells') \<Longrightarrow> length cells' < length cells"
  by (auto simp: matrix_poll_sync_def split: prod.splits sum.splits async.splits
      dest: sync_client_poll_shorter)

function poll_matrix ::
  "('u, 'j) crates \<Rightarrow> ('u, 'j) bridge \<Rightarrow> oneshots \<Rightarrow> (exn + unit async) \<times> ('u, 'j) bridge \<times> oneshots" where
  "poll_matrix K b cells =
     (case matrix_poll_sync (cr_url K) (cr_json K) (cr_value K) (br_matrix_client b) cells of
        (Inl e, mc, cells') \<Rightarrow> (Inl e, b\<lparr>br_matrix_client := mc\<rparr>, cells')
      | (Inr NotReady, mc, cells') \<Rightarrow> (Inr NotReady, b\<lparr>br_matrix_client := mc\<rparr>, cells')
      | (Inr (Ready None), mc, cells') \<Rightarrow>
          (Inr (Ready ()), b\<lparr>br_matrix_client := mc, br_closed := True\<rparr>, cells')
      | (Inr (Ready (Some sync_response)), mc, cells') \<Rightarrow>
          (case handle_sync_response K sync_response (b\<lparr>br_matrix_client := mc\<rparr>) of
             Inl e \<Rightarrow> (Inl e, b\<lparr>br_matrix_client := mc\<rparr>, cells')
           | Inr b' \<Rightarrow> poll_matrix K b' cells'))"
  by pat_completeness auto
termination
  by (relation "measure (\<lambda>(K, b, cells). length cells)")
    (auto dest: matrix_poll_sync_shorter [OF sym])

declare poll_matrix.simps [simp del]

section \<open>Creation\<close>

text \<open>
  \<open>create\<close> once the Matrix login has an answer. Where it fails, the state of the dropped connection
  says what was sent to the client.
\<close>

definition bridge_new ::
  "irc_user_connection \<Rightarrow> ('u, 'j) matrix_client \<Rightarrow> ('u, 'j) bridge" where
  "bridge_new user_connection matrix_client =
     (let (mp, c) = insert_nick (iuc_nick user_connection) (mc_user_id matrix_client)
            mapping_store_default user_connection
      in \<lparr>br_irc_conn = c, br_matrix_client = matrix_client, br_closed = False, br_mappings = mp,
          br_is_first_sync = True, br_joining_map = bt_empty, br_joins = [], br_draws = 0\<rparr>)"

definition create_answered ::
  "irc_user_connection \<Rightarrow> login_error + (('u, 'j) matrix_client \<times> reconnecting_stream) \<Rightarrow>
     (exn \<times> irc_user_connection) + (('u, 'j) bridge \<times> reconnecting_stream)" where
  "create_answered user_connection res =
     (case res of
        Inr (matrix_client, stream) \<Rightarrow> Inr (bridge_new user_connection matrix_client, stream)
      | Inl InvalidPassword \<Rightarrow>
          Inl (IoErr (IoError Other (lit ''Invalid password'')), write_invalid_password user_connection)
      | Inl (LoginIo e) \<Rightarrow> Inl (IoErr e, user_connection))"

section \<open>What a message becomes on the IRC side\<close>

definition privmsg_line :: "rstr \<Rightarrow> rstr \<Rightarrow> rstr \<Rightarrow> rstr" where
  "privmsg_line channel sender text =
     lit '':'' @ sender @ lit '' PRIVMSG '' @ channel @ lit '' :'' @ text"

definition action_text :: "rstr \<Rightarrow> rstr" where
  "action_text line = [1] @ lit ''ACTION '' @ line @ [1]"

definition message_lines :: "rstr \<Rightarrow> rstr \<Rightarrow> rstr \<Rightarrow> rstr list" where
  "message_lines channel sender body = map (privmsg_line channel sender) (split_on 10 body)"

definition action_lines :: "rstr \<Rightarrow> rstr \<Rightarrow> rstr \<Rightarrow> rstr list" where
  "action_lines channel sender body = map (\<lambda>l. privmsg_line channel sender (action_text l)) (split_on 10 body)"

lemma iuc_emits_lines:
  "iuc_inv c \<Longrightarrow> iuc_emits c (fold (\<lambda>x. on_conn (write_line (f x))) xs c) (map f xs)"
  using iuc_emits_fold [of c "\<lambda>x. on_conn (write_line (f x))" "\<lambda>x. [f x]" xs] iuc_emits_line
  by (simp add: concat_map_singleton)

lemma send_message_emits:
  "iuc_inv c \<Longrightarrow> iuc_emits c (send_message channel sender body c) (message_lines channel sender body)"
  unfolding send_message_def message_lines_def privmsg_line_def by (rule iuc_emits_lines)

lemma send_action_emits:
  "iuc_inv c \<Longrightarrow> iuc_emits c (send_action channel sender body c) (action_lines channel sender body)"
  unfolding send_action_def action_lines_def privmsg_line_def action_text_def append_assoc
  by (rule iuc_emits_lines)

text \<open>The lines for one event of a timeline, as a function of the names alone.\<close>

definition event_lines ::
  "('u, 'j) crates \<Rightarrow> ('u, 'j) matrix_client \<Rightarrow> mapping_store \<Rightarrow> rstr \<Rightarrow> 'j event \<Rightarrow> exn + rstr list" where
  "event_lines K mc mp channel ev =
     (case (get_nick_from_matrix mp (ev_sender ev),
            content_str (cr_value K) (ev_content ev) (lit ''body''),
            content_str (cr_value K) (ev_content ev) (lit ''msgtype'')) of
        (Some sender, Some body, Some msgtype) \<Rightarrow>
          if ev_etype ev \<noteq> lit ''m.room.message'' then Inr []
          else if msgtype = lit ''m.emote'' then Inr (action_lines channel sender body)
          else if msgtype \<in> {lit ''m.image'', lit ''m.file'', lit ''m.video'', lit ''m.audio''} then
            (case content_str (cr_value K) (ev_content ev) (lit ''url'') of
               None \<Rightarrow> Inr []
             | Some url \<Rightarrow> map_sum id (message_lines channel sender) (media_url (cr_url K) mc url))
          else Inr (message_lines channel sender body)
      | _ \<Rightarrow> Inr [])"

fun events_lines ::
  "('u, 'j) crates \<Rightarrow> ('u, 'j) matrix_client \<Rightarrow> mapping_store \<Rightarrow> rstr \<Rightarrow> 'j event list \<Rightarrow> exn + rstr list" where
  "events_lines K mc mp channel [] = Inr []"
| "events_lines K mc mp channel (ev # evs) =
     (case event_lines K mc mp channel ev of
        Inl e \<Rightarrow> Inl e
      | Inr ls \<Rightarrow> map_sum id ((@) ls) (events_lines K mc mp channel evs))"

lemma relay_event_spec:
  assumes "iuc_inv c"
  shows "case event_lines K mc mp channel ev of
      Inl e \<Rightarrow> relay_event K mc mp channel ev c = Inl e
    | Inr ls \<Rightarrow> \<exists>c'. relay_event K mc mp channel ev c = Inr c' \<and> iuc_emits c c' ls"
proof (cases "ev_etype ev = lit ''m.room.message''")
  case True
  show ?thesis
    using send_message_emits [OF assms] send_action_emits [OF assms] iuc_emits_Nil [OF assms] True
    by (simp add: event_lines_def relay_event_def split: option.splits sum.splits)
next
  case False
  then show ?thesis
    using iuc_emits_Nil [OF assms] by (simp add: event_lines_def relay_event_def split: option.splits)
qed

lemma relay_events_spec:
  "iuc_inv c \<Longrightarrow>
     (case events_lines K mc mp channel evs of
        Inl e \<Rightarrow> relay_events K mc mp channel evs c = Inl e
      | Inr ls \<Rightarrow> \<exists>c'. relay_events K mc mp channel evs c = Inr c' \<and> iuc_emits c c' ls)"
proof (induction evs arbitrary: c)
  case Nil
  then show ?case by (simp add: iuc_emits_Nil)
next
  case (Cons ev evs)
  show ?case
  proof (cases "event_lines K mc mp channel ev")
    case (Inl e)
    with relay_event_spec [OF Cons.prems, of K mc mp channel ev] show ?thesis by simp
  next
    case (Inr ls)
    with relay_event_spec [OF Cons.prems, of K mc mp channel ev] obtain c1 where
      c1: "relay_event K mc mp channel ev c = Inr c1" "iuc_emits c c1 ls" by auto
    have "iuc_inv c1" using Cons.prems c1(2) by (rule iuc_inv_emits)
    from Cons.IH [OF this] Inr c1 show ?thesis
      by (auto intro: iuc_emits_trans split: sum.splits)
  qed
qed

text \<open>The only way a timeline can fail is a media address the URL parser refuses.\<close>

lemma event_lines_error:
  "event_lines K mc mp channel ev = Inl e \<Longrightarrow> \<exists>url. media_url (cr_url K) mc url = Inl e"
  by (auto simp: event_lines_def split: option.splits if_splits)

lemma events_lines_error:
  "events_lines K mc mp channel evs = Inl e \<Longrightarrow> \<exists>url. media_url (cr_url K) mc url = Inl e"
  by (induction evs) (auto split: sum.splits dest: event_lines_error)

section \<open>A room of a sync response\<close>

definition redirect_line :: "irc_user_connection \<Rightarrow> rstr \<Rightarrow> rstr \<Rightarrow> rstr" where
  "redirect_line c old_channel new_channel =
     numeric_line (iuc_server_name c) RplForwardedChannel (iuc_nick c)
       (old_channel @ lit '' '' @ new_channel @ lit '' :Forwarding to another channel'')"

lemma write_redirect_emits:
  "iuc_inv c \<Longrightarrow> iuc_emits c (write_redirect_join old new c) [redirect_line c old new]"
  unfolding write_redirect_join_def redirect_line_def by (rule iuc_emits_numeric)

definition redirect_lines :: "rstr \<Rightarrow> rstr \<Rightarrow> (rstr, rstr) btree \<Rightarrow> irc_user_connection \<Rightarrow> rstr list" where
  "redirect_lines room_id channel joining c =
     (case bt_get joining room_id of
        Some attempt \<Rightarrow> if attempt \<noteq> channel then [redirect_line c attempt channel] else []
      | None \<Rightarrow> [])"

lemma redirect_attempt_emits:
  "iuc_inv c \<Longrightarrow> iuc_emits c (redirect_attempt room_id channel joining c) (redirect_lines room_id channel joining c)"
  by (simp add: redirect_attempt_def redirect_lines_def write_redirect_emits iuc_emits_Nil split: option.splits)

lemma redirect_lines_cong: "same_identity c c' \<Longrightarrow> redirect_lines r ch j c' = redirect_lines r ch j c"
  by (simp add: redirect_lines_def redirect_line_def same_identity_def split: option.splits)

definition br_inv :: "('u, 'j) bridge \<Rightarrow> bool" where
  "br_inv b \<longleftrightarrow> mp_inv (br_mappings b) (br_irc_conn b) \<and> rooms_inv (mc_rooms (br_matrix_client b))"

lemma mp_inv_emits [inv_intros]: "mp_inv mp c \<Longrightarrow> iuc_emits c c' ls \<Longrightarrow> mp_inv mp c'"
  by (auto simp: mp_inv_defs iuc_nick_exists_def iuc_channel_exists_def iuc_emits_fields(1) intro: iuc_inv_emits)

text \<open>
  What a client sees of a room: the join of a new channel, the redirect of a join under another
  name, and the messages, in this order.
\<close>

definition room_step ::
  "('u, 'j) crates \<Rightarrow> 'j matrix_room \<Rightarrow> 'j joined_room_sync_response \<Rightarrow> ('u, 'j) bridge \<Rightarrow> ('u, 'j) bridge \<Rightarrow> bool" where
  "room_step K room sync b b' \<longleftrightarrow>
     (\<exists>channel opening ls.
        room_id_to_channel (br_mappings b') (rm_room_id room) = Some channel
        \<and> (case room_id_to_channel (br_mappings b) (rm_room_id room) of
             Some old \<Rightarrow> channel = old \<and> opening = []
           | None \<Rightarrow>
               channel = unique_name (sm_channels (iuc_server_model (br_irc_conn b))) (channel_base (cr_value K) room)
               \<and> (\<exists>nicks. named_members (br_mappings b') (rm_members room) nicks
                    \<and> opening = join_lines (br_irc_conn b)
                        (make_channel channel (unwrap_or [] (get_topic (cr_value K) room)) nicks)))
        \<and> events_lines K (br_matrix_client b) (br_mappings b') channel (tl_events (jr_timeline sync)) = Inr ls
        \<and> queued (iuc_conn (br_irc_conn b')) = queued (iuc_conn (br_irc_conn b))
            @ concat (map line_bytes (opening
                @ redirect_lines (rm_room_id room) channel (br_joining_map b) (br_irc_conn b) @ ls))
        \<and> br_joining_map b' = bt_remove (rm_room_id room) (br_joining_map b))"

definition bridge_frame :: "('u, 'j) bridge \<Rightarrow> ('u, 'j) bridge \<Rightarrow> bool" where
  "bridge_frame b b' \<longleftrightarrow> keeps_names (br_mappings b) (br_mappings b')
     \<and> same_identity (br_irc_conn b) (br_irc_conn b')
     \<and> br_matrix_client b' = br_matrix_client b \<and> br_is_first_sync b' = br_is_first_sync b
     \<and> br_joins b' = br_joins b \<and> br_closed b' = br_closed b"

lemma bridge_frame_refl [simp]: "bridge_frame b b"
  by (simp add: bridge_frame_def)

lemma bridge_frame_trans: "bridge_frame a b \<Longrightarrow> bridge_frame b c \<Longrightarrow> bridge_frame a c"
  unfolding bridge_frame_def using keeps_names_trans same_identity_trans by metis

lemma handle_room_sync_spec:
  assumes inv: "br_inv b"
  shows "case get_room (br_matrix_client b) room_id of
      None \<Rightarrow> handle_room_sync K room_id sync b = Inr b
    | Some room \<Rightarrow>
        (\<exists>url e. handle_room_sync K room_id sync b = Inl e \<and> media_url (cr_url K) (br_matrix_client b) url = Inl e)
        \<or> (\<exists>b'. handle_room_sync K room_id sync b = Inr b' \<and> br_inv b' \<and> bridge_frame b b'
             \<and> room_step K room sync b b')"
proof (cases "get_room (br_matrix_client b) room_id")
  case None
  then show ?thesis by (simp add: handle_room_sync_def)
next
  case (Some room)
  let ?mc = "br_matrix_client b" and ?c = "br_irc_conn b" and ?mp = "br_mappings b"
  let ?evs = "tl_events (jr_timeline sync)"
  have rid: "rm_room_id room = room_id"
    using inv Some by (auto simp: br_inv_def rooms_inv_def get_room_def)
  have "mp_inv ?mp ?c" using inv by (simp add: br_inv_def)
  from create_or_get_channel_spec [OF this, of "cr_value K" room] obtain channel new mp c1 where
    cr: "create_or_get_channel_name_from_matrix (cr_value K) room ?mp ?c = Inr ((channel, new), mp, c1)"
    and inv1: "mp_inv mp c1" and map1: "room_id_to_channel mp (rm_room_id room) = Some channel"
    and frame: "keeps_names ?mp mp" "same_identity ?c c1"
    and new: "if new then room_id_to_channel ?mp (rm_room_id room) = None \<and> opened (cr_value K) room ?mp ?c channel mp c1
      else mp = ?mp \<and> c1 = ?c" by blast
  define c2 where "c2 = redirect_attempt room_id channel (br_joining_map b) c1"
  have i1: "iuc_inv c1" using inv1 by (simp add: mp_inv_def)
  have e2: "iuc_emits c1 c2 (redirect_lines room_id channel (br_joining_map b) ?c)"
    using redirect_attempt_emits [OF i1] redirect_lines_cong [OF frame(2)] by (simp add: c2_def)
  note i2 = iuc_inv_emits [OF i1 e2]
  show ?thesis
  proof (cases "events_lines K ?mc mp channel ?evs")
    case (Inl e)
    with relay_events_spec [OF i2, of K ?mc mp channel ?evs]
    have "handle_room_sync K room_id sync b = Inl e"
      by (simp add: handle_room_sync_def Some cr flip: c2_def)
    with events_lines_error [OF Inl] Some show ?thesis by auto
  next
    case (Inr ls)
    with relay_events_spec [OF i2, of K ?mc mp channel ?evs] obtain c3 where
      r: "relay_events K ?mc mp channel ?evs c2 = Inr c3" and e3: "iuc_emits c2 c3 ls" by auto
    define b' where "b' = b\<lparr>br_irc_conn := c3, br_mappings := mp,
        br_joining_map := bt_remove room_id (br_joining_map b)\<rparr>"
    have res: "handle_room_sync K room_id sync b = Inr b'"
      by (simp add: handle_room_sync_def Some cr r b'_def flip: c2_def)
    have inv': "br_inv b'"
      using mp_inv_emits [OF mp_inv_emits [OF inv1 e2] e3] inv by (simp add: br_inv_def b'_def)
    have fr: "bridge_frame b b'"
      using frame same_identity_emits [OF e2] same_identity_emits [OF e3]
      by (auto simp: bridge_frame_def b'_def intro: same_identity_trans)
    have q: "queued (iuc_conn c3) = queued (iuc_conn c1)
        @ concat (map line_bytes (redirect_lines room_id channel (br_joining_map b) ?c @ ls))"
      using iuc_emits_queued [OF iuc_emits_trans [OF e2 e3]] .
    have "room_step K room sync b b'"
    proof (cases new)
      case True
      with new obtain nicks where n: "named_members mp (rm_members room) nicks"
        "channel = unique_name (sm_channels (iuc_server_model ?c)) (channel_base (cr_value K) room)"
        "queued (iuc_conn c1) = queued (iuc_conn ?c) @ concat (map line_bytes
          (join_lines ?c (make_channel channel (unwrap_or [] (get_topic (cr_value K) room)) nicks)))"
        "room_id_to_channel ?mp (rm_room_id room) = None"
        by (auto simp: opened_def)
      show ?thesis
        unfolding room_step_def
        by (intro exI [of _ channel] exI [of _ "join_lines ?c (make_channel channel
              (unwrap_or [] (get_topic (cr_value K) room)) nicks)"] exI [of _ ls])
          (use n map1 Inr q rid in \<open>auto simp: b'_def\<close>)
    next
      case False
      with new have "mp = ?mp" "c1 = ?c" by simp_all
      with map1 Inr q rid show ?thesis
        unfolding room_step_def by (auto simp: b'_def)
    qed
    with res inv' fr Some show ?thesis by auto
  qed
qed

section \<open>A whole sync response\<close>

text \<open>Media addresses for which the client would panic.\<close>

definition media_ok :: "('u, 'j) crates \<Rightarrow> ('u, 'j) matrix_client \<Rightarrow> bool" where
  "media_ok K mc \<longleftrightarrow> (\<forall>url e. media_url (cr_url K) mc url \<noteq> Inl e)"

lemma handle_room_sync_keeps:
  assumes "br_inv b" "handle_room_sync K room_id sync b = Inr b'"
  shows "br_inv b' \<and> bridge_frame b b'"
  using handle_room_sync_spec [OF assms(1), of K room_id sync] assms
  by (auto split: option.splits)

lemma handle_room_sync_ok:
  assumes "br_inv b" "media_ok K (br_matrix_client b)"
  shows "\<exists>b'. handle_room_sync K room_id sync b = Inr b'"
  using handle_room_sync_spec [OF assms(1), of K room_id sync] assms(2)
  by (auto simp: media_ok_def split: option.splits)

lemma handle_room_syncs_keeps:
  "br_inv b \<Longrightarrow> handle_room_syncs K joins b = Inr b' \<Longrightarrow> br_inv b' \<and> bridge_frame b b'"
proof (induction K joins b rule: handle_room_syncs.induct)
  case (2 K room_id sync r b)
  then obtain b1 where b1: "handle_room_sync K room_id sync b = Inr b1" "handle_room_syncs K r b1 = Inr b'"
    by (auto split: sum.splits)
  with handle_room_sync_keeps [OF "2.prems"(1) b1(1)] "2.IH" [OF b1(1)] show ?case
    by (auto intro: bridge_frame_trans)
qed simp

lemma handle_room_syncs_ok:
  "br_inv b \<Longrightarrow> media_ok K (br_matrix_client b) \<Longrightarrow> \<exists>b'. handle_room_syncs K joins b = Inr b'"
proof (induction K joins b rule: handle_room_syncs.induct)
  case (2 K room_id sync r b)
  obtain b1 where b1: "handle_room_sync K room_id sync b = Inr b1"
    using handle_room_sync_ok [OF "2.prems"] by blast
  with handle_room_sync_keeps [OF "2.prems"(1) b1] "2.IH" [OF b1] "2.prems"(2) show ?case
    by (simp add: bridge_frame_def)
qed simp

text \<open>Once its response is handled, every room the client knows has a channel.\<close>

lemma handle_room_syncs_mapped:
  "br_inv b \<Longrightarrow> handle_room_syncs K joins b = Inr b' \<Longrightarrow> r \<in> fst ` set joins
     \<Longrightarrow> get_room (br_matrix_client b) r \<noteq> None
     \<Longrightarrow> \<exists>ch. room_id_to_channel (br_mappings b') r = Some ch \<and> bt_get (br_joining_map b') r = None"
proof (induction K joins b arbitrary: b' rule: handle_room_syncs.induct)
  case (2 K room_id sync rest b)
  obtain b1 where b1: "handle_room_sync K room_id sync b = Inr b1" "handle_room_syncs K rest b1 = Inr b'"
    using "2.prems"(2) by (auto split: sum.splits)
  note k1 = handle_room_sync_keeps [OF "2.prems"(1) b1(1)]
  have joining: "bt_get (br_joining_map b') r = None" if "bt_get (br_joining_map b1) r = None"
  proof -
    have "handle_room_syncs K js a = Inr a' \<Longrightarrow> bt_get (br_joining_map a) r = None
        \<Longrightarrow> bt_get (br_joining_map a') r = None" for js a a'
      by (induction K js a rule: handle_room_syncs.induct)
        (auto simp: handle_room_sync_def split: sum.splits option.splits prod.splits)
    from this [OF b1(2) that] show ?thesis .
  qed
  show ?case
  proof (cases "r \<in> fst ` set rest")
    case True
    with "2.IH" [OF b1(1) _ b1(2)] k1 "2.prems"(4) show ?thesis by (simp add: bridge_frame_def)
  next
    case False
    with "2.prems"(3) have r: "r = room_id" by auto
    then obtain room where room: "get_room (br_matrix_client b) room_id = Some room"
      using "2.prems"(4) by auto
    then have rid: "rm_room_id room = room_id"
      using "2.prems"(1) by (auto simp: br_inv_def rooms_inv_def get_room_def)
    have "room_step K room sync b b1"
      using handle_room_sync_spec [OF "2.prems"(1), of K room_id sync] b1(1) room by auto
    then obtain ch where "room_id_to_channel (br_mappings b1) r = Some ch"
      "bt_get (br_joining_map b1) r = None"
      using r rid by (auto simp: room_step_def)
    moreover have "keeps_names (br_mappings b1) (br_mappings b')"
      using handle_room_syncs_keeps [OF _ b1(2)] k1 by (simp add: bridge_frame_def)
    ultimately show ?thesis using joining by (auto simp: keeps_names_def)
  qed
qed simp

definition welcome_first :: "('u, 'j) bridge \<Rightarrow> ('u, 'j) bridge" where
  "welcome_first b = (if br_is_first_sync b
     then b\<lparr>br_irc_conn := send_ping (lit ''HELLO'') (iuc_welcome (br_irc_conn b))\<rparr> else b)"

definition greeting :: "irc_user_connection \<Rightarrow> rstr list" where
  "greeting c = welcome_lines (iuc_server_name c) (iuc_nick c) @ [lit ''PING HELLO'']"

lemma iuc_emits_welcome:
  assumes "iuc_inv c"
  shows "iuc_emits c (iuc_welcome c) (welcome_lines (iuc_server_name c) (iuc_nick c))"
  using assms emits_welcome [of "iuc_conn c" "iuc_nick c"]
  by (auto simp: iuc_welcome_def iuc_inv_def isc_inv_def intro!: iuc_emits_on_conn)

lemma greeting_emits:
  assumes "iuc_inv c"
  shows "iuc_emits c (send_ping (lit ''HELLO'') (iuc_welcome c)) (greeting c)"
proof -
  have "lit ''PING '' @ lit ''HELLO'' = lit ''PING HELLO''" by (simp add: lit_def)
  then show ?thesis
    using iuc_emits_trans [OF iuc_emits_welcome [OF assms]
        iuc_emits_line [OF iuc_inv_emits [OF assms iuc_emits_welcome [OF assms]]]]
    by (simp add: greeting_def send_ping_def iuc_write_line_def)
qed

lemma br_inv_emits [inv_intros]:
  "br_inv b \<Longrightarrow> iuc_emits (br_irc_conn b) c' ls \<Longrightarrow> br_inv (b\<lparr>br_irc_conn := c'\<rparr>)"
  by (auto simp: br_inv_def intro: mp_inv_emits)

lemma welcome_first_keeps:
  assumes "br_inv b"
  shows "br_inv (welcome_first b)" "bridge_frame b (welcome_first b)"
proof -
  have "iuc_inv (br_irc_conn b)" using assms by (simp add: br_inv_def mp_inv_def)
  note e = greeting_emits [OF this]
  show "br_inv (welcome_first b)" using br_inv_emits [OF assms e] assms by (simp add: welcome_first_def)
  show "bridge_frame b (welcome_first b)"
    using same_identity_emits [OF e] by (simp add: welcome_first_def bridge_frame_def)
qed

lemma handle_sync_response_eq:
  "handle_sync_response K resp b =
     map_sum id (\<lambda>b2. b2\<lparr>br_is_first_sync := False\<rparr>)
       (handle_room_syncs K (rs_join (sr_rooms resp)) (welcome_first b))"
proof -
  have "(if br_is_first_sync b2 then b2\<lparr>br_is_first_sync := False\<rparr> else b2) = b2\<lparr>br_is_first_sync := False\<rparr>"
    for b2 :: "('a, 'b) bridge"
    by simp
  then show ?thesis
    unfolding handle_sync_response_def welcome_first_def Let_def by (auto split: sum.splits)
qed

lemma br_inv_first_sync [simp]: "br_inv (b\<lparr>br_is_first_sync := x\<rparr>) = br_inv b"
  by (simp add: br_inv_def)

definition same_session :: "('u, 'j) bridge \<Rightarrow> ('u, 'j) bridge \<Rightarrow> bool" where
  "same_session b b' \<longleftrightarrow> keeps_names (br_mappings b) (br_mappings b')
     \<and> iuc_nick (br_irc_conn b') = iuc_nick (br_irc_conn b)
     \<and> iuc_user_prefix (br_irc_conn b') = iuc_user_prefix (br_irc_conn b)
     \<and> iuc_server_name (br_irc_conn b') = iuc_server_name (br_irc_conn b)
     \<and> iuc_user (br_irc_conn b') = iuc_user (br_irc_conn b)
     \<and> iuc_password (br_irc_conn b') = iuc_password (br_irc_conn b)
     \<and> iuc_real_name (br_irc_conn b') = iuc_real_name (br_irc_conn b)
     \<and> mc_url (br_matrix_client b') = mc_url (br_matrix_client b)
     \<and> mc_user_id (br_matrix_client b') = mc_user_id (br_matrix_client b)
     \<and> (br_closed b \<longrightarrow> br_closed b') \<and> (br_is_first_sync b' \<longrightarrow> br_is_first_sync b)"

lemma same_session_refl [simp]: "same_session b b"
  by (simp add: same_session_def)

lemma same_session_trans: "same_session a b \<Longrightarrow> same_session b c \<Longrightarrow> same_session a c"
  unfolding same_session_def using keeps_names_trans by metis

lemma bridge_frame_session: "bridge_frame b b' \<Longrightarrow> same_session b b'"
  by (simp add: bridge_frame_def same_session_def same_identity_def)

lemma handle_sync_response_keeps:
  assumes "br_inv b" "handle_sync_response K resp b = Inr b'"
  shows "br_inv b'" "same_session b b'" "\<not> br_is_first_sync b'"
    "br_matrix_client b' = br_matrix_client b" "same_identity (br_irc_conn b) (br_irc_conn b')"
proof -
  from assms(2) obtain b2 where b2: "handle_room_syncs K (rs_join (sr_rooms resp)) (welcome_first b) = Inr b2"
    "b' = b2\<lparr>br_is_first_sync := False\<rparr>"
    by (auto simp: handle_sync_response_eq)
  note k = handle_room_syncs_keeps [OF welcome_first_keeps(1) [OF assms(1)] b2(1)]
  then have f: "bridge_frame b b2" using welcome_first_keeps(2) [OF assms(1)] bridge_frame_trans by blast
  show "br_inv b'" using k b2(2) by simp
  show "same_session b b'" using bridge_frame_session [OF f] b2(2) by (simp add: same_session_def)
  show "\<not> br_is_first_sync b'" using b2(2) by simp
  show "br_matrix_client b' = br_matrix_client b" "same_identity (br_irc_conn b) (br_irc_conn b')"
    using f b2(2) by (simp_all add: bridge_frame_def)
qed

section \<open>Commands of the client\<close>

lemma handle_irc_cmd_keeps:
  assumes inv: "br_inv b" and cmd: "handle_irc_cmd K line b = Inr b'"
  shows "br_inv b'" "same_session b b'" "br_mappings b' = br_mappings b"
    "msc_http_stream (mc_sync_client (br_matrix_client b')) = msc_http_stream (mc_sync_client (br_matrix_client b))"
proof -
  have iuc: "iuc_inv (br_irc_conn b)" using inv by (simp add: br_inv_def mp_inv_def)
  have e: "iuc_emits (br_irc_conn b) (unaway (br_irc_conn b))
      [numeric_line (iuc_server_name (br_irc_conn b)) RplUnaway (iuc_nick (br_irc_conn b)) (lit ''Welcome back'')]"
    "iuc_emits (br_irc_conn b) (away (br_irc_conn b))
      [numeric_line (iuc_server_name (br_irc_conn b)) RplNowaway (iuc_nick (br_irc_conn b)) (lit ''You are now away'')]"
    unfolding unaway_def away_def by (rule iuc_emits_numeric [OF iuc])+
  have away: "br_inv (b\<lparr>br_irc_conn := unaway (br_irc_conn b)\<rparr>)" "br_inv (b\<lparr>br_irc_conn := away (br_irc_conn b)\<rparr>)"
    using br_inv_emits [OF inv e(1)] br_inv_emits [OF inv e(2)] .
  have "br_inv b' \<and> same_session b b' \<and> br_mappings b' = br_mappings b
    \<and> msc_http_stream (mc_sync_client (br_matrix_client b')) = msc_http_stream (mc_sync_client (br_matrix_client b))"
    using cmd inv away iuc_emits_fields [OF e(1)] iuc_emits_fields [OF e(2)]
    by (auto simp: handle_irc_cmd_def send_text_message_def join_room_def br_inv_def same_session_def
        split: irc_command.splits option.splits sum.splits prod.splits if_splits)
  then show "br_inv b'" "same_session b b'" "br_mappings b' = br_mappings b"
    "msc_http_stream (mc_sync_client (br_matrix_client b')) = msc_http_stream (mc_sync_client (br_matrix_client b))"
    by simp_all
qed

text \<open>The one request a message to a known channel makes, and that nothing else makes one.\<close>

definition message_request ::
  "('u, 'j) crates \<Rightarrow> ('u, 'j) bridge \<Rightarrow> rstr \<Rightarrow> rstr \<Rightarrow> request option" where
  "message_request K b room_id text =
     (let (msgtype, body) = handle_privmsg_action text; mc = br_matrix_client b in
      case (uo_join (cr_url K) (mc_url mc) (lit ''/_matrix/client/r0/rooms/'' @ room_id
              @ lit ''/send/m.room.message/mircd-'' @ decimal (unat (cr_rng K (br_draws b)))),
            jo_send_to_vec (cr_json K) \<lparr>ri_msgtype = msgtype, ri_body = body\<rparr>) of
        (Some url, Some data) \<Rightarrow>
          Some (json_post_request (cr_url K) (lit ''PUT'')
            (uo_set_query (cr_url K) url [(lit ''access_token'', mc_access_token mc)]) data)
      | _ \<Rightarrow> None)"

definition main_queue :: "('u, 'j) bridge \<Rightarrow> (request \<times> ticket) list" where
  "main_queue b = hci_requests (mc_http_stream (br_matrix_client b))"

lemma handle_privmsg_request:
  assumes "channel_to_room_id (br_mappings b) channel = Some room_id"
  shows "handle_irc_cmd K (PrivMsg channel text) b = Inr b' \<Longrightarrow>
      \<exists>req. message_request K b room_id text = Some req
        \<and> main_queue b' = main_queue b @ [(req, hci_next_ticket (mc_http_stream (br_matrix_client b)))]
        \<and> br_irc_conn b' = br_irc_conn b"
    "message_request K b room_id text = Some req \<Longrightarrow>
      \<exists>b'. handle_irc_cmd K (PrivMsg channel text) b = Inr b'"
  using assms
  by (auto simp: handle_irc_cmd_def send_text_message_def do_json_post_def send_request_def token_query_def
      message_request_def main_queue_def Let_def split: option.splits prod.splits)

lemma handle_irc_cmd_silent:
  assumes "\<forall>channel text. line = PrivMsg channel text \<longrightarrow> channel_to_room_id (br_mappings b) channel = None"
    "\<forall>channel. line \<noteq> Join channel"
  shows "\<exists>b'. handle_irc_cmd K line b = Inr b' \<and> br_matrix_client b' = br_matrix_client b"
  using assms by (cases line) (auto simp: handle_irc_cmd_def)

section \<open>The loops keep the invariant\<close>

lemma iuc_poll_frame:
  assumes "br_inv b" "iuc_poll (br_irc_conn b) = (r, conn)"
  shows "br_inv (b\<lparr>br_irc_conn := conn\<rparr>)" "same_session b (b\<lparr>br_irc_conn := conn\<rparr>)"
proof -
  have "iuc_inv (br_irc_conn b)" using assms(1) by (simp add: br_inv_def mp_inv_def)
  from iuc_poll_loop [OF this assms(2)] have inv: "iuc_inv conn"
    and eq: "conn = (br_irc_conn b)\<lparr>iuc_conn := iuc_conn conn\<rparr>"
    by (auto simp: loop_step_def)
  obtain d where d: "conn = (br_irc_conn b)\<lparr>iuc_conn := d\<rparr>" using eq by blast
  show "br_inv (b\<lparr>br_irc_conn := conn\<rparr>)"
    using assms(1) inv unfolding d
    by (simp add: br_inv_def mp_inv_defs iuc_nick_exists_def iuc_channel_exists_def)
  show "same_session b (b\<lparr>br_irc_conn := conn\<rparr>)"
    unfolding d by (simp add: same_session_def)
qed

text \<open>Both loops keep what each of their passes keeps: a poll, a command or a response, and the end.\<close>

lemma poll_irc_loop_invariant [consumes 1, case_names start poll closed command]:
  assumes "poll_irc_loop K b = (r, b')" "P b"
    and "\<And>b q conn. P b \<Longrightarrow> iuc_poll (br_irc_conn b) = (q, conn) \<Longrightarrow> P (b\<lparr>br_irc_conn := conn\<rparr>)"
    and "\<And>b. P b \<Longrightarrow> P (b\<lparr>br_closed := True\<rparr>)"
    and "\<And>b line b1. P b \<Longrightarrow> handle_irc_cmd K line b = Inr b1 \<Longrightarrow> P b1"
  shows "P b'"
  using assms
proof (induction K b rule: poll_irc_loop.induct)
  case (1 K b)
  obtain q conn where q: "iuc_poll (br_irc_conn b) = (q, conn)" by fastforce
  let ?b = "b\<lparr>br_irc_conn := conn\<rparr>"
  have p: "P ?b" by (rule "1.prems"(3) [OF "1.prems"(2) q])
  show ?case
  proof (cases "\<exists>line b1. q = Inr (Ready (Some line)) \<and> handle_irc_cmd K line ?b = Inr b1")
    case True
    then obtain line b1 where t: "q = Inr (Ready (Some line))" "handle_irc_cmd K line ?b = Inr b1" by blast
    have "poll_irc_loop K b1 = (r, b')"
      using "1.prems"(1) q t by (simp add: poll_irc_loop.simps [of K b])
    from "1.IH" [OF q [symmetric] t(1) refl refl t(2) this "1.prems"(5) [OF p t(2)] "1.prems"(3,4,5)]
    show ?thesis .
  next
    case False
    with "1.prems"(1) q p "1.prems"(4) [OF p] show ?thesis
      by (auto simp: poll_irc_loop.simps [of K b] split: sum.splits async.splits option.splits)
  qed
qed

lemma poll_irc_loop_keeps:
  assumes "br_inv b" "poll_irc_loop K b = (r, b')"
  shows "br_inv b' \<and> same_session b b' \<and> br_is_first_sync b' = br_is_first_sync b
     \<and> msc_http_stream (mc_sync_client (br_matrix_client b')) = msc_http_stream (mc_sync_client (br_matrix_client b))"
  using assms(2)
proof (induction rule: poll_irc_loop_invariant)
  case start
  with assms(1) show ?case by simp
next
  case (poll x q conn)
  with iuc_poll_frame [of x q conn] show ?case by (auto intro: same_session_trans)
next
  case (closed x)
  then show ?case by (simp add: br_inv_def same_session_def)
next
  case (command x line x')
  have "br_is_first_sync x' = br_is_first_sync x"
    using command(2) by (auto simp: handle_irc_cmd_def split: irc_command.splits option.splits sum.splits
        prod.splits if_splits)
  with command handle_irc_cmd_keeps [of x K line x'] show ?case by (auto intro: same_session_trans)
qed

lemma poll_irc_keeps:
  assumes "br_inv b" "poll_irc K b = (r, b')"
  shows "br_inv b' \<and> same_session b b' \<and> br_is_first_sync b' = br_is_first_sync b
    \<and> msc_http_stream (mc_sync_client (br_matrix_client b')) = msc_http_stream (mc_sync_client (br_matrix_client b))"
  using assms poll_irc_loop_keeps [OF assms(1)] by (auto simp: poll_irc_def split: if_splits)

definition sync_fresh :: "('u, 'j) bridge \<Rightarrow> oneshots \<Rightarrow> bool" where
  "sync_fresh b cells \<longleftrightarrow> tickets_fresh (msc_http_stream (mc_sync_client (br_matrix_client b))) cells"

lemma matrix_poll_keeps:
  assumes inv: "br_inv b" "sync_fresh b cells"
    and poll: "matrix_poll_sync U J V (br_matrix_client b) cells = (r, mc, cells')"
  shows "br_inv (b\<lparr>br_matrix_client := mc\<rparr>)" "sync_fresh (b\<lparr>br_matrix_client := mc\<rparr>) cells'"
    "same_session b (b\<lparr>br_matrix_client := mc\<rparr>)"
proof -
  have mci: "mc_inv (br_matrix_client b) cells" using inv by (simp add: mc_inv_def br_inv_def sync_fresh_def)
  note s = matrix_poll_sync_step [OF mci poll]
  show "br_inv (b\<lparr>br_matrix_client := mc\<rparr>)" "sync_fresh (b\<lparr>br_matrix_client := mc\<rparr>) cells'"
    using s(1) inv by (simp_all add: br_inv_def mc_inv_def sync_fresh_def)
  show "same_session b (b\<lparr>br_matrix_client := mc\<rparr>)"
    using s(3) by (simp add: same_session_def)
qed

lemma poll_matrix_invariant [consumes 3, case_names start poll closed response]:
  assumes "poll_matrix K b cells = (r, b', cells')" "br_inv b" "sync_fresh b cells" "P b cells"
    and "\<And>b cells q mc cells1. br_inv b \<Longrightarrow> sync_fresh b cells \<Longrightarrow> P b cells \<Longrightarrow>
      matrix_poll_sync (cr_url K) (cr_json K) (cr_value K) (br_matrix_client b) cells = (q, mc, cells1) \<Longrightarrow>
      P (b\<lparr>br_matrix_client := mc\<rparr>) cells1"
    and "\<And>b cells. P b cells \<Longrightarrow> P (b\<lparr>br_closed := True\<rparr>) cells"
    and "\<And>b cells resp b1. br_inv b \<Longrightarrow> P b cells \<Longrightarrow> handle_sync_response K resp b = Inr b1 \<Longrightarrow> P b1 cells"
  shows "br_inv b' \<and> sync_fresh b' cells' \<and> P b' cells'"
  using assms
proof (induction K b cells rule: poll_matrix.induct)
  case (1 K b cells)
  obtain q mc cells1 where
    q: "matrix_poll_sync (cr_url K) (cr_json K) (cr_value K) (br_matrix_client b) cells = (q, mc, cells1)"
    by (metis prod_cases3)
  note f = matrix_poll_keeps [OF "1.prems"(2,3) q]
  let ?b = "b\<lparr>br_matrix_client := mc\<rparr>"
  have p: "P ?b cells1" by (rule "1.prems"(5) [OF "1.prems"(2-4) q])
  show ?case
  proof (cases "\<exists>resp b1. q = Inr (Ready (Some resp)) \<and> handle_sync_response K resp ?b = Inr b1")
    case True
    then obtain resp b1 where t: "q = Inr (Ready (Some resp))" "handle_sync_response K resp ?b = Inr b1" by blast
    note k = handle_sync_response_keeps [OF f(1) t(2)]
    have "poll_matrix K b1 cells1 = (r, b', cells')"
      using "1.prems"(1) q t by (simp add: poll_matrix.simps [of K b])
    moreover have "sync_fresh b1 cells1" using f(2) k(4) by (simp add: sync_fresh_def)
    ultimately show ?thesis
      using "1.IH" [OF q [symmetric] t(1) refl refl refl t(2) _ k(1) _ "1.prems"(7) [OF f(1) p t(2)] "1.prems"(5-7)]
      by simp
  next
    case False
    with "1.prems"(1) q f(1,2) p "1.prems"(6) [OF p] show ?thesis
      by (auto simp: poll_matrix.simps [of K b] br_inv_def sync_fresh_def
          split: sum.splits async.splits option.splits)
  qed
qed

lemma poll_matrix_keeps:
  assumes "br_inv b" "sync_fresh b cells" "poll_matrix K b cells = (r, b', cells')"
  shows "br_inv b' \<and> sync_fresh b' cells' \<and> same_session b b'"
  using assms(3,1,2)
proof (induction rule: poll_matrix_invariant)
  case (poll x c q mc c1)
  with matrix_poll_keeps(3) show ?case by (blast intro: same_session_trans)
next
  case (closed x c)
  then show ?case by (simp add: same_session_def)
next
  case (response x c resp x')
  with handle_sync_response_keeps(2) show ?case by (blast intro: same_session_trans)
qed simp

section \<open>Every order of events\<close>

text \<open>
  The executor polls the IRC side or the Matrix side, or runs a join closure whose response has come;
  the tasks of the two HTTP connections take requests off their queues and hand the outcome of a sync
  request to its oneshot.
\<close>

definition set_main_http :: "http_client_inner \<Rightarrow> ('u, 'j) bridge \<Rightarrow> ('u, 'j) bridge" where
  "set_main_http http b = b\<lparr>br_matrix_client := (br_matrix_client b)\<lparr>mc_http_stream := http\<rparr>\<rparr>"

definition sync_http :: "('u, 'j) bridge \<Rightarrow> http_client_inner" where
  "sync_http b = msc_http_stream (mc_sync_client (br_matrix_client b))"

definition set_sync_http :: "http_client_inner \<Rightarrow> ('u, 'j) bridge \<Rightarrow> ('u, 'j) bridge" where
  "set_sync_http http b = b\<lparr>br_matrix_client := (br_matrix_client b)
     \<lparr>mc_sync_client := (mc_sync_client (br_matrix_client b))\<lparr>msc_http_stream := http\<rparr>\<rparr>\<rparr>"

inductive bridge_step ::
  "('u, 'j) crates \<Rightarrow> ('u, 'j) bridge \<times> oneshots \<Rightarrow> ('u, 'j) bridge \<times> oneshots \<Rightarrow> bool" for K where
  irc: "poll_irc K b = (r, b') \<Longrightarrow> bridge_step K (b, cells) (b', cells)"
| matrix: "poll_matrix K b cells = (r, b', cells') \<Longrightarrow> bridge_step K (b, cells) (b', cells')"
| joined: "(t, channel) \<in> set (br_joins b) \<Longrightarrow> json_post_result (jo_parse_join (cr_json K)) result = Inr resp
    \<Longrightarrow> bridge_step K (b, cells)
      (join_answered channel resp (b\<lparr>br_joins := remove1 (t, channel) (br_joins b)\<rparr>), cells)"
| join_failed: "(t, channel) \<in> set (br_joins b) \<Longrightarrow> json_post_result (jo_parse_join (cr_json K)) result = Inl e
    \<Longrightarrow> bridge_step K (b, cells) (b\<lparr>br_joins := remove1 (t, channel) (br_joins b)\<rparr>, cells)"
| main_request: "bridge_step K (b, cells) (set_main_http http b, cells)"
| sync_request: "hci_next_ticket http = hci_next_ticket (sync_http b)
    \<Longrightarrow> bridge_step K (b, cells) (set_sync_http http b, cells)"
| sync_answer: "t < hci_next_ticket (sync_http b)
    \<Longrightarrow> bridge_step K (b, cells) (b, bt_insert t result cells)"

inductive reachable ::
  "('u, 'j) crates \<Rightarrow> ('u, 'j) bridge \<times> oneshots \<Rightarrow> ('u, 'j) bridge \<times> oneshots \<Rightarrow> bool" for K s where
  start: "reachable K s s"
| further: "reachable K s t \<Longrightarrow> bridge_step K t u \<Longrightarrow> reachable K s u"

inductive_cases bridge_stepE: "bridge_step K s t"

lemma br_inv_joins [simp]:
  "br_inv (b\<lparr>br_joins := x\<rparr>) = br_inv b" "br_inv (b\<lparr>br_joining_map := y\<rparr>) = br_inv b"
  by (simp_all add: br_inv_def)

lemma join_answered_keeps:
  assumes "br_inv b"
  shows "br_inv (join_answered channel resp b)" "same_session b (join_answered channel resp b)"
    "br_matrix_client (join_answered channel resp b) = br_matrix_client b"
proof -
  have iuc: "iuc_inv (br_irc_conn b)" using assms by (simp add: br_inv_def mp_inv_def)
  note e = write_redirect_emits [OF iuc]
  show "br_inv (join_answered channel resp b)"
    using assms br_inv_emits [OF assms e]
    by (simp add: join_answered_def Let_def split: option.splits)
  show "same_session b (join_answered channel resp b)"
    using iuc_emits_fields [OF e]
    by (simp add: join_answered_def Let_def same_session_def split: option.splits)
  show "br_matrix_client (join_answered channel resp b) = br_matrix_client b"
    by (simp add: join_answered_def Let_def split: option.splits)
qed

definition state_inv :: "('u, 'j) bridge \<times> oneshots \<Rightarrow> bool" where
  "state_inv s \<longleftrightarrow> br_inv (fst s) \<and> sync_fresh (fst s) (snd s)"

lemma bridge_step_keeps:
  "bridge_step K s t \<Longrightarrow> state_inv s \<Longrightarrow> state_inv t \<and> same_session (fst s) (fst t)"
proof (induction rule: bridge_step.induct)
  case (irc b r b' cells)
  then show ?case using poll_irc_keeps [of b K r b'] by (auto simp: state_inv_def sync_fresh_def)
next
  case (matrix b cells r b' cells')
  then show ?case using poll_matrix_keeps [of b cells K r b' cells'] by (auto simp: state_inv_def)
next
  case (joined t channel b result resp cells)
  let ?b = "b\<lparr>br_joins := remove1 (t, channel) (br_joins b)\<rparr>"
  have inv: "br_inv ?b" using joined.prems by (simp add: state_inv_def)
  have "same_session b ?b" by (simp add: same_session_def)
  with join_answered_keeps [OF inv, of channel resp] joined.prems show ?case
    by (auto simp: state_inv_def sync_fresh_def intro: same_session_trans)
next
  case (join_failed t channel b result e cells)
  then show ?case by (simp add: state_inv_def sync_fresh_def same_session_def)
next
  case (main_request b cells http)
  then show ?case by (simp add: state_inv_def sync_fresh_def set_main_http_def br_inv_def same_session_def)
next
  case (sync_request http b cells)
  then show ?case
    by (simp add: state_inv_def sync_fresh_def tickets_fresh_def set_sync_http_def sync_http_def br_inv_def
        same_session_def)
next
  case (sync_answer t b cells result)
  then show ?case by (simp add: state_inv_def sync_fresh_def sync_http_def tickets_fresh_def)
qed

lemma reachable_keeps:
  "reachable K s t \<Longrightarrow> state_inv s \<Longrightarrow> state_inv t \<and> same_session (fst s) (fst t)"
  by (induction rule: reachable.induct) (auto dest: bridge_step_keeps intro: same_session_trans)

section \<open>A new bridge\<close>

lemma bridge_new_inv:
  assumes "iuc_inv c" "iuc_server_model c = sm_new" "mc_rooms mc = bt_empty"
  shows "br_inv (bridge_new c mc)"
    "get_nick_from_matrix (br_mappings (bridge_new c mc)) (mc_user_id mc) = Some (iuc_nick c)"
proof -
  obtain mp c' where ins: "insert_nick (iuc_nick c) (mc_user_id mc) mapping_store_default c = (mp, c')"
    by fastforce
  have empty: "\<not> iuc_nick_exists c n" "\<not> iuc_channel_exists c n" for n
    by (simp_all add: iuc_nick_exists_def iuc_channel_exists_def assms(2) sm_new_def sm_nick_exists_def
        sm_channel_exists_def bt_contains_def)
  have nv: "nicks_inv mapping_store_default c"
    by (simp add: nicks_inv_def mapping_store_default_def empty)
  have "bt_get (mp_matrix_uid_to_nick mapping_store_default) (mc_user_id mc) = None"
    by (simp add: mapping_store_default_def)
  note s = insert_nick_spec [OF assms(1) nv empty(1) this ins]
  have "channels_inv mp c'"
    using s(3) by (auto simp: channels_inv_def only_users_def mapping_store_default_def empty)
  with s assms(3) show "br_inv (bridge_new c mc)"
    by (simp add: bridge_new_def ins br_inv_def mp_inv_def rooms_inv_def)
  show "get_nick_from_matrix (br_mappings (bridge_new c mc)) (mc_user_id mc) = Some (iuc_nick c)"
    using s(4) by (simp add: bridge_new_def ins get_nick_from_matrix_def)
qed

end
