(* ===== verification/System.thy ===== *)
theory System
  imports Bridge
begin

text \<open>
  The whole of one client's connection: the future \<open>Bridge::create\<close> and, once it is done, the bridge
  it gives, together with the tasks of the two HTTP connections to the home server, as \<open>src/main.rs\<close>
  spawns them. Sockets and connection attempts are the scripts of \<open>Io_Env\<close> and \<open>Http_Client\<close>, so one
  start state stands for one finite behaviour of the network, and the order in which the tasks are
  polled is left open.
\<close>

section \<open>Parameters and state\<close>

record ('u, 'j) setting =
  se_crates :: "('u, 'j) crates"
  se_http :: http_syntax
  se_server_name :: rstr
  se_url :: 'u

text \<open>
  The task of a connection. What a failed one had sent to the client is in the last state of its
  transport, where there is one.
\<close>

datatype ('u, 'j) task =
    Awaiting_irc "(irc_server_connection, user_nick) stream_fold_state"
  | Awaiting_matrix irc_user_connection http_client_inner ticket
  | Bridging "('u, 'j) bridge"
  | Finished
  | Failed exn "irc_server_connection option"

record ('u, 'j) system =
  sy_task :: "('u, 'j) task"
  sy_main :: "reconnecting_stream option"
  sy_main_script :: connect_script
  sy_main_cells :: oneshots
  sy_sync :: "reconnecting_stream option"
  sy_sync_script :: connect_script
  sy_sync_cells :: oneshots

definition system_start ::
  "('u, 'j) setting \<Rightarrow> io_env \<Rightarrow> connect_script \<Rightarrow> connect_script \<Rightarrow> ('u, 'j) system" where
  "system_start se conn main_script sync_script =
     \<lparr>sy_task = Awaiting_irc (await_login (se_server_name se) conn),
      sy_main = None, sy_main_script = main_script, sy_main_cells = bt_empty,
      sy_sync = None, sy_sync_script = sync_script, sy_sync_cells = bt_empty\<rparr>"

section \<open>Creation\<close>

text \<open>
  The two stages of \<open>create\<close>: a poll of the IRC login, which starts the login at the home server when
  it is done, and what follows when the home server has answered. Both give the task that goes on and
  the HTTP connection that was spawned.
\<close>

definition create_irc_login ::
  "('u, 'j) setting \<Rightarrow> (irc_server_connection, user_nick) stream_fold_state \<Rightarrow>
     (('u, 'j) task \<times> reconnecting_stream option) option" where
  "create_irc_login se st =
     (case await_login_poll (se_server_name se) st of
        None \<Rightarrow> None
      | Some (Login_pending st') \<Rightarrow> Some (Awaiting_irc st', None)
      | Some (Login_failed e conn) \<Rightarrow> Some (Failed e conn, None)
      | Some (Logged_in c) \<Rightarrow>
          (case login_request (cr_url (se_crates se)) (cr_json (se_crates se)) (se_url se)
              (iuc_user c) (iuc_password c) of
             Inl e \<Rightarrow> Some (Failed e (Some (iuc_conn c)), None)
           | Inr (t, http, stream) \<Rightarrow> Some (Awaiting_matrix c http t, Some stream)))"

definition create_matrix_login ::
  "('u, 'j) setting \<Rightarrow> irc_user_connection \<Rightarrow> http_client_inner \<Rightarrow> outcome option \<Rightarrow>
     ('u, 'j) task \<times> reconnecting_stream option" where
  "create_matrix_login se c http result =
     (case login_finish_response (cr_url (se_crates se)) (cr_json (se_crates se)) (se_url se) http result of
        Inl e \<Rightarrow> (Failed e (Some (iuc_conn c)), None)
      | Inr res \<Rightarrow>
          (case create_answered c res of
             Inl (e, c') \<Rightarrow> (Failed e (Some (iuc_conn c')), None)
           | Inr (b, stream) \<Rightarrow> (Bridging b, Some stream)))"

section \<open>Running\<close>

text \<open>The bridge resolves when a loop is done or fails.\<close>

definition after_poll :: "exn + unit async \<Rightarrow> ('u, 'j) bridge \<Rightarrow> ('u, 'j) task" where
  "after_poll r b =
     (case r of
        Inl e \<Rightarrow> Failed e (Some (iuc_conn (br_irc_conn b)))
      | Inr (Ready _) \<Rightarrow> Finished
      | Inr NotReady \<Rightarrow> Bridging b)"

fun task_http :: "('u, 'j) task \<Rightarrow> http_client_inner option" where
  "task_http (Awaiting_matrix c http t) = Some http"
| "task_http (Bridging b) = Some (mc_http_stream (br_matrix_client b))"
| "task_http _ = None"

fun set_task_http :: "http_client_inner \<Rightarrow> ('u, 'j) task \<Rightarrow> ('u, 'j) task" where
  "set_task_http http (Awaiting_matrix c _ t) = Awaiting_matrix c http t"
| "set_task_http http (Bridging b) = Bridging (set_main_http http b)"
| "set_task_http http task = task"

text \<open>A join that fails is dropped, or ends the bridge with the error: that is up to the executor.\<close>

inductive system_step ::
  "('u, 'j) setting \<Rightarrow> ('u, 'j) system \<Rightarrow> ('u, 'j) system \<Rightarrow> bool" for se where
  irc_login: "sy_task s = Awaiting_irc st \<Longrightarrow> create_irc_login se st = Some (task, stream)
    \<Longrightarrow> system_step se s (s\<lparr>sy_task := task, sy_main := stream\<rparr>)"
| matrix_login: "sy_task s = Awaiting_matrix c http t \<Longrightarrow> bt_get (sy_main_cells s) t = Some result
    \<Longrightarrow> create_matrix_login se c http result = (task, stream)
    \<Longrightarrow> system_step se s (s\<lparr>sy_task := task, sy_sync := stream,
          sy_main_cells := bt_remove t (sy_main_cells s)\<rparr>)"
| irc: "sy_task s = Bridging b \<Longrightarrow> poll_irc (se_crates se) b = (r, b')
    \<Longrightarrow> system_step se s (s\<lparr>sy_task := after_poll r b'\<rparr>)"
| matrix: "sy_task s = Bridging b \<Longrightarrow> poll_matrix (se_crates se) b (sy_sync_cells s) = (r, b', cells)
    \<Longrightarrow> system_step se s (s\<lparr>sy_task := after_poll r b', sy_sync_cells := cells\<rparr>)"
| joined: "sy_task s = Bridging b \<Longrightarrow> (t, channel) \<in> set (br_joins b)
    \<Longrightarrow> bt_get (sy_main_cells s) t = Some result
    \<Longrightarrow> json_post_result (jo_parse_join (cr_json (se_crates se))) result = Inr resp
    \<Longrightarrow> system_step se s
          (s\<lparr>sy_task := Bridging (join_answered channel resp (b\<lparr>br_joins := remove1 (t, channel) (br_joins b)\<rparr>)),
             sy_main_cells := bt_remove t (sy_main_cells s)\<rparr>)"
| join_failed: "sy_task s = Bridging b \<Longrightarrow> (t, channel) \<in> set (br_joins b)
    \<Longrightarrow> bt_get (sy_main_cells s) t = Some result
    \<Longrightarrow> json_post_result (jo_parse_join (cr_json (se_crates se))) result = Inl e
    \<Longrightarrow> task = Bridging (b\<lparr>br_joins := remove1 (t, channel) (br_joins b)\<rparr>)
       \<or> task = Failed (IoErr (into_io_error e)) (Some (iuc_conn (br_irc_conn b)))
    \<Longrightarrow> system_step se s (s\<lparr>sy_task := task, sy_main_cells := bt_remove t (sy_main_cells s)\<rparr>)"
| main_http: "task_http (sy_task s) = Some http \<Longrightarrow> sy_main s = Some stream
    \<Longrightarrow> stream_poll (se_http se) http stream (sy_main_script s) = (r, http', stream', script, answers)
    \<Longrightarrow> system_step se s
          (s\<lparr>sy_task := set_task_http http' (sy_task s), sy_main := Some stream', sy_main_script := script,
             sy_main_cells := deliver answers (sy_main_cells s)\<rparr>)"
| sync_http: "sy_task s = Bridging b \<Longrightarrow> sy_sync s = Some stream
    \<Longrightarrow> stream_poll (se_http se) (sync_http b) stream (sy_sync_script s) = (r, http', stream', script, answers)
    \<Longrightarrow> system_step se s
          (s\<lparr>sy_task := Bridging (set_sync_http http' b), sy_sync := Some stream', sy_sync_script := script,
             sy_sync_cells := deliver answers (sy_sync_cells s)\<rparr>)"

inductive system_reaches ::
  "('u, 'j) setting \<Rightarrow> ('u, 'j) system \<Rightarrow> ('u, 'j) system \<Rightarrow> bool" for se s where
  start: "system_reaches se s s"
| further: "system_reaches se s t \<Longrightarrow> system_step se t u \<Longrightarrow> system_reaches se s u"

section \<open>Tickets\<close>

text \<open>The requests a bridge queues have new tickets, and only outcomes that are received go away.\<close>

lemma sync_poll_requested:
  "sync_poll_step U c r c' cells' \<Longrightarrow> requested (msc_http_stream c) (msc_http_stream c')"
  by (auto simp: sync_poll_step_def requested_def)

definition received :: "oneshots \<Rightarrow> oneshots \<Rightarrow> bool" where
  "received cells cells' \<longleftrightarrow> (\<forall>t. bt_get cells' t = None \<or> bt_get cells' t = bt_get cells t)"

lemma received_refl [simp]: "received cells cells"
  by (simp add: received_def)

lemma received_trans: "received a b \<Longrightarrow> received b c \<Longrightarrow> received a c"
  unfolding received_def by metis

lemma received_remove [simp]: "received cells (bt_remove t cells)"
  by (simp add: received_def)

lemma received_keys: "received cells cells' \<Longrightarrow> set (bt_keys cells') \<subseteq> set (bt_keys cells)"
  by (auto simp: received_def bt.set_keys) (metis option.distinct(1))

lemma receive_received: "receive t cells = (q, cells') \<Longrightarrow> received cells cells'"
  by (auto simp: receive_def)

lemma sync_client_poll_received: "sync_client_poll U J c cells = (r, c', cells') \<Longrightarrow> received cells cells'"
proof (induction U J c cells rule: sync_client_poll.induct)
  case (1 U J c cells)
  show ?case
  proof (cases "msc_current_sync c")
    case None
    with 1 show ?thesis by (simp add: sync_client_poll.simps [of U J c])
  next
    case (Some t)
    obtain q cells1 where q: "receive t cells = (q, cells1)" by fastforce
    note sub = receive_received [OF q]
    show ?thesis
    proof (cases "\<exists>e. q = Inl e")
      case True
      then obtain e where e: "q = Inl e" by blast
      with "1.prems" Some q have "sync_client_poll U J (c\<lparr>msc_current_sync := None\<rparr>) cells1 = (r, c', cells')"
        by (simp add: sync_client_poll.simps [of U J c])
      with "1.IH"(2) Some q e have "received cells1 cells'" by fastforce
      with sub show ?thesis by (rule received_trans)
    next
      case False
      with "1.prems" Some q sub show ?thesis
        by (auto simp: sync_client_poll.simps [of U J c] Let_def split: sum.splits async.splits if_splits)
    qed
  qed
qed

lemma matrix_poll_sync_tickets:
  assumes "mc_inv c cells" "matrix_poll_sync U J V c cells = (r, c', cells')"
  shows "requested (msc_http_stream (mc_sync_client c)) (msc_http_stream (mc_sync_client c'))"
    "received cells cells'"
proof -
  obtain q sc cells1 where q: "sync_client_poll U J (mc_sync_client c) cells = (q, sc, cells1)"
    by (metis prod_cases3)
  have "requested (msc_http_stream (mc_sync_client c)) (msc_http_stream sc)"
    using sync_client_poll_step [OF _ q] assms(1) sync_poll_requested by (auto simp: mc_inv_def)
  moreover have "mc_sync_client c' = sc \<and> cells' = cells1"
    using assms(2) q by (auto simp: matrix_poll_sync_def split: sum.splits async.splits)
  ultimately show "requested (msc_http_stream (mc_sync_client c)) (msc_http_stream (mc_sync_client c'))"
    "received cells cells'"
    using sync_client_poll_received [OF q] by auto
qed

text \<open>What a poll of the Matrix side does to the two clients and to the joins that wait.\<close>

definition matrix_frame :: "('u, 'j) bridge \<Rightarrow> oneshots \<Rightarrow> ('u, 'j) bridge \<Rightarrow> oneshots \<Rightarrow> bool" where
  "matrix_frame b cells b' cells' \<longleftrightarrow> requested (sync_http b) (sync_http b')
     \<and> received cells cells'
     \<and> mc_http_stream (br_matrix_client b') = mc_http_stream (br_matrix_client b)
     \<and> br_joins b' = br_joins b"

lemma matrix_frame_trans:
  "matrix_frame a x b y \<Longrightarrow> matrix_frame b y c z \<Longrightarrow> matrix_frame a x c z"
  unfolding matrix_frame_def
  by (auto intro: requested_trans [of "sync_http a" "sync_http b"] received_trans [of x y z])

lemma handle_sync_response_joins:
  assumes "br_inv b" "handle_sync_response K resp b = Inr b'"
  shows "br_joins b' = br_joins b"
proof -
  from assms(2) obtain b2 where b2: "handle_room_syncs K (rs_join (sr_rooms resp)) (welcome_first b) = Inr b2"
    "b' = b2\<lparr>br_is_first_sync := False\<rparr>"
    by (auto simp: handle_sync_response_eq)
  have "bridge_frame b b2"
    using handle_room_syncs_keeps [OF welcome_first_keeps(1) [OF assms(1)] b2(1)]
      welcome_first_keeps(2) [OF assms(1)] bridge_frame_trans by blast
  with b2(2) show ?thesis by (simp add: bridge_frame_def)
qed

lemma poll_matrix_tickets:
  assumes "br_inv b" "sync_fresh b cells" "poll_matrix K b cells = (r, b', cells')"
  shows "matrix_frame b cells b' cells'"
proof -
  have "br_inv b' \<and> sync_fresh b' cells' \<and> matrix_frame b cells b' cells'"
    using assms(3,1,2)
  proof (induction rule: poll_matrix_invariant)
    case start
    then show ?case by (simp add: matrix_frame_def)
  next
    case (poll x c q mc c1)
    have "mc_inv (br_matrix_client x) c" using poll(1,2) by (simp add: mc_inv_def br_inv_def sync_fresh_def)
    from matrix_poll_sync_tickets [OF this poll(3)] matrix_poll_sync_step(3) [OF this poll(3)]
    have "matrix_frame x c (x\<lparr>br_matrix_client := mc\<rparr>) c1" by (simp add: matrix_frame_def sync_http_def)
    with poll(4) show ?case by (rule matrix_frame_trans)
  next
    case (closed x c)
    then show ?case by (simp add: matrix_frame_def sync_http_def)
  next
    case (response x c resp x')
    with handle_sync_response_keeps(4) [OF response(1,2)] handle_sync_response_joins [OF response(1,2)]
    show ?case by (simp add: matrix_frame_def sync_http_def)
  qed
  then show ?thesis by simp
qed

text \<open>Every join waits for a ticket of its own.\<close>

definition joins_wf :: "('u, 'j) bridge \<Rightarrow> bool" where
  "joins_wf b \<longleftrightarrow> distinct (map fst (br_joins b))
     \<and> (\<forall>t \<in> set (map fst (br_joins b)). t < hci_next_ticket (mc_http_stream (br_matrix_client b)))"

lemma joins_wf_simps [simp]:
  "joins_wf (b\<lparr>br_irc_conn := c\<rparr>) = joins_wf b" "joins_wf (b\<lparr>br_closed := x\<rparr>) = joins_wf b"
  by (simp_all add: joins_wf_def)

definition irc_frame :: "('u, 'j) bridge \<Rightarrow> ('u, 'j) bridge \<Rightarrow> bool" where
  "irc_frame b b' \<longleftrightarrow> requested (mc_http_stream (br_matrix_client b)) (mc_http_stream (br_matrix_client b'))
     \<and> (joins_wf b \<longrightarrow> joins_wf b')"

lemma irc_frame_trans: "irc_frame a b \<Longrightarrow> irc_frame b c \<Longrightarrow> irc_frame a c"
  unfolding irc_frame_def using requested_trans by blast

lemma do_json_post_requested: "do_json_post U m http url body = Inr (t, http') \<Longrightarrow>
    t = hci_next_ticket http \<and> hci_next_ticket http' = Suc t \<and> requested http http'"
  by (auto simp: do_json_post_def send_request_def requested_def Let_def split: option.splits)

lemma handle_irc_cmd_tickets:
  assumes "handle_irc_cmd K line b = Inr b'"
  shows "irc_frame b b'"
proof (cases "\<exists>channel. line = Join channel")
  case True
  then obtain channel t mc where j: "join_room (cr_url K) (cr_json K) channel (br_matrix_client b) = Inr (t, mc)"
    "b' = b\<lparr>br_matrix_client := mc, br_joins := br_joins b @ [(t, channel)]\<rparr>"
    using assms by (auto simp: handle_irc_cmd_def split: sum.splits)
  then have "t = hci_next_ticket (mc_http_stream (br_matrix_client b)) \<and> hci_next_ticket (mc_http_stream mc) = Suc t
      \<and> requested (mc_http_stream (br_matrix_client b)) (mc_http_stream mc)"
    by (auto simp: join_room_def split: option.splits sum.splits dest: do_json_post_requested)
  with j(2) show ?thesis by (auto simp: irc_frame_def joins_wf_def less_Suc_eq)
next
  case False
  then have "br_joins b' = br_joins b
      \<and> requested (mc_http_stream (br_matrix_client b)) (mc_http_stream (br_matrix_client b'))"
    using assms
    by (auto simp: handle_irc_cmd_def send_text_message_def dest: do_json_post_requested
        split: irc_command.splits option.splits sum.splits prod.splits)
  with requested_next show ?thesis unfolding irc_frame_def joins_wf_def by (metis order_less_le_trans)
qed

lemma irc_frame_refl [simp]: "irc_frame b b"
  by (simp add: irc_frame_def)

lemma poll_irc_loop_tickets:
  assumes "poll_irc_loop K b = (r, b')"
  shows "irc_frame b b'"
  using assms
proof (induction rule: poll_irc_loop_invariant)
  case (command x line x')
  with handle_irc_cmd_tickets show ?case by (blast intro: irc_frame_trans)
qed (simp_all add: irc_frame_def)

lemma poll_irc_tickets: "poll_irc K b = (r, b') \<Longrightarrow> irc_frame b b'"
  using poll_irc_loop_tickets [of K b r b'] by (auto simp: poll_irc_def irc_frame_def split: if_splits)

section \<open>Invariant\<close>

text \<open>
  The tickets of both HTTP clients are in order, the bridge is consistent, and the user of the session
  is the one who logged in on the IRC side.
\<close>

definition connection_wf :: "reconnecting_stream option \<Rightarrow> http_client_inner \<Rightarrow> oneshots \<Rightarrow> bool" where
  "connection_wf conn http cells \<longleftrightarrow>
     (case conn of
        None \<Rightarrow> False
      | Some stream \<Rightarrow> http_wf (pending_tickets (rst_connection_state stream)) http cells)"

definition logged_in :: "('u, 'j) setting \<Rightarrow> io_env \<Rightarrow> irc_user_connection \<Rightarrow> bool" where
  "logged_in se conn c \<longleftrightarrow> login_outcome (env_data conn) (sent conn) (se_server_name se) (Logged_in c)"

definition session_of :: "irc_user_connection \<Rightarrow> ('u, 'j) bridge \<Rightarrow> bool" where
  "session_of c b \<longleftrightarrow> iuc_nick (br_irc_conn b) = iuc_nick c
     \<and> iuc_user_prefix (br_irc_conn b) = iuc_user_prefix c
     \<and> iuc_user (br_irc_conn b) = iuc_user c \<and> iuc_password (br_irc_conn b) = iuc_password c
     \<and> iuc_real_name (br_irc_conn b) = iuc_real_name c
     \<and> get_nick_from_matrix (br_mappings b) (mc_user_id (br_matrix_client b)) = Some (iuc_nick c)"

definition task_inv :: "('u, 'j) setting \<Rightarrow> io_env \<Rightarrow> ('u, 'j) system \<Rightarrow> bool" where
  "task_inv se conn s \<longleftrightarrow>
     (case sy_task s of
        Awaiting_irc st \<Rightarrow> login_outcome (env_data conn) (sent conn) (se_server_name se) (Login_pending st)
          \<and> sy_main_cells s = bt_empty \<and> sy_sync_cells s = bt_empty
      | Awaiting_matrix c http t \<Rightarrow> logged_in se conn c \<and> sy_sync_cells s = bt_empty
          \<and> connection_wf (sy_main s) http (sy_main_cells s)
      | Bridging b \<Rightarrow> br_inv b \<and> joins_wf b \<and> (\<exists>c. logged_in se conn c \<and> session_of c b)
          \<and> connection_wf (sy_main s) (mc_http_stream (br_matrix_client b)) (sy_main_cells s)
          \<and> connection_wf (sy_sync s) (sync_http b) (sy_sync_cells s)
      | Finished \<Rightarrow> True
      | Failed _ _ \<Rightarrow> True)"

lemma connection_wf_requested: "connection_wf conn http cells \<Longrightarrow> requested http http' \<Longrightarrow> connection_wf conn http' cells"
  by (auto simp: connection_wf_def split: option.splits)

lemma connection_wf_keys:
  "connection_wf conn http cells \<Longrightarrow> set (bt_keys cells') \<subseteq> set (bt_keys cells) \<Longrightarrow> connection_wf conn http cells'"
  by (auto simp: connection_wf_def intro: http_wf_keys split: option.splits)

lemma connection_wf_remove: "connection_wf conn http cells \<Longrightarrow> connection_wf conn http (bt_remove t cells)"
  by (rule connection_wf_keys) auto

lemma connection_wf_poll:
  assumes "http_syntax_ok H" "connection_wf (Some stream) http cells"
    and "stream_poll H http stream script = (r, http', stream', script', answers)"
  shows "connection_wf (Some stream') http' (deliver answers cells)"
    "hci_next_ticket http' = hci_next_ticket http"
  using http_wf_poll [OF assms(1) _ assms(3)] assms(2) by (auto simp: connection_wf_def)

lemma connection_wf_fresh:
  assumes "connection_wf conn http cells"
  shows "tickets_fresh http cells"
proof -
  have "\<forall>t \<in> set (bt_keys cells). t < hci_next_ticket http"
    using assms by (auto simp: connection_wf_def http_wf_def split: option.splits)
  then show ?thesis
    by (auto simp: tickets_fresh_def bt.get_none_iff leD)
qed

text \<open>The start, and the two stages of the creation.\<close>

lemma task_inv_start: "task_inv se conn (system_start se conn main_script sync_script)"
proof -
  have "login_seen (env_data conn) (sent conn) (se_server_name se) [] (isc_new conn (se_server_name se))"
    by (rule login_seen_new)
  moreover have "user_nick_default = fold_items login_step [] user_nick_default" by simp
  ultimately show ?thesis
    unfolding task_inv_def system_start_def await_login_def sf_new_def login_outcome_def
    by (simp del: fold_items.simps) blast
qed

lemma login_request_wf:
  assumes "login_request U J url user password = Inr (t, http, stream)"
  shows "t = 0" "connection_wf (Some stream) http bt_empty"
    "\<exists>target login_url body. http_target_of U url = Inr target
       \<and> rst_reconnect_func stream = target \<and> rst_host stream = ht_host target
       \<and> uo_join U url (lit ''/_matrix/client/r0/login'') = Some login_url
       \<and> jo_login_to_vec J \<lparr>lp_user = user, lp_password = password,
           lp_login_type = lit ''m.login.password''\<rparr> = Some body
       \<and> hci_requests http = [(json_post_request U (lit ''POST'') login_url body, t)]"
proof -
  obtain target where target: "http_target_of U url = Inr target"
    using assms by (auto simp: login_request_def split: sum.splits)
  let ?s = "spawn (ht_host target) target"
  have new: "http_client_of target = (http_client_inner_new, ?s)"
    by (cases target) (simp add: http_client_of_def http_client_new_def)
  obtain login_url where url: "uo_join U url (lit ''/_matrix/client/r0/login'') = Some login_url"
    using assms by (auto simp: login_request_def target new split: option.splits)
  obtain body where body: "jo_login_to_vec J \<lparr>lp_user = user, lp_password = password,
      lp_login_type = lit ''m.login.password''\<rparr> = Some body"
    using assms by (auto simp: login_request_def target new url do_json_post_def split: option.splits)
  have r: "t = 0" "stream = ?s" "hci_next_ticket http = 1"
    "hci_requests http = [(json_post_request U (lit ''POST'') login_url body, 0)]"
    using assms by (auto simp: login_request_def target new url body do_json_post_def send_request_def
        http_client_inner_new_def Let_def)
  show "t = 0" "connection_wf (Some stream) http bt_empty"
    using r by (simp_all add: connection_wf_def http_wf_def spawn_def)
  show "\<exists>target login_url body. http_target_of U url = Inr target
       \<and> rst_reconnect_func stream = target \<and> rst_host stream = ht_host target
       \<and> uo_join U url (lit ''/_matrix/client/r0/login'') = Some login_url
       \<and> jo_login_to_vec J \<lparr>lp_user = user, lp_password = password,
           lp_login_type = lit ''m.login.password''\<rparr> = Some body
       \<and> hci_requests http = [(json_post_request U (lit ''POST'') login_url body, t)]"
    using target url body r by (auto simp: spawn_def)
qed

lemma matrix_client_new_facts:
  assumes "matrix_client_new U http url user_id token = Inr (mc, stream)"
  shows "mc_rooms mc = bt_empty" "mc_http_stream mc = http" "mc_user_id mc = user_id"
    "msc_http_stream (mc_sync_client mc) = http_client_inner_new"
    "pending_tickets (rst_connection_state stream) = []"
  using assms
  by (auto simp: matrix_client_new_def matrix_sync_client_new_def http_client_of_def http_client_new_def
      spawn_def split: sum.splits option.splits prod.splits)

lemma bridge_new_fields:
  "br_matrix_client (bridge_new c mc) = mc" "br_joins (bridge_new c mc) = []"
  "iuc_nick (br_irc_conn (bridge_new c mc)) = iuc_nick c"
  "iuc_user_prefix (br_irc_conn (bridge_new c mc)) = iuc_user_prefix c"
  "iuc_user (br_irc_conn (bridge_new c mc)) = iuc_user c"
  "iuc_password (br_irc_conn (bridge_new c mc)) = iuc_password c"
  "iuc_real_name (br_irc_conn (bridge_new c mc)) = iuc_real_name c"
  by (simp_all add: bridge_new_def insert_nick_def iuc_create_user_def)

lemma create_matrix_login_cases:
  assumes "create_matrix_login se c http result = (task, stream)"
  obtains (bridge) mc sync where "task = Bridging (bridge_new c mc)" "stream = Some sync"
      "mc_rooms mc = bt_empty" "mc_http_stream mc = http"
      "msc_http_stream (mc_sync_client mc) = http_client_inner_new"
      "pending_tickets (rst_connection_state sync) = []"
    | (failed) e d where "task = Failed e d"
proof (cases "login_finish_response (cr_url (se_crates se)) (cr_json (se_crates se)) (se_url se) http result")
  case (Inl e)
  with assms failed show thesis by (auto simp: create_matrix_login_def)
next
  case (Inr res)
  show thesis
  proof (cases res)
    case (Inl e)
    with assms failed Inr show thesis
      by (auto simp: create_matrix_login_def create_answered_def split: login_error.splits)
  next
    case (Inr r)
    then obtain mc sync where r: "res = Inr (mc, sync)" by (cases r) auto
    then obtain user_id token where
      "matrix_client_new (cr_url (se_crates se)) http (se_url se) user_id token = Inr (mc, sync)"
      using \<open>login_finish_response _ _ _ _ _ = Inr res\<close>
      by (auto simp: login_finish_response_def split: sum.splits)
    from matrix_client_new_facts [OF this] bridge [of mc sync] assms r show thesis
      using \<open>login_finish_response _ _ _ _ _ = Inr res\<close>
      by (simp add: create_matrix_login_def create_answered_def)
  qed
qed

lemma irc_login_keeps:
  assumes inv: "task_inv se conn s" "sy_task s = Awaiting_irc st"
    and login: "create_irc_login se st = Some (task, stream)"
  shows "task_inv se conn (s\<lparr>sy_task := task, sy_main := stream\<rparr>)"
proof -
  let ?sn = "se_server_name se"
  have cells: "sy_main_cells s = bt_empty" "sy_sync_cells s = bt_empty"
    and "login_outcome (env_data conn) (sent conn) ?sn (Login_pending st)"
    using inv by (simp_all add: task_inv_def)
  then obtain cmds c0 where st: "st = Full c0 (fold_items login_step cmds user_nick_default)"
    "login_seen (env_data conn) (sent conn) ?sn cmds c0"
    by (auto simp: login_outcome_def)
  from login_poll_outcome [OF st(2)] st(1) obtain r where r: "await_login_poll ?sn st = Some r"
    "login_outcome (env_data conn) (sent conn) ?sn r" by blast
  show ?thesis
  proof (cases r)
    case (Login_pending st')
    with login r cells show ?thesis by (auto simp: create_irc_login_def task_inv_def)
  next
    case (Login_failed e d)
    with login r show ?thesis by (auto simp: create_irc_login_def task_inv_def)
  next
    case (Logged_in c)
    with login r cells login_request_wf(2) show ?thesis
      by (auto simp: create_irc_login_def task_inv_def logged_in_def split: sum.splits)
  qed
qed

lemma matrix_login_keeps:
  assumes inv: "task_inv se conn s" "sy_task s = Awaiting_matrix c http t"
    and login: "create_matrix_login se c http result = (task, stream)"
  shows "task_inv se conn (s\<lparr>sy_task := task, sy_sync := stream, sy_main_cells := bt_remove t (sy_main_cells s)\<rparr>)"
proof -
  have c: "logged_in se conn c" and cells: "sy_sync_cells s = bt_empty"
    and main: "connection_wf (sy_main s) http (sy_main_cells s)"
    using inv by (simp_all add: task_inv_def)
  have lo: "iuc_inv c" "iuc_server_model c = sm_new"
    using c by (auto simp: logged_in_def login_outcome_def)
  show ?thesis
    using login
  proof (cases rule: create_matrix_login_cases)
    case (bridge mc sync)
    have "br_inv (bridge_new c mc)" "session_of c (bridge_new c mc)"
      using bridge_new_inv [OF lo bridge(3)] by (simp_all add: session_of_def bridge_new_fields)
    moreover have "joins_wf (bridge_new c mc)" by (simp add: joins_wf_def bridge_new_fields)
    moreover have "connection_wf stream (sync_http (bridge_new c mc)) (sy_sync_cells s)"
      using bridge cells by (simp add: connection_wf_def sync_http_def bridge_new_fields)
    ultimately show ?thesis
      using c bridge connection_wf_remove [OF main] by (auto simp: task_inv_def bridge_new_fields)
  next
    case (failed e d)
    then show ?thesis by (simp add: task_inv_def)
  qed
qed

section \<open>The system refines the bridge\<close>

text \<open>
  Seen from the bridge, a step of the system is a run of \<open>bridge_step\<close>, where the HTTP connections are
  only what takes requests and gives answers.
\<close>

lemma reachable_one: "bridge_step K s t \<Longrightarrow> reachable K s t"
  by (rule reachable.further [OF reachable.start])

lemma reachable_deliver:
  "\<forall>t \<in> set (map fst answers). t < hci_next_ticket (sync_http b) \<Longrightarrow>
     reachable K s (b, cells) \<Longrightarrow> reachable K s (b, deliver answers cells)"
proof (induction answers arbitrary: cells)
  case (Cons a answers)
  have "bridge_step K (b, cells) (b, bt_insert (fst a) (Some (snd a)) cells)"
    using Cons.prems(1) by (intro bridge_step.sync_answer) simp
  then have "reachable K s (b, bt_insert (fst a) (Some (snd a)) cells)"
    using Cons.prems(2) by (rule reachable.further [rotated])
  with Cons show ?case by (simp add: deliver_def split_beta)
qed (simp add: deliver_def)

lemma answered_were_waiting:
  assumes "http_syntax_ok H" "stream_poll H http stream script = (r, http', stream', script', answers)"
  shows "set (map fst answers)
    \<subseteq> set (pending_tickets (rst_connection_state stream) @ map snd (hci_requests http))"
  unfolding stream_poll_in_order [OF assms] by auto

lemma stream_poll_tickets:
  assumes "http_syntax_ok H" "connection_wf (Some stream) http cells"
    "stream_poll H http stream script = (r, http', stream', script', answers)"
  shows "\<forall>t \<in> set (map fst answers). t < hci_next_ticket http"
proof -
  have "\<forall>t \<in> set (pending_tickets (rst_connection_state stream) @ map snd (hci_requests http)).
      t < hci_next_ticket http"
    using assms(2) by (simp add: connection_wf_def http_wf_def)
  with answered_were_waiting [OF assms(1,3)] show ?thesis by blast
qed

lemma after_poll_bridging: "after_poll r b = Bridging b' \<longleftrightarrow> r = Inr NotReady \<and> b' = b"
  by (auto simp: after_poll_def split: sum.splits async.splits)

lemma bridging_step_refines:
  assumes ok: "http_syntax_ok (se_http se)" and inv: "task_inv se conn s"
    and step: "system_step se s s'" and b: "sy_task s = Bridging b" "sy_task s' = Bridging b'"
  shows "reachable (se_crates se) (b, sy_sync_cells s) (b', sy_sync_cells s')"
  using step b
proof cases
  case (irc b0 r b1)
  with b bridge_step.irc [of "se_crates se" b r b1] show ?thesis
    by (auto simp: after_poll_bridging intro: reachable_one)
next
  case (matrix b0 r b1 cells)
  with b bridge_step.matrix [of "se_crates se" b "sy_sync_cells s" r b1 cells] show ?thesis
    by (auto simp: after_poll_bridging intro: reachable_one)
next
  case (joined b0 t channel result resp)
  with b bridge_step.joined [of t channel b "se_crates se" result resp "sy_sync_cells s"] show ?thesis
    by (auto intro: reachable_one)
next
  case (join_failed b0 t channel result e task)
  with b bridge_step.join_failed [of t channel b "se_crates se" result e "sy_sync_cells s"] show ?thesis
    by (auto intro: reachable_one)
next
  case (main_http http stream r http' stream' script answers)
  with b bridge_step.main_request [of "se_crates se" b "sy_sync_cells s" http'] show ?thesis
    by (auto intro: reachable_one)
next
  case (sync_http b0 stream r http' stream' script answers)
  then have poll: "stream_poll (se_http se) (sync_http b) stream (sy_sync_script s)
      = (r, http', stream', script, answers)" and b': "b' = set_sync_http http' b"
    and cells: "sy_sync_cells s' = deliver answers (sy_sync_cells s)" and sy: "sy_sync s = Some stream"
    using b by auto
  have wf: "connection_wf (Some stream) (sync_http b) (sy_sync_cells s)"
    using inv b(1) sy by (simp add: task_inv_def)
  note nx = connection_wf_poll(2) [OF ok wf poll]
  have "reachable (se_crates se) (b, sy_sync_cells s) (b', sy_sync_cells s)"
    unfolding b' by (rule reachable_one [OF bridge_step.sync_request [OF nx]])
  moreover have "hci_next_ticket (sync_http b') = hci_next_ticket (sync_http b)"
    using nx by (simp add: b' sync_http_def set_sync_http_def)
  ultimately show ?thesis
    unfolding cells using stream_poll_tickets [OF ok wf poll] by (intro reachable_deliver) auto
qed (use b in auto)

lemma task_inv_state:
  "task_inv se conn s \<Longrightarrow> sy_task s = Bridging b \<Longrightarrow> state_inv (b, sy_sync_cells s)"
  using connection_wf_fresh by (auto simp: task_inv_def state_inv_def sync_fresh_def sync_http_def)

lemma session_of_same: "session_of c b \<Longrightarrow> same_session b b' \<Longrightarrow> session_of c b'"
  by (auto simp: session_of_def same_session_def keeps_names_def)

lemma joins_wf_remove1: "joins_wf b \<Longrightarrow> joins_wf (b\<lparr>br_joins := remove1 x (br_joins b)\<rparr>)"
  by (auto simp: joins_wf_def distinct_map intro: inj_on_subset dest: notin_set_remove1)

lemma joins_wf_joined: "joins_wf (join_answered channel resp b) = joins_wf b"
  by (simp add: join_answered_def Let_def joins_wf_def split: option.splits)

lemma join_answered_client [simp]: "br_matrix_client (join_answered channel resp b) = br_matrix_client b"
  by (simp add: join_answered_def Let_def split: option.splits)

text \<open>What every step of a running bridge keeps of the tickets.\<close>

definition tickets_inv :: "('u, 'j) system \<Rightarrow> ('u, 'j) bridge \<Rightarrow> bool" where
  "tickets_inv s b \<longleftrightarrow> joins_wf b
     \<and> connection_wf (sy_main s) (mc_http_stream (br_matrix_client b)) (sy_main_cells s)
     \<and> connection_wf (sy_sync s) (sync_http b) (sy_sync_cells s)"

lemma bridging_step_tickets:
  assumes ok: "http_syntax_ok (se_http se)" and inv: "tickets_inv s b" "state_inv (b, sy_sync_cells s)"
    and step: "system_step se s s'" and b: "sy_task s = Bridging b" "sy_task s' = Bridging b'"
  shows "tickets_inv s' b'"
  using step b
proof cases
  case (irc b0 r b1)
  then have "poll_irc (se_crates se) b = (r, b')" "s' = s\<lparr>sy_task := Bridging b'\<rparr>"
    using b by (auto simp: after_poll_bridging)
  with poll_irc_tickets [of "se_crates se" b r b'] poll_irc_keeps [of b "se_crates se" r b'] inv show ?thesis
    by (auto simp: tickets_inv_def irc_frame_def state_inv_def sync_http_def intro: connection_wf_requested)
next
  case (matrix b0 r b1 cells)
  then have p: "poll_matrix (se_crates se) b (sy_sync_cells s) = (r, b', cells)"
    and s': "s' = s\<lparr>sy_task := Bridging b', sy_sync_cells := cells\<rparr>"
    using b by (auto simp: after_poll_bridging)
  have "matrix_frame b (sy_sync_cells s) b' cells"
    using poll_matrix_tickets [OF _ _ p] inv(2) by (simp add: state_inv_def)
  with inv(1) s' show ?thesis
    by (auto simp: tickets_inv_def matrix_frame_def joins_wf_def
        intro: connection_wf_keys [OF connection_wf_requested received_keys])
next
  case (joined b0 t channel result resp)
  with b inv(1) show ?thesis
    by (auto simp: tickets_inv_def joins_wf_joined sync_http_def joins_wf_remove1 connection_wf_remove)
next
  case (join_failed b0 t channel result e task)
  with b inv(1) show ?thesis
    by (auto simp: tickets_inv_def sync_http_def joins_wf_remove1 connection_wf_remove)
next
  case (main_http http stream r http' stream' script answers)
  with b have h: "http = mc_http_stream (br_matrix_client b)" "b' = set_main_http http' b" by auto
  have "connection_wf (Some stream) http (sy_main_cells s)"
    using inv(1) h main_http by (simp add: tickets_inv_def)
  from connection_wf_poll [OF ok this main_http(4)] main_http(1) h inv(1) show ?thesis
    by (simp add: tickets_inv_def joins_wf_def set_main_http_def sync_http_def)
next
  case (sync_http b0 stream r http' stream' script answers)
  with b have h: "b0 = b" "b' = set_sync_http http' b" by auto
  have "connection_wf (Some stream) (sync_http b) (sy_sync_cells s)"
    using inv(1) h sync_http by (simp add: tickets_inv_def)
  from connection_wf_poll [OF ok this] sync_http h inv(1) show ?thesis
    by (simp add: tickets_inv_def joins_wf_def set_sync_http_def sync_http_def)
qed (use b in auto)

lemma bridging_step_keeps:
  assumes ok: "http_syntax_ok (se_http se)" and inv: "task_inv se conn s"
    and step: "system_step se s s'" and b: "sy_task s = Bridging b" "sy_task s' = Bridging b'"
  shows "task_inv se conn s'"
proof -
  note st = task_inv_state [OF inv b(1)]
  from reachable_keeps [OF bridging_step_refines [OF assms] st]
  have k: "state_inv (b', sy_sync_cells s')" "same_session b b'" by simp_all
  have "tickets_inv s b" using inv b(1) by (simp add: task_inv_def tickets_inv_def)
  then have "tickets_inv s' b'" by (rule bridging_step_tickets [OF ok _ st step b])
  moreover have "\<exists>c. logged_in se conn c \<and> session_of c b'"
    using inv b(1) session_of_same k(2) by (fastforce simp: task_inv_def)
  ultimately show ?thesis
    using k(1) b(2) by (simp add: task_inv_def tickets_inv_def state_inv_def)
qed

lemma bridging_goes_on:
  assumes "system_step se s s'" "sy_task s = Bridging b"
  shows "(\<exists>b'. sy_task s' = Bridging b') \<or> sy_task s' = Finished \<or> (\<exists>e d. sy_task s' = Failed e d)"
  using assms by cases (auto simp: after_poll_def split: sum.splits async.splits)

lemma system_step_keeps:
  assumes ok: "http_syntax_ok (se_http se)" and inv: "task_inv se conn s" and step: "system_step se s s'"
  shows "task_inv se conn s'"
proof (cases "\<exists>b. sy_task s = Bridging b")
  case True
  then obtain b where b: "sy_task s = Bridging b" by blast
  from bridging_goes_on [OF step b] show ?thesis
    using bridging_step_keeps [OF ok inv step b] by (auto simp: task_inv_def)
next
  case False
  from step show ?thesis
  proof cases
    case (irc_login st task stream)
    with irc_login_keeps [OF inv] show ?thesis by simp
  next
    case (matrix_login c http t result task stream)
    with matrix_login_keeps [OF inv] show ?thesis by simp
  next
    case (main_http http stream r http' stream' script answers)
    then obtain c t where t: "sy_task s = Awaiting_matrix c http t"
      using False by (cases "sy_task s") auto
    then have "connection_wf (Some stream) http (sy_main_cells s)"
      using inv main_http by (simp add: task_inv_def)
    from connection_wf_poll(1) [OF ok this main_http(4)] inv main_http t show ?thesis
      by (simp add: task_inv_def)
  qed (use False in auto)
qed

lemma system_reaches_keeps:
  "system_reaches se s t \<Longrightarrow> http_syntax_ok (se_http se) \<Longrightarrow> task_inv se conn s \<Longrightarrow> task_inv se conn t"
  by (induction rule: system_reaches.induct) (auto intro: system_step_keeps)

lemma system_reaches_inv:
  "http_syntax_ok (se_http se) \<Longrightarrow> system_reaches se (system_start se conn ms ss) t \<Longrightarrow> task_inv se conn t"
  using system_reaches_keeps task_inv_start by blast

section \<open>What never changes\<close>

text \<open>A bridge that has started goes on or ends; it never goes back to the login.\<close>

fun in_session :: "('u, 'j) task \<Rightarrow> bool" where
  "in_session (Bridging b) = True"
| "in_session Finished = True"
| "in_session (Failed _ _) = True"
| "in_session _ = False"

lemma in_session_http [simp]: "in_session (set_task_http http task) = in_session task"
  by (cases task) simp_all

lemma in_session_step: "system_step se s s' \<Longrightarrow> in_session (sy_task s) \<Longrightarrow> in_session (sy_task s')"
  by (induction rule: system_step.induct) (auto simp: after_poll_def split: sum.splits async.splits)

lemma system_reaches_session:
  assumes ok: "http_syntax_ok (se_http se)" and reach: "system_reaches se s t"
    and inv: "task_inv se conn s" and b: "sy_task s = Bridging b"
  shows "in_session (sy_task t)
    \<and> (\<forall>b'. sy_task t = Bridging b' \<longrightarrow> same_session b b' \<and> reachable (se_crates se) (b, sy_sync_cells s) (b', sy_sync_cells t))"
  using reach
proof induction
  case start
  with b show ?case by (simp add: reachable.start)
next
  case (further t u)
  have invt: "task_inv se conn t" using further.hyps(1) ok inv by (rule system_reaches_keeps)
  show ?case
  proof (intro conjI allI impI)
    show "in_session (sy_task u)" using further in_session_step by blast
    fix b' assume u: "sy_task u = Bridging b'"
    obtain b1 where b1: "sy_task t = Bridging b1"
    proof (cases "sy_task t")
      case (Bridging b1)
      with that show ?thesis .
    qed (use further u in \<open>auto elim: system_step.cases\<close>)
    note r = bridging_step_refines [OF ok invt further.hyps(2) b1 u]
    from further.IH b1 have ih: "same_session b b1"
      "reachable (se_crates se) (b, sy_sync_cells s) (b1, sy_sync_cells t)" by simp_all
    have "same_session b1 b'" using reachable_keeps [OF r task_inv_state [OF invt b1]] by simp
    with ih(1) show "same_session b b'" by (rule same_session_trans)
    show "reachable (se_crates se) (b, sy_sync_cells s) (b', sy_sync_cells u)"
      using r ih(2)
    proof (induction rule: reachable.induct)
      case start
      then show ?case by simp
    next
      case (further x y)
      then show ?case by (blast intro: reachable.further)
    qed
  qed
qed

text \<open>An outcome in a oneshot stays until it is received: no answer is sent to a ticket that has one.\<close>

lemma deliver_get: "t \<notin> set (map fst answers) \<Longrightarrow> bt_get (deliver answers cells) t = bt_get cells t"
  by (induction answers arbitrary: cells) (auto simp: deliver_def split_beta)

lemma poll_keeps_outcomes:
  assumes "http_syntax_ok H" "connection_wf (Some stream) http cells"
    and "stream_poll H http stream script = (r, http', stream', script', answers)"
    and "bt_get cells t = Some x"
  shows "bt_get (deliver answers cells) t = Some x"
proof -
  note answered_were_waiting [OF assms(1,3)]
  moreover have "t \<in> set (bt_keys cells)" using assms(4) by (simp add: bt.set_keys)
  ultimately have "t \<notin> set (map fst answers)"
    using assms(2) unfolding connection_wf_def http_wf_def by auto
  then show ?thesis using assms(4) by (simp add: deliver_get)
qed


text \<open>
  On one connection, the tickets that wait at the server, the queued and the answered ones differ, and
  the answers of the next poll are for waiting or queued tickets without an outcome.
\<close>

definition tickets_once ::
  "http_syntax \<Rightarrow> reconnecting_stream \<Rightarrow> http_client_inner \<Rightarrow> connect_script \<Rightarrow> oneshots \<Rightarrow> bool" where
  "tickets_once H stream http script cells \<longleftrightarrow>
     (let waiting = pending_tickets (rst_connection_state stream) @ map snd (hci_requests http) in
      distinct waiting \<and> set waiting \<inter> set (bt_keys cells) = {}
      \<and> (case stream_poll H http stream script of
           (r, http', stream', script', answers) \<Rightarrow>
             waiting = map fst answers @ pending_tickets (rst_connection_state stream') @ map snd (hci_requests http')
             \<and> list_all (\<lambda>t. bt_get cells t = None) (map fst answers)))"

lemma connection_tickets_once:
  assumes "http_syntax_ok H" "connection_wf (Some stream) http cells"
  shows "tickets_once H stream http script cells"
proof -
  obtain r http' stream' script' answers where
    p: "stream_poll H http stream script = (r, http', stream', script', answers)" by (metis prod_cases5)
  note eq = stream_poll_in_order [OF assms(1) p]
  let ?w = "pending_tickets (rst_connection_state stream) @ map snd (hci_requests http)"
  have w: "distinct ?w" "set ?w \<inter> set (bt_keys cells) = {}"
    using assms(2) by (auto simp: connection_wf_def http_wf_def)
  have "set (map fst answers) \<subseteq> set ?w" unfolding eq by auto
  with w(2) have "list_all (\<lambda>t. bt_get cells t = None) (map fst answers)"
    unfolding list_all_iff bt.get_none_iff by blast
  with w eq show ?thesis
    unfolding tickets_once_def Let_def p by simp
qed

end
