(* ===== verification/Daemon.thy ===== *)
theory Daemon
  imports System
begin

text \<open>
  The daemon of \<open>src/main.rs\<close>: the loop that accepts TCP connections and spawns one task for each, with
  a TLS handshake first where a certificate is configured. The handshake belongs to the TLS library; as
  for the other sockets, a script says what the polls of its future will give.
\<close>

section \<open>Tasks\<close>

record ('u, 'j) config =
  cf_crates :: "('u, 'j) crates"
  cf_http :: http_syntax
  cf_matrix_url :: 'u
  cf_tls_acceptor :: bool

text \<open>What the network does to one client's connection: the client's socket, and the two connection scripts.\<close>

record network =
  nw_socket :: io_env
  nw_main :: connect_script
  nw_sync :: connect_script

type_synonym handshake_script = "(rstr + io_env) async list"

datatype ('u, 'j) client_task =
    Handshaking handshake_script network
  | Handshake_failed io_error
  | Connection "('u, 'j) system"

text \<open>The name the IRC server gives itself is fixed.\<close>

definition connection_setting :: "('u, 'j) config \<Rightarrow> ('u, 'j) setting" where
  "connection_setting cf =
     \<lparr>se_crates = cf_crates cf, se_http = cf_http cf, se_server_name = lit ''localhost'',
      se_url = cf_matrix_url cf\<rparr>"

definition create_connection :: "('u, 'j) config \<Rightarrow> network \<Rightarrow> io_env \<Rightarrow> ('u, 'j) client_task" where
  "create_connection cf nw socket =
     Connection (system_start (connection_setting cf) socket (nw_main nw) (nw_sync nw))"

definition accepted :: "('u, 'j) config \<Rightarrow> handshake_script \<Rightarrow> network \<Rightarrow> ('u, 'j) client_task" where
  "accepted cf hs nw =
     (if cf_tls_acceptor cf then Handshaking hs nw else create_connection cf nw (nw_socket nw))"

text \<open>
  The handshake gives the socket the bridge reads from; an error, of which the script has the text, is
  wrapped and ends the task.
\<close>

fun handshake_poll :: "('u, 'j) config \<Rightarrow> handshake_script \<Rightarrow> network \<Rightarrow> ('u, 'j) client_task" where
  "handshake_poll cf [] nw = Handshaking [] nw"
| "handshake_poll cf (NotReady # hs) nw = Handshaking hs nw"
| "handshake_poll cf (Ready (Inl e) # hs) nw = Handshake_failed (IoError Other e)"
| "handshake_poll cf (Ready (Inr socket) # hs) nw = create_connection cf nw socket"

text \<open>
  The tasks of all clients, in the order they were accepted. The reactor polls any of them next, or takes
  a connection; a run records what has arrived. A panic of a task ends the process; here the other tasks
  may go on, which only adds runs.
\<close>

inductive daemon_step :: "('u, 'j) config \<Rightarrow> ('u, 'j) client_task list \<Rightarrow> ('u, 'j) client_task list \<Rightarrow> bool" for cf where
  handshake: "i < length ds \<Longrightarrow> ds ! i = Handshaking hs nw
    \<Longrightarrow> daemon_step cf ds (ds[i := handshake_poll cf hs nw])"
| connection: "i < length ds \<Longrightarrow> ds ! i = Connection s \<Longrightarrow> system_step (connection_setting cf) s s'
    \<Longrightarrow> daemon_step cf ds (ds[i := Connection s'])"

inductive daemon_reaches ::
  "('u, 'j) config \<Rightarrow> (handshake_script \<times> network) list \<Rightarrow> ('u, 'j) client_task list \<Rightarrow> bool" for cf where
  start: "daemon_reaches cf [] []"
| accept: "daemon_reaches cf arrivals ds
    \<Longrightarrow> daemon_reaches cf (arrivals @ [(hs, nw)]) (ds @ [accepted cf hs nw])"
| further: "daemon_reaches cf arrivals ds \<Longrightarrow> daemon_step cf ds ds' \<Longrightarrow> daemon_reaches cf arrivals ds'"

section \<open>Every client has a run of its own\<close>

text \<open>What a handshake comes to: an error, a socket, or nothing yet.\<close>

fun handshake_result :: "handshake_script \<Rightarrow> (rstr + io_env) option" where
  "handshake_result [] = None"
| "handshake_result (NotReady # hs) = handshake_result hs"
| "handshake_result (Ready r # hs) = Some r"

definition socket_of :: "('u, 'j) config \<Rightarrow> handshake_script \<times> network \<Rightarrow> io_env \<Rightarrow> bool" where
  "socket_of cf a conn \<longleftrightarrow>
     (if cf_tls_acceptor cf then handshake_result (fst a) = Some (Inr conn) else conn = nw_socket (snd a))"

text \<open>The task is one that the client's own arrival leads to, on its own.\<close>

definition own_run :: "('u, 'j) config \<Rightarrow> handshake_script \<times> network \<Rightarrow> ('u, 'j) client_task \<Rightarrow> bool" where
  "own_run cf a d \<longleftrightarrow>
     (case d of
        Handshaking hs nw \<Rightarrow> cf_tls_acceptor cf \<and> nw = snd a \<and> handshake_result hs = handshake_result (fst a)
      | Handshake_failed e \<Rightarrow> (\<exists>m. handshake_result (fst a) = Some (Inl m) \<and> e = IoError Other m)
      | Connection s \<Rightarrow>
          (\<exists>conn. socket_of cf a conn \<and> system_reaches (connection_setting cf)
             (system_start (connection_setting cf) conn (nw_main (snd a)) (nw_sync (snd a))) s))"

lemma create_own_run: "socket_of cf a conn \<Longrightarrow> own_run cf a (create_connection cf (snd a) conn)"
  by (auto simp: own_run_def create_connection_def intro: system_reaches.start)

lemma accepted_own_run: "own_run cf (hs, nw) (accepted cf hs nw)"
  using create_own_run [of cf "(hs, nw)" "nw_socket nw"] by (auto simp: accepted_def own_run_def socket_of_def)

lemma handshake_own_run: "own_run cf a (Handshaking hs nw) \<Longrightarrow> own_run cf a (handshake_poll cf hs nw)"
  by (cases "(cf, hs, nw)" rule: handshake_poll.cases)
    (auto simp: own_run_def socket_of_def intro: create_own_run [unfolded own_run_def])

lemma connection_own_run:
  "own_run cf a (Connection s) \<Longrightarrow> system_step (connection_setting cf) s s' \<Longrightarrow> own_run cf a (Connection s')"
  by (auto simp: own_run_def intro: system_reaches.further)

lemma daemon_step_own_runs:
  assumes "daemon_step cf ds ds'" "list_all2 (own_run cf) arrivals ds"
  shows "list_all2 (own_run cf) arrivals ds'"
proof -
  obtain i d where i: "i < length ds" "ds' = ds[i := d]"
    and d: "\<And>a. own_run cf a (ds ! i) \<Longrightarrow> own_run cf a d"
    using assms(1)
  proof cases
    case (handshake i hs nw)
    with that [of i] handshake_own_run show ?thesis by metis
  next
    case (connection i s s')
    with that [of i] connection_own_run show ?thesis by metis
  qed
  have "own_run cf (arrivals ! i) (ds ! i)" using assms(2) i(1) by (auto dest: list_all2_nthD2)
  then have "list_all2 (own_run cf) (arrivals[i := arrivals ! i]) (ds[i := d])"
    using assms(2) d by (intro list_all2_update_cong) auto
  with i(2) show ?thesis by simp
qed

lemma daemon_own_runs: "daemon_reaches cf arrivals ds \<Longrightarrow> list_all2 (own_run cf) arrivals ds"
  by (induction rule: daemon_reaches.induct)
    (auto intro: daemon_step_own_runs list_all2_appendI accepted_own_run)

text \<open>A client on its own can do in the daemon whatever its connection can do.\<close>

lemma single_client:
  assumes "system_reaches (connection_setting cf) s t" "daemon_reaches cf arrivals [Connection s]"
  shows "daemon_reaches cf arrivals [Connection t]"
  using assms
proof (induction rule: system_reaches.induct)
  case start
  then show ?case .
next
  case (further t u)
  have "daemon_step cf [Connection t] ([Connection t][0 := Connection u])"
    using further.hyps(2) by (intro daemon_step.connection) simp_all
  with further.IH [OF further.prems] show ?case by (auto intro: daemon_reaches.further)
qed

end
