(* ===== verification/Startup.thy ===== *)
theory Startup
  imports Daemon
begin

text \<open>
  The start of the daemon in \<open>src/main.rs\<close>, from the command line to the listening socket. What the
  program calls here belongs to other crates and to the system, and is a field of \<open>platform\<close>: the
  argument parser of \<open>clap\<close>, parsing a socket address and a URL, reading a file, decoding a PKCS#12
  archive, building the TLS acceptor, the reactor and binding. Every one of them may fail with a text.
  What \<open>clap\<close> is given, the declarations of the four arguments, is data of the model; what the program
  relies on it for is the hypothesis \<open>clap_checks\<close>.
\<close>

section \<open>The command line\<close>

text \<open>A declared argument, and the values a parsed command line has, by the names of the declarations.\<close>

record arg_decl =
  ad_name :: rstr
  ad_short :: "rchar option"
  ad_long :: rstr
  ad_required :: bool
  ad_takes_value :: bool
  ad_requires :: "rstr option"
  ad_validator :: "(rstr \<Rightarrow> rstr + unit) option"

type_synonym arg_matches = "rstr \<Rightarrow> rstr option"

record ('a, 'u, 'i) platform =
  pf_get_matches :: "arg_decl list \<Rightarrow> rstr list \<Rightarrow> arg_matches option"
  pf_parse_addr :: "rstr \<Rightarrow> rstr + 'a"
  pf_parse_url :: "rstr \<Rightarrow> rstr + 'u"
  pf_read_file :: "rstr \<Rightarrow> rstr + u8 list"
  pf_from_pkcs12 :: "u8 list \<Rightarrow> rstr \<Rightarrow> rstr + 'i"
  pf_build_acceptor :: "'i \<Rightarrow> rstr + unit"
  pf_new_core :: "rstr + unit"
  pf_bind :: "'a \<Rightarrow> rstr + unit"

definition validate_bind :: "('a, 'u, 'i) platform \<Rightarrow> rstr \<Rightarrow> rstr + unit" where
  "validate_bind P addr =
     map_sum (\<lambda>err. lit ''Invalid bind address: '' @ err) (\<lambda>_. ()) (pf_parse_addr P addr)"

definition validate_matrix_hs :: "('a, 'u, 'i) platform \<Rightarrow> rstr \<Rightarrow> rstr + unit" where
  "validate_matrix_hs P hs =
     map_sum (\<lambda>err. lit ''Invalid url: '' @ err) (\<lambda>_. ()) (pf_parse_url P hs)"

definition app_args :: "('a, 'u, 'i) platform \<Rightarrow> arg_decl list" where
  "app_args P =
     [\<lparr>ad_name = lit ''BIND'', ad_short = Some 98, ad_long = lit ''bind'', ad_required = False,
        ad_takes_value = True, ad_requires = None, ad_validator = Some (validate_bind P)\<rparr>,
      \<lparr>ad_name = lit ''PKCS12'', ad_short = None, ad_long = lit ''pkcs12'', ad_required = False,
        ad_takes_value = True, ad_requires = Some (lit ''PASSWORD''), ad_validator = None\<rparr>,
      \<lparr>ad_name = lit ''PASSWORD'', ad_short = None, ad_long = lit ''password'', ad_required = False,
        ad_takes_value = True, ad_requires = Some (lit ''PKCS12''), ad_validator = None\<rparr>,
      \<lparr>ad_name = lit ''MATRIX_HS'', ad_short = None, ad_long = lit ''url'', ad_required = True,
        ad_takes_value = True, ad_requires = None, ad_validator = Some (validate_matrix_hs P)\<rparr>]"

text \<open>
  What \<open>clap\<close> documents: \<open>get_matches\<close> returns only where every required argument is there, no argument
  comes without the one it requires, and every value passes its validator. Otherwise it prints the
  usage and ends the process.
\<close>

definition arg_checked :: "arg_matches \<Rightarrow> arg_decl \<Rightarrow> bool" where
  "arg_checked m d \<longleftrightarrow>
     (case m (ad_name d) of
        None \<Rightarrow> \<not> ad_required d
      | Some v \<Rightarrow>
          (case ad_requires d of None \<Rightarrow> True | Some r \<Rightarrow> m r \<noteq> None)
          \<and> (case ad_validator d of None \<Rightarrow> True | Some f \<Rightarrow> \<not> isl (f v)))"

definition clap_checks :: "(arg_decl list \<Rightarrow> rstr list \<Rightarrow> arg_matches option) \<Rightarrow> bool" where
  "clap_checks clap \<longleftrightarrow>
     (\<forall>decls argv m. clap decls argv = Some m \<longrightarrow> list_all (arg_checked m) decls)"

section \<open>Starting\<close>

definition load_pkcs12_from_file :: "('a, 'u, 'i) platform \<Rightarrow> rstr \<Rightarrow> rstr \<Rightarrow> rstr + 'i" where
  "load_pkcs12_from_file P cert_file password =
     (case map_sum (\<lambda>err. lit ''Failed to load Pkcs12: '' @ err) id (pf_read_file P cert_file) of
        Inl err \<Rightarrow> Inl err
      | Inr buf \<Rightarrow> map_sum (\<lambda>err. lit ''Failed to load Pkcs12: '' @ err) id (pf_from_pkcs12 P buf password))"

text \<open>\<open>Result::unwrap\<close>, \<open>Result::expect\<close> and \<open>Option::unwrap\<close>, without the text of the error.\<close>

definition unwrap_result :: "'e + 'b \<Rightarrow> exn + 'b" where
  "unwrap_result r = map_sum (\<lambda>_. Panic ''called `Result::unwrap()` on an `Err` value'') id r"

definition expect_result :: "string \<Rightarrow> 'e + 'b \<Rightarrow> exn + 'b" where
  "expect_result msg r = map_sum (\<lambda>_. Panic msg) id r"

definition unwrap_option :: "'b option \<Rightarrow> exn + 'b" where
  "unwrap_option v =
     (case v of Some x \<Rightarrow> Inr x | None \<Rightarrow> Inl (Panic ''called `Option::unwrap()` on a `None` value''))"

definition tls_setup :: "('a, 'u, 'i) platform \<Rightarrow> arg_matches \<Rightarrow> exn + bool" where
  "tls_setup P m =
     (case m (lit ''PKCS12'') of
        None \<Rightarrow> Inr False
      | Some pkcs12_file \<Rightarrow>
          (case unwrap_option (m (lit ''PASSWORD'')) of
             Inl e \<Rightarrow> Inl e
           | Inr pass \<Rightarrow>
               (case expect_result ''error reading pkcs12'' (load_pkcs12_from_file P pkcs12_file pass) of
                  Inl e \<Rightarrow> Inl e
                | Inr pkcs12 \<Rightarrow> map_sum id (\<lambda>_. True) (unwrap_result (pf_build_acceptor P pkcs12)))))"

definition default_bind :: rstr where
  "default_bind = lit ''127.0.0.1:5999''"

datatype ('a, 'u, 'j) started =
    Usage
  | Panicked exn
  | Listening 'a "('u, 'j) config"

definition main_start ::
  "('a, 'u, 'i) platform \<Rightarrow> ('u, 'j) crates \<Rightarrow> http_syntax \<Rightarrow> rstr list \<Rightarrow> ('a, 'u, 'j) started" where
  "main_start P K H argv =
     (case pf_get_matches P (app_args P) argv of
        None \<Rightarrow> Usage
      | Some matches \<Rightarrow>
          (case unwrap_result (pf_parse_addr P (unwrap_or default_bind (matches (lit ''BIND'')))) of
             Inl e \<Rightarrow> Panicked e
           | Inr addr \<Rightarrow>
          (case unwrap_option (matches (lit ''MATRIX_HS'')) of
             Inl e \<Rightarrow> Panicked e
           | Inr hs \<Rightarrow>
          (case unwrap_result (pf_parse_url P hs) of
             Inl e \<Rightarrow> Panicked e
           | Inr matrix_url \<Rightarrow>
          (case tls_setup P matches of
             Inl e \<Rightarrow> Panicked e
           | Inr tls \<Rightarrow>
          (case unwrap_result (pf_new_core P) of
             Inl e \<Rightarrow> Panicked e
           | Inr _ \<Rightarrow>
          (case unwrap_result (pf_bind P addr) of
             Inl e \<Rightarrow> Panicked e
           | Inr _ \<Rightarrow>
               Listening addr \<lparr>cf_crates = K, cf_http = H, cf_matrix_url = matrix_url,
                 cf_tls_acceptor = tls\<rparr>)))))))"

section \<open>What a start comes to\<close>

lemmas start_simps = unwrap_result_def expect_result_def unwrap_option_def

text \<open>The arguments that pass leave nothing to unwrap but the certificate, the reactor and the socket.\<close>

lemma get_matches_values:
  assumes "clap_checks (pf_get_matches P)" "pf_get_matches P (app_args P) argv = Some m"
  obtains hs url where "m (lit ''MATRIX_HS'') = Some hs" "pf_parse_url P hs = Inr url"
    "m (lit ''BIND'') = None \<or> (\<exists>s addr. m (lit ''BIND'') = Some s \<and> pf_parse_addr P s = Inr addr)"
    "m (lit ''PKCS12'') \<noteq> None \<longleftrightarrow> m (lit ''PASSWORD'') \<noteq> None"
proof -
  have ok: "list_all (arg_checked m) (app_args P)" using assms by (auto simp: clap_checks_def)
  then obtain hs where hs: "m (lit ''MATRIX_HS'') = Some hs"
    by (auto simp: app_args_def arg_checked_def split: option.splits)
  with ok have "\<not> isl (validate_matrix_hs P hs)" by (simp add: app_args_def arg_checked_def)
  then obtain url where "pf_parse_url P hs = Inr url"
    by (cases "pf_parse_url P hs") (auto simp: validate_matrix_hs_def)
  moreover have "m (lit ''BIND'') = None \<or> (\<exists>s addr. m (lit ''BIND'') = Some s \<and> pf_parse_addr P s = Inr addr)"
  proof (cases "m (lit ''BIND'')")
    case (Some s)
    with ok have "\<not> isl (validate_bind P s)" by (simp add: app_args_def arg_checked_def)
    with Some show ?thesis by (cases "pf_parse_addr P s") (auto simp: validate_bind_def)
  qed simp
  moreover have "m (lit ''PKCS12'') \<noteq> None \<longleftrightarrow> m (lit ''PASSWORD'') \<noteq> None"
    using ok by (auto simp: app_args_def arg_checked_def)
  ultimately show thesis using that hs by blast
qed

definition certificate_ok :: "('a, 'u, 'i) platform \<Rightarrow> arg_matches \<Rightarrow> bool" where
  "certificate_ok P m \<longleftrightarrow>
     (case (m (lit ''PKCS12''), m (lit ''PASSWORD'')) of
        (Some cert_file, Some password) \<Rightarrow>
          (case load_pkcs12_from_file P cert_file password of
             Inl _ \<Rightarrow> False
           | Inr identity \<Rightarrow> \<not> isl (pf_build_acceptor P identity))
      | _ \<Rightarrow> True)"

lemma tls_setup_spec:
  assumes "m (lit ''PKCS12'') \<noteq> None \<longleftrightarrow> m (lit ''PASSWORD'') \<noteq> None"
  shows "if certificate_ok P m then tls_setup P m = Inr (m (lit ''PKCS12'') \<noteq> None)
    else \<exists>msg. tls_setup P m = Inl (Panic msg)"
proof (cases "m (lit ''PKCS12'')")
  case None
  then show ?thesis by (simp add: certificate_ok_def tls_setup_def)
next
  case (Some cert_file)
  with assms obtain password where pw: "m (lit ''PASSWORD'') = Some password" by auto
  show ?thesis
  proof (cases "load_pkcs12_from_file P cert_file password")
    case (Inl e)
    with Some pw show ?thesis by (simp add: certificate_ok_def tls_setup_def start_simps)
  next
    case (Inr identity)
    with Some pw show ?thesis
      by (cases "pf_build_acceptor P identity") (simp_all add: certificate_ok_def tls_setup_def start_simps)
  qed
qed

lemma main_start_spec:
  assumes clap: "clap_checks (pf_get_matches P)" and m: "pf_get_matches P (app_args P) argv = Some m"
    and default_addr: "pf_parse_addr P default_bind = Inr a0"
  obtains addr hs url where "pf_parse_addr P (unwrap_or default_bind (m (lit ''BIND''))) = Inr addr"
    "m (lit ''MATRIX_HS'') = Some hs" "pf_parse_url P hs = Inr url"
    "m (lit ''PKCS12'') \<noteq> None \<longleftrightarrow> m (lit ''PASSWORD'') \<noteq> None"
    "if certificate_ok P m \<and> \<not> isl (pf_new_core P) \<and> \<not> isl (pf_bind P addr)
     then main_start P K H argv = Listening addr \<lparr>cf_crates = K, cf_http = H, cf_matrix_url = url,
       cf_tls_acceptor = (m (lit ''PKCS12'') \<noteq> None)\<rparr>
     else \<exists>msg. main_start P K H argv = Panicked (Panic msg)"
proof -
  obtain hs url where hs: "m (lit ''MATRIX_HS'') = Some hs" "pf_parse_url P hs = Inr url"
    and bind: "m (lit ''BIND'') = None \<or> (\<exists>s addr. m (lit ''BIND'') = Some s \<and> pf_parse_addr P s = Inr addr)"
    and both: "m (lit ''PKCS12'') \<noteq> None \<longleftrightarrow> m (lit ''PASSWORD'') \<noteq> None"
    by (rule get_matches_values [OF clap m])
  obtain addr where addr: "pf_parse_addr P (unwrap_or default_bind (m (lit ''BIND''))) = Inr addr"
    using bind default_addr by (auto simp: unwrap_or_def)
  note eq = main_start_def [of P K H argv, unfolded m option.case]
  note steps = addr hs start_simps
  have "if certificate_ok P m \<and> \<not> isl (pf_new_core P) \<and> \<not> isl (pf_bind P addr)
     then main_start P K H argv = Listening addr \<lparr>cf_crates = K, cf_http = H, cf_matrix_url = url,
       cf_tls_acceptor = (m (lit ''PKCS12'') \<noteq> None)\<rparr>
     else \<exists>msg. main_start P K H argv = Panicked (Panic msg)"
  proof (cases "certificate_ok P m")
    case False
    then obtain msg where "tls_setup P m = Inl (Panic msg)"
      using tls_setup_spec [OF both, of P] by auto
    with False show ?thesis unfolding eq by (simp add: steps)
  next
    case True
    then have "tls_setup P m = Inr (m (lit ''PKCS12'') \<noteq> None)"
      using tls_setup_spec [OF both, of P] by simp
    with True show ?thesis
      unfolding eq by (cases "pf_new_core P"; cases "pf_bind P addr") (simp_all add: steps)
  qed
  with that addr hs both show thesis by blast
qed

lemma tls_setup_tls: "tls_setup P m = Inr tls \<Longrightarrow> tls \<longleftrightarrow> m (lit ''PKCS12'') \<noteq> None"
  by (auto simp: tls_setup_def start_simps split: option.splits sum.splits)

lemma listening_tls:
  assumes "main_start P K H argv = Listening addr cf" "pf_get_matches P (app_args P) argv = Some m"
  shows "cf_tls_acceptor cf \<longleftrightarrow> m (lit ''PKCS12'') \<noteq> None"
  using assms
  by (auto simp: main_start_def split: option.splits sum.splits dest!: tls_setup_tls)

end
