(* ===== verification/Logging.thy ===== *)
theory Logging
  imports Daemon
begin

text \<open>
  The log of \<open>src/macros.rs\<close> and \<open>src/main.rs\<close>: the task-local context of a connection, the macros that
  choose the logger by it, and the lines \<open>main.rs\<close> writes for a client from the accept to its end. The lines
  that the transport, the sync loop and the bridge of the client write in between are not among them.
  Formatting a line, dropping it by its level and writing it belong to the \<open>slog\<close> crates: a line here is
  what they are handed.
\<close>

section \<open>Lines\<close>

datatype log_level = Level_Crit | Level_Error | Level_Warning | Level_Info | Level_Debug | Level_Trace

text \<open>\<open>Default_logger\<close> is the \<open>DEFAULT_LOGGER\<close>; \<open>Peer_logger\<close> is made from it with the peer's address.\<close>

datatype logger = Default_logger | Peer_logger rstr "16 word"

record log_line =
  ll_logger :: logger
  ll_level :: log_level
  ll_message :: rstr
  ll_pairs :: "(rstr \<times> rstr) list"

type_synonym peer_addr = "rstr \<times> 16 word"

record connection_context =
  cc_logger :: logger
  cc_peer_addr :: peer_addr

definition context_of_peer :: "peer_addr \<Rightarrow> connection_context" where
  "context_of_peer addr = \<lparr>cc_logger = Peer_logger (fst addr) (snd addr), cc_peer_addr = addr\<rparr>"

section \<open>The macros\<close>

definition task_log :: "log_level \<Rightarrow> connection_context option \<Rightarrow> string \<Rightarrow> (rstr \<times> rstr) list \<Rightarrow> log_line" where
  "task_log lvl CONTEXT message pairs =
     (case CONTEXT of
        Some ctx \<Rightarrow> \<lparr>ll_logger = cc_logger ctx, ll_level = lvl, ll_message = lit message, ll_pairs = pairs\<rparr>
      | None \<Rightarrow> \<lparr>ll_logger = Default_logger, ll_level = lvl, ll_message = lit message, ll_pairs = pairs\<rparr>)"

definition task_trace :: "connection_context option \<Rightarrow> string \<Rightarrow> (rstr \<times> rstr) list \<Rightarrow> log_line" where
  "task_trace = task_log Level_Trace"

definition task_debug :: "connection_context option \<Rightarrow> string \<Rightarrow> (rstr \<times> rstr) list \<Rightarrow> log_line" where
  "task_debug = task_log Level_Debug"

definition task_info :: "connection_context option \<Rightarrow> string \<Rightarrow> (rstr \<times> rstr) list \<Rightarrow> log_line" where
  "task_info = task_log Level_Info"

definition task_warn :: "connection_context option \<Rightarrow> string \<Rightarrow> (rstr \<times> rstr) list \<Rightarrow> log_line" where
  "task_warn = task_log Level_Warning"

definition task_error :: "connection_context option \<Rightarrow> string \<Rightarrow> (rstr \<times> rstr) list \<Rightarrow> log_line" where
  "task_error = task_log Level_Error"

definition task_crit :: "connection_context option \<Rightarrow> string \<Rightarrow> (rstr \<times> rstr) list \<Rightarrow> log_line" where
  "task_crit = task_log Level_Crit"

section \<open>The lines of a client's task\<close>

text \<open>
  A task and its context. The first poll runs \<open>setup_future\<close>, which writes a line to the peer's logger and
  sets the context; \<open>display\<close> is how an \<open>io::Error\<close> is written.
\<close>

record ('u, 'j) logged_task =
  lt_task :: "('u, 'j) client_task"
  lt_peer :: peer_addr
  lt_context :: "connection_context option"
  lt_lines :: "log_line list"

definition spawned :: "('u, 'j) config \<Rightarrow> peer_addr \<Rightarrow> handshake_script \<Rightarrow> network \<Rightarrow> ('u, 'j) logged_task" where
  "spawned cf addr hs nw =
     \<lparr>lt_task = accepted cf hs nw, lt_peer = addr, lt_context = None, lt_lines = []\<rparr>"

definition setup_future :: "('u, 'j) logged_task \<Rightarrow> ('u, 'j) logged_task" where
  "setup_future l =
     (let ctx = context_of_peer (lt_peer l) in
      l\<lparr>lt_context := Some ctx,
        lt_lines := lt_lines l @
          [\<lparr>ll_logger = cc_logger ctx, ll_level = Level_Debug, ll_message = lit ''Accepted connection'', ll_pairs = []\<rparr>]\<rparr>)"

definition log_error :: "(io_error \<Rightarrow> rstr) \<Rightarrow> connection_context option \<Rightarrow> string \<Rightarrow> io_error \<Rightarrow> log_line" where
  "log_error display CONTEXT message e = task_warn CONTEXT message [(lit ''error'', display e)]"

text \<open>
  The combinators at the end of the future: \<open>map_err\<close> for an error of the handshake or of the connection,
  and \<open>then\<close> for the last line, which only the future with TLS has. A panic ends the process.
\<close>

definition end_lines :: "(io_error \<Rightarrow> rstr) \<Rightarrow> bool \<Rightarrow> connection_context option \<Rightarrow> ('u, 'j) client_task \<Rightarrow> log_line list" where
  "end_lines display tls CONTEXT d =
     (let finished = (if tls then [task_info CONTEXT ''Finished'' []] else []) in
      case d of
        Handshaking hs nw \<Rightarrow> []
      | Handshake_failed e \<Rightarrow> log_error display CONTEXT ''TLS handshake failed'' e # finished
      | Connection s \<Rightarrow>
          (case sy_task s of
             Finished \<Rightarrow> finished
           | Failed (IoErr e) _ \<Rightarrow> log_error display CONTEXT ''Unhandled IO error'' e # finished
           | _ \<Rightarrow> []))"

definition log_step :: "(io_error \<Rightarrow> rstr) \<Rightarrow> ('u, 'j) config \<Rightarrow> ('u, 'j) client_task \<Rightarrow> ('u, 'j) logged_task \<Rightarrow> ('u, 'j) logged_task" where
  "log_step display cf d l =
     l\<lparr>lt_task := d, lt_lines := lt_lines l @ end_lines display (cf_tls_acceptor cf) (lt_context l) d\<rparr>"

text \<open>One poll of the task of one client: its setup, then what the daemon does.\<close>

inductive logged_step ::
  "(io_error \<Rightarrow> rstr) \<Rightarrow> ('u, 'j) config \<Rightarrow> ('u, 'j) logged_task \<Rightarrow> ('u, 'j) logged_task \<Rightarrow> bool" for display cf where
  setup_poll: "lt_context l = None \<Longrightarrow> logged_step display cf l (setup_future l)"
| handshake: "lt_context l \<noteq> None \<Longrightarrow> lt_task l = Handshaking hs nw
    \<Longrightarrow> logged_step display cf l (log_step display cf (handshake_poll cf hs nw) l)"
| connection: "lt_context l \<noteq> None \<Longrightarrow> lt_task l = Connection s \<Longrightarrow> system_step (connection_setting cf) s s'
    \<Longrightarrow> logged_step display cf l (log_step display cf (Connection s') l)"

inductive logged_reaches ::
  "(io_error \<Rightarrow> rstr) \<Rightarrow> ('u, 'j) config \<Rightarrow> ('u, 'j) logged_task \<Rightarrow> ('u, 'j) logged_task \<Rightarrow> bool" for display cf l where
  start: "logged_reaches display cf l l"
| further: "logged_reaches display cf l l' \<Longrightarrow> logged_step display cf l' l'' \<Longrightarrow> logged_reaches display cf l l''"

section \<open>What the log says\<close>

lemma task_log_pick:
  "ll_logger (task_log lvl c m ps) = (case c of Some ctx \<Rightarrow> cc_logger ctx | None \<Rightarrow> Default_logger)"
  "ll_level (task_log lvl c m ps) = lvl" "ll_message (task_log lvl c m ps) = lit m" "ll_pairs (task_log lvl c m ps) = ps"
  by (simp_all add: task_log_def split: option.split)

text \<open>A task that is over does not step, and one that goes on has not ended.\<close>

definition going_on :: "('u, 'j) client_task \<Rightarrow> bool" where
  "going_on d \<longleftrightarrow> (case d of
     Handshaking hs nw \<Rightarrow> True
   | Handshake_failed e \<Rightarrow> False
   | Connection s \<Rightarrow> (case sy_task s of Finished \<Rightarrow> False | Failed e c \<Rightarrow> False | _ \<Rightarrow> True))"

lemma system_step_going_on: "system_step se s s' \<Longrightarrow> going_on (Connection s)"
  by (induction rule: system_step.induct) (auto simp: going_on_def elim: task_http.elims split: task.splits)

lemma end_lines_going_on: "going_on d \<Longrightarrow> end_lines display tls c d = []"
  by (auto simp: going_on_def end_lines_def Let_def split: client_task.splits task.splits)

lemma accepted_going_on: "going_on (accepted cf hs nw)"
  by (simp add: accepted_def going_on_def create_connection_def system_start_def)

definition accepted_line :: "peer_addr \<Rightarrow> log_line" where
  "accepted_line addr =
     \<lparr>ll_logger = Peer_logger (fst addr) (snd addr), ll_level = Level_Debug,
      ll_message = lit ''Accepted connection'', ll_pairs = []\<rparr>"

text \<open>The lines of a task, as a function of where it has come to.\<close>

definition log_of :: "(io_error \<Rightarrow> rstr) \<Rightarrow> ('u, 'j) config \<Rightarrow> ('u, 'j) logged_task \<Rightarrow> log_line list" where
  "log_of display cf l =
     (if lt_context l = None then []
      else accepted_line (lt_peer l) # end_lines display (cf_tls_acceptor cf) (Some (context_of_peer (lt_peer l))) (lt_task l))"

definition logged_inv :: "(io_error \<Rightarrow> rstr) \<Rightarrow> ('u, 'j) config \<Rightarrow> ('u, 'j) logged_task \<Rightarrow> bool" where
  "logged_inv display cf l \<longleftrightarrow> lt_lines l = log_of display cf l
     \<and> (case lt_context l of None \<Rightarrow> going_on (lt_task l) | Some ctx \<Rightarrow> ctx = context_of_peer (lt_peer l))"

lemma spawned_inv: "logged_inv display cf (spawned cf addr hs nw)"
  by (simp add: logged_inv_def spawned_def log_of_def accepted_going_on)

lemma logged_step_inv:
  assumes "logged_step display cf l l'" "logged_inv display cf l"
  shows "logged_inv display cf l' \<and> lt_peer l' = lt_peer l"
  using assms
proof (induction rule: logged_step.induct)
  case (setup_poll l)
  then show ?case
    by (simp add: logged_inv_def setup_future_def log_of_def Let_def end_lines_going_on accepted_line_def
        context_of_peer_def)
next
  case (handshake l hs nw)
  then show ?case
    by (auto simp: logged_inv_def log_of_def log_step_def end_lines_going_on going_on_def)
next
  case (connection l s s')
  then show ?case
    using system_step_going_on [OF connection.hyps(3)]
    by (auto simp: logged_inv_def log_of_def log_step_def end_lines_going_on)
qed

lemma logged_reaches_inv:
  "logged_reaches display cf (spawned cf addr hs nw) l \<Longrightarrow> logged_inv display cf l \<and> lt_peer l = addr"
proof (induction rule: logged_reaches.induct)
  case start
  then show ?case using spawned_inv by (simp add: spawned_def)
next
  case (further l' l'')
  then show ?case using logged_step_inv by metis
qed

text \<open>The log changes nothing of the run: less the log, a step is a step of the daemon.\<close>

lemma logged_step_daemon:
  "logged_step display cf l l' \<Longrightarrow> lt_task l' = lt_task l \<or> daemon_step cf [lt_task l] [lt_task l']"
proof (induction rule: logged_step.induct)
  case (handshake l hs nw)
  then show ?case using daemon_step.handshake [of 0 "[lt_task l]" hs nw cf] by (simp add: log_step_def)
next
  case (connection l s s')
  then show ?case using daemon_step.connection [of 0 "[lt_task l]" s cf s'] by (simp add: log_step_def)
qed (simp add: setup_future_def Let_def)

end
