(* ===== verification/Http_Service.thy ===== *)
theory Http_Service
  imports Http_Client
begin

text \<open>
  The contract of an HTTP connection with the futures that use it. A client asks, the task of the
  connection is polled, and the outcome of a ticket is taken; the locale \<open>ticket_service\<close> states what the
  client may rely on, and the queue, the connection and the oneshots of \<open>src/http.rs\<close> provide it.
\<close>

section \<open>The contract\<close>

datatype 'r action = Request 'r | Turn | Take nat

fun run_actions ::
  "('r \<Rightarrow> 's \<Rightarrow> nat \<times> 's) \<Rightarrow> ('s \<Rightarrow> 's) \<Rightarrow> (nat \<Rightarrow> 's \<Rightarrow> 'o \<times> 's) \<Rightarrow> 'r action list \<Rightarrow> 's \<Rightarrow> nat list \<times> 's" where
  "run_actions request turn fetch [] s = ([], s)"
| "run_actions request turn fetch (Request r # as) s =
     (let (t, s') = request r s; (ts, s'') = run_actions request turn fetch as s' in (t # ts, s''))"
| "run_actions request turn fetch (Turn # as) s = run_actions request turn fetch as (turn s)"
| "run_actions request turn fetch (Take t # as) s = run_actions request turn fetch as (snd (fetch t s))"

locale ticket_service =
  fixes ok :: "'s \<Rightarrow> bool"
    and issued :: "'s \<Rightarrow> nat"
    and waiting :: "'s \<Rightarrow> nat \<Rightarrow> bool"
    and answered :: "'s \<Rightarrow> nat \<Rightarrow> bool"
    and request :: "'r \<Rightarrow> 's \<Rightarrow> nat \<times> 's"
    and turn :: "'s \<Rightarrow> 's"
    and fetch :: "nat \<Rightarrow> 's \<Rightarrow> 'o \<times> 's"
  assumes bounded: "ok s \<Longrightarrow> waiting s t \<or> answered s t \<Longrightarrow> t < issued s"
    and one_state: "ok s \<Longrightarrow> waiting s t \<Longrightarrow> \<not> answered s t"
    and request_ok: "ok s \<Longrightarrow> request r s = (t, s') \<Longrightarrow> ok s' \<and> t = issued s \<and> issued s' = Suc t"
    and request_waiting: "ok s \<Longrightarrow> request r s = (t, s') \<Longrightarrow> waiting s' u \<longleftrightarrow> waiting s u \<or> u = t"
    and request_answered: "ok s \<Longrightarrow> request r s = (t, s') \<Longrightarrow> answered s' u \<longleftrightarrow> answered s u"
    and turn_ok: "ok s \<Longrightarrow> ok (turn s) \<and> issued (turn s) = issued s"
    and turn_keeps: "ok s \<Longrightarrow> waiting (turn s) u \<or> answered (turn s) u \<longleftrightarrow> waiting s u \<or> answered s u"
    and turn_answered: "ok s \<Longrightarrow> answered s u \<Longrightarrow> answered (turn s) u"
    and fetch_ok: "ok s \<Longrightarrow> fetch t s = (v, s') \<Longrightarrow> ok s' \<and> issued s' = issued s"
    and fetch_waiting: "ok s \<Longrightarrow> fetch t s = (v, s') \<Longrightarrow> waiting s' u \<longleftrightarrow> waiting s u"
    and fetch_answered: "ok s \<Longrightarrow> fetch t s = (v, s') \<Longrightarrow> answered s' u \<longleftrightarrow> answered s u \<and> u \<noteq> t"
begin

definition known :: "'s \<Rightarrow> nat \<Rightarrow> bool" where
  "known s t \<longleftrightarrow> waiting s t \<or> answered s t"

lemma request_known: "ok s \<Longrightarrow> request r s = (t, s') \<Longrightarrow> known s' u \<longleftrightarrow> known s u \<or> u = t"
  using request_waiting request_answered by (auto simp: known_def)

lemma turn_known: "ok s \<Longrightarrow> known (turn s) u \<longleftrightarrow> known s u"
  by (simp add: known_def turn_keeps)

lemma fetch_known: "ok s \<Longrightarrow> u \<noteq> t \<Longrightarrow> known (snd (fetch t s)) u \<longleftrightarrow> known s u"
  by (cases "fetch t s") (simp add: known_def fetch_waiting fetch_answered)

lemma new_ticket: "ok s \<Longrightarrow> request r s = (t, s') \<Longrightarrow> \<not> known s t"
  using bounded request_ok by (fastforce simp: known_def)

lemma run_ok:
  "ok s \<Longrightarrow> run_actions request turn fetch as s = (ts, s') \<Longrightarrow>
     ok s' \<and> ts = [issued s..<issued s'] \<and> issued s \<le> issued s'"
proof (induction as arbitrary: s ts)
  case (Cons a as)
  show ?case
  proof (cases a)
    case (Request r)
    obtain t s1 where r: "request r s = (t, s1)" by fastforce
    obtain us where us: "run_actions request turn fetch as s1 = (us, s')" "ts = t # us"
      using Cons.prems(2) r Request by (auto split: prod.splits)
    from Cons.IH [OF _ us(1)] request_ok [OF Cons.prems(1) r] us(2) show ?thesis
      by (auto simp: upt_conv_Cons)
  next
    case Turn
    with Cons turn_ok [OF Cons.prems(1)] show ?thesis by fastforce
  next
    case (Take t)
    obtain v s1 where "fetch t s = (v, s1)" by fastforce
    with Cons Take fetch_ok [OF Cons.prems(1)] show ?thesis by fastforce
  qed
qed simp

lemma run_known:
  "ok s \<Longrightarrow> run_actions request turn fetch as s = (ts, s') \<Longrightarrow> Take u \<notin> set as \<Longrightarrow>
     known s' u \<longleftrightarrow> known s u \<or> u \<in> set ts"
proof (induction as arbitrary: s ts)
  case (Cons a as)
  show ?case
  proof (cases a)
    case (Request r)
    obtain t s1 where r: "request r s = (t, s1)" by fastforce
    obtain us where us: "run_actions request turn fetch as s1 = (us, s')" "ts = t # us"
      using Cons.prems(2) r Request by (auto split: prod.splits)
    from Cons.IH [OF _ us(1)] request_ok [OF Cons.prems(1) r] request_known [OF Cons.prems(1) r] us(2) Cons.prems(3)
    show ?thesis by auto
  next
    case Turn
    with Cons turn_ok [OF Cons.prems(1)] turn_known [OF Cons.prems(1)] show ?thesis by fastforce
  next
    case (Take t)
    obtain v s1 where s1: "fetch t s = (v, s1)" by fastforce
    with Cons Take fetch_ok [OF Cons.prems(1) s1] fetch_known [OF Cons.prems(1), of u t] show ?thesis by fastforce
  qed
qed simp

lemma run_tickets:
  assumes "ok s" "run_actions request turn fetch as s = (ts, s')"
  shows "distinct ts" "t \<in> set ts \<Longrightarrow> \<not> known s t"
    "t \<in> set ts \<Longrightarrow> Take t \<notin> set as \<Longrightarrow> known s' t"
proof -
  note ran = run_ok [OF assms]
  show "distinct ts" using ran by auto
  show "t \<in> set ts \<Longrightarrow> \<not> known s t"
    using ran bounded [OF assms(1), of t] by (auto simp: known_def)
  show "t \<in> set ts \<Longrightarrow> Take t \<notin> set as \<Longrightarrow> known s' t"
    using run_known [OF assms] by simp
qed

end

section \<open>The connection provides it\<close>

type_synonym connection = "reconnecting_stream \<times> http_client_inner \<times> connect_script \<times> oneshots"

definition conn_ok :: "http_syntax \<Rightarrow> connection \<Rightarrow> bool" where
  "conn_ok H = (\<lambda>(stream, http, script, cells).
     http_syntax_ok H \<and> http_wf (pending_tickets (rst_connection_state stream)) http cells)"

definition conn_issued :: "connection \<Rightarrow> nat" where
  "conn_issued = (\<lambda>(stream, http, script, cells). hci_next_ticket http)"

definition conn_waiting :: "connection \<Rightarrow> ticket \<Rightarrow> bool" where
  "conn_waiting = (\<lambda>(stream, http, script, cells) t.
     t \<in> set (pending_tickets (rst_connection_state stream) @ map snd (hci_requests http)))"

definition conn_answered :: "connection \<Rightarrow> ticket \<Rightarrow> bool" where
  "conn_answered = (\<lambda>(stream, http, script, cells) t. bt_get cells t \<noteq> None)"

definition conn_request :: "request \<Rightarrow> connection \<Rightarrow> ticket \<times> connection" where
  "conn_request r = (\<lambda>(stream, http, script, cells).
     (case send_request r http of (t, http', _) \<Rightarrow> (t, (stream, http', script, cells))))"

definition conn_turn :: "http_syntax \<Rightarrow> connection \<Rightarrow> connection" where
  "conn_turn H = (\<lambda>(stream, http, script, cells).
     (case stream_poll H http stream script of
        (_, http', stream', script', answers) \<Rightarrow> (stream', http', script', deliver answers cells)))"

definition conn_fetch :: "ticket \<Rightarrow> connection \<Rightarrow> outcome option option \<times> connection" where
  "conn_fetch t = (\<lambda>(stream, http, script, cells). (bt_get cells t, (stream, http, script, bt_remove t cells)))"

definition conn_new :: "rstr \<Rightarrow> 16 word \<Rightarrow> bool \<Rightarrow> connect_script \<Rightarrow> connection" where
  "conn_new host port tls script =
     (case http_client_new host port tls of (http, stream) \<Rightarrow> (stream, http, script, bt_empty))"

lemma conn_new_ok: "http_syntax_ok H \<Longrightarrow> conn_ok H (conn_new host port tls script)"
  by (simp add: conn_ok_def conn_new_def http_client_new_def spawn_def)

lemma deliver_outcomes:
  "bt_get (deliver answers cells) t \<noteq> None \<longleftrightarrow> t \<in> set (map fst answers) \<or> bt_get cells t \<noteq> None"
  by (induction answers arbitrary: cells) (auto simp: deliver_def split_beta)

text \<open>A poll of a connection moves tickets along, and loses none.\<close>

lemma poll_moves_tickets:
  assumes "http_syntax_ok H" "stream_poll H http stream script = (r, http', stream', script', answers)"
  shows "t \<in> set (pending_tickets (rst_connection_state stream') @ map snd (hci_requests http'))
      \<or> bt_get (deliver answers cells) t \<noteq> None
    \<longleftrightarrow> t \<in> set (pending_tickets (rst_connection_state stream) @ map snd (hci_requests http)) \<or> bt_get cells t \<noteq> None"
  unfolding stream_poll_in_order [OF assms] deliver_outcomes by auto

interpretation conn: ticket_service "conn_ok H" conn_issued conn_waiting conn_answered conn_request "conn_turn H" conn_fetch
  for H
proof
  fix s s' :: connection and r t u v
  note defs = conn_ok_def conn_issued_def conn_waiting_def conn_answered_def
  obtain stream http script cells where s: "s = (stream, http, script, cells)" by (cases s)
  obtain q http' stream' script' answers where
    poll: "stream_poll H http stream script = (q, http', stream', script', answers)" by (metis prod_cases5)
  assume ok: "conn_ok H s"
  then have H: "http_syntax_ok H" and wf: "http_wf (pending_tickets (rst_connection_state stream)) http cells"
    by (simp_all add: s conn_ok_def)
  have keys: "bt_get cells t \<noteq> None \<longleftrightarrow> t \<in> set (bt_keys cells)" for t by (simp add: bt.set_keys)
  show "conn_waiting s t \<or> conn_answered s t \<Longrightarrow> t < conn_issued s"
    using wf keys by (auto simp: s defs http_wf_def)
  show "conn_waiting s t \<Longrightarrow> \<not> conn_answered s t"
    using wf keys by (auto simp: s defs http_wf_def)
  show "conn_ok H (conn_turn H s) \<and> conn_issued (conn_turn H s) = conn_issued s"
    using http_wf_poll [OF H wf poll] H by (simp add: s conn_turn_def poll defs)
  show "conn_waiting (conn_turn H s) u \<or> conn_answered (conn_turn H s) u \<longleftrightarrow> conn_waiting s u \<or> conn_answered s u"
    using poll_moves_tickets [OF H poll, of u cells] by (simp add: s conn_turn_def poll defs)
  show "conn_answered s u \<Longrightarrow> conn_answered (conn_turn H s) u"
    using deliver_outcomes [of answers cells u] by (simp add: s conn_turn_def poll defs)
  assume "conn_request r s = (t, s')"
  then obtain http1 n where r: "send_request r http = (t, http1, n)" "s' = (stream, http1, script, cells)"
    by (auto simp: s conn_request_def split: prod.splits)
  show "conn_ok H s' \<and> t = conn_issued s \<and> conn_issued s' = Suc t"
    using H http_wf_requested [OF wf requested_send [OF r(1)]] r by (auto simp: s defs send_request_def Let_def)
  show "conn_waiting s' u \<longleftrightarrow> conn_waiting s u \<or> u = t" "conn_answered s' u \<longleftrightarrow> conn_answered s u"
    using r by (auto simp: s defs send_request_def Let_def)
next
  fix s s' :: connection and t u v
  assume ok: "conn_ok H s" and fetch: "conn_fetch t s = (v, s')"
  then show "conn_ok H s' \<and> conn_issued s' = conn_issued s" "conn_waiting s' u \<longleftrightarrow> conn_waiting s u"
    "conn_answered s' u \<longleftrightarrow> conn_answered s u \<and> u \<noteq> t"
    by (auto simp: conn_fetch_def conn_ok_def conn_issued_def conn_waiting_def conn_answered_def
        intro: http_wf_keys split: prod.splits if_splits)
qed

end
