(* ===== verification/Awaited.thy ===== *)
theory Awaited
  imports System Http_Service
begin

text \<open>
  What the futures of a connection wait for. A ticket is alive while its request is queued, waits at the
  home server, or has an outcome that has not been taken; every ticket a future of a connection waits for
  is alive in every run, so no future waits for an answer that cannot come.
\<close>

section \<open>Live tickets\<close>

definition alive :: "ticket list \<Rightarrow> http_client_inner \<Rightarrow> oneshots \<Rightarrow> ticket \<Rightarrow> bool" where
  "alive pending http cells t \<longleftrightarrow> t \<in> set pending \<union> snd ` set (hci_requests http) \<or> bt_get cells t \<noteq> None"

definition live :: "reconnecting_stream option \<Rightarrow> http_client_inner \<Rightarrow> oneshots \<Rightarrow> ticket \<Rightarrow> bool" where
  "live conn http cells t \<longleftrightarrow>
     (case conn of None \<Rightarrow> False
      | Some stream \<Rightarrow> alive (pending_tickets (rst_connection_state stream)) http cells t)"

definition awaited :: "('u, 'j) system \<Rightarrow> bool" where
  "awaited s \<longleftrightarrow>
     (case sy_task s of
        Awaiting_matrix c http t \<Rightarrow> live (sy_main s) http (sy_main_cells s) t
      | Bridging b \<Rightarrow>
          list_all (live (sy_main s) (mc_http_stream (br_matrix_client b)) (sy_main_cells s)) (map fst (br_joins b))
          \<and> pred_option (live (sy_sync s) (sync_http b) (sy_sync_cells s))
                (msc_current_sync (mc_sync_client (br_matrix_client b)))
      | _ \<Rightarrow> True)"

lemma alive_requested: "alive p http cells t \<Longrightarrow> requested http http' \<Longrightarrow> alive p http' cells t"
  by (auto simp: alive_def requested_def)

lemma live_requested: "live conn http cells t \<Longrightarrow> requested http http' \<Longrightarrow> live conn http' cells t"
  by (auto simp: live_def alive_requested split: option.splits)

lemma live_remove: "live conn http cells t \<Longrightarrow> t \<noteq> u \<Longrightarrow> live conn http (bt_remove u cells) t"
  by (auto simp: live_def alive_def split: option.splits)

lemma live_poll:
  assumes "http_syntax_ok H" "stream_poll H http stream script = (r, http', stream', script', answers)"
    and "live (Some stream) http cells t"
  shows "live (Some stream') http' (deliver answers cells) t"
  using assms(3) poll_moves_tickets [OF assms(1,2), of t cells] by (simp add: live_def alive_def)

section \<open>The sync request\<close>

definition sync_alive :: "ticket list \<Rightarrow> 'u matrix_sync_client \<Rightarrow> oneshots \<Rightarrow> bool" where
  "sync_alive pending c cells \<longleftrightarrow>
     (\<forall>t. msc_current_sync c = Some t \<longrightarrow> alive pending (msc_http_stream c) cells t)"

lemma sync_alive_start: "sync_alive p (start_sync U c) cells"
  by (auto simp: sync_alive_def alive_def start_sync_def send_request_def Let_def)

lemma sync_client_poll_alive:
  "sync_client_poll U J c cells = (r, c', cells') \<Longrightarrow> sync_alive p c cells \<Longrightarrow> sync_alive p c' cells'"
proof (induction U J c cells rule: sync_client_poll.induct)
  case (1 U J c cells)
  show ?case
  proof (cases "msc_current_sync c")
    case None
    with "1.prems" have "sync_client_poll U J (start_sync U c) cells = (r, c', cells')"
      by (simp add: sync_client_poll.simps [of U J c])
    from "1.IH"(1) [OF None this sync_alive_start] show ?thesis .
  next
    case (Some t)
    obtain q cells1 where q: "receive t cells = (q, cells1)" by fastforce
    show ?thesis
    proof (cases "\<exists>e. q = Inl e")
      case True
      then obtain e where e: "q = Inl e" by blast
      with "1.prems" Some q have "sync_client_poll U J (c\<lparr>msc_current_sync := None\<rparr>) cells1 = (r, c', cells')"
        by (simp add: sync_client_poll.simps [of U J c])
      moreover have "sync_alive p (c\<lparr>msc_current_sync := None\<rparr>) cells1" by (simp add: sync_alive_def)
      ultimately show ?thesis using "1.IH"(2) Some q e by fastforce
    next
      case False
      with "1.prems" Some q show ?thesis
        by (auto simp: sync_client_poll.simps [of U J c] sync_alive_def Let_def
            split: sum.splits async.splits if_splits)
    qed
  qed
qed

definition bridge_alive :: "ticket list \<Rightarrow> ('u, 'j) bridge \<Rightarrow> oneshots \<Rightarrow> bool" where
  "bridge_alive p b cells \<longleftrightarrow> sync_alive p (mc_sync_client (br_matrix_client b)) cells"

lemma matrix_poll_sync_alive:
  assumes "matrix_poll_sync U J V (br_matrix_client b) cells = (r, mc, cells')" "bridge_alive p b cells"
  shows "bridge_alive p (b\<lparr>br_matrix_client := mc\<rparr>) cells'"
proof -
  obtain q sc cells1 where q: "sync_client_poll U J (mc_sync_client (br_matrix_client b)) cells = (q, sc, cells1)"
    by (metis prod_cases3)
  have "mc_sync_client mc = sc \<and> cells' = cells1"
    using assms(1) q by (auto simp: matrix_poll_sync_def split: sum.splits async.splits)
  with sync_client_poll_alive [OF q] assms(2) show ?thesis by (simp add: bridge_alive_def)
qed

lemma poll_matrix_alive:
  assumes "br_inv b" "sync_fresh b cells" "poll_matrix K b cells = (r, b', cells')" "bridge_alive p b cells"
  shows "bridge_alive p b' cells'"
proof -
  have "br_inv b' \<and> sync_fresh b' cells' \<and> bridge_alive p b' cells'"
    using assms(3,1,2)
  proof (induction rule: poll_matrix_invariant)
    case start
    show ?case by (rule assms(4))
  next
    case (poll x c q mc c1)
    with matrix_poll_sync_alive show ?case by blast
  next
    case (closed x c)
    then show ?case by (simp add: bridge_alive_def)
  next
    case (response x c resp x')
    with handle_sync_response_keeps(4) [OF response(1,2)] show ?case by (simp add: bridge_alive_def)
  qed
  then show ?thesis by simp
qed

section \<open>The joins\<close>

text \<open>The joins a poll of the IRC side starts wait for requests it has queued.\<close>

definition joins_frame :: "('u, 'j) bridge \<Rightarrow> ('u, 'j) bridge \<Rightarrow> bool" where
  "joins_frame b b' \<longleftrightarrow> requested (mc_http_stream (br_matrix_client b)) (mc_http_stream (br_matrix_client b'))
     \<and> mc_sync_client (br_matrix_client b') = mc_sync_client (br_matrix_client b)
     \<and> (\<forall>t \<in> set (map fst (br_joins b')). t \<in> set (map fst (br_joins b))
          \<or> t \<in> snd ` set (hci_requests (mc_http_stream (br_matrix_client b'))))"

lemma joins_frame_trans:
  assumes "joins_frame a b" "joins_frame b c"
  shows "joins_frame a c"
proof -
  have sub: "snd ` set (hci_requests (mc_http_stream (br_matrix_client b)))
      \<subseteq> snd ` set (hci_requests (mc_http_stream (br_matrix_client c)))"
    using assms(2) by (auto simp: joins_frame_def requested_def)
  have "requested (mc_http_stream (br_matrix_client a)) (mc_http_stream (br_matrix_client c))"
    using assms requested_trans [of "mc_http_stream (br_matrix_client a)" "mc_http_stream (br_matrix_client b)"]
    by (simp add: joins_frame_def)
  moreover have "mc_sync_client (br_matrix_client c) = mc_sync_client (br_matrix_client a)"
    using assms by (simp add: joins_frame_def)
  moreover have "t \<in> set (map fst (br_joins a)) \<or> t \<in> snd ` set (hci_requests (mc_http_stream (br_matrix_client c)))"
    if "t \<in> set (map fst (br_joins c))" for t
    using that assms sub unfolding joins_frame_def by (meson subsetD)
  ultimately show ?thesis unfolding joins_frame_def by simp
qed

lemma handle_irc_cmd_joins:
  assumes "handle_irc_cmd K line b = Inr b'"
  shows "joins_frame b b'"
proof -
  have r: "requested (mc_http_stream (br_matrix_client b)) (mc_http_stream (br_matrix_client b'))"
    using handle_irc_cmd_tickets [OF assms] by (simp add: irc_frame_def)
  show ?thesis
  proof (cases "\<exists>channel. line = Join channel")
    case True
    then obtain channel t mc where j: "join_room (cr_url K) (cr_json K) channel (br_matrix_client b) = Inr (t, mc)"
      "b' = b\<lparr>br_matrix_client := mc, br_joins := br_joins b @ [(t, channel)]\<rparr>"
      using assms by (auto simp: handle_irc_cmd_def split: sum.splits)
    then have "t \<in> snd ` set (hci_requests (mc_http_stream mc)) \<and> mc_sync_client mc = mc_sync_client (br_matrix_client b)"
      by (auto simp: join_room_def do_json_post_def send_request_def Let_def split: option.splits sum.splits)
    with r j(2) show ?thesis by (auto simp: joins_frame_def)
  next
    case False
    then have "br_joins b' = br_joins b
        \<and> mc_sync_client (br_matrix_client b') = mc_sync_client (br_matrix_client b)"
      using assms by (auto simp: handle_irc_cmd_def send_text_message_def
          split: irc_command.splits option.splits sum.splits prod.splits)
    with r show ?thesis by (simp add: joins_frame_def)
  qed
qed

lemma poll_irc_loop_joins:
  assumes "poll_irc_loop K b = (r, b')"
  shows "joins_frame b b'"
  using assms
proof (induction rule: poll_irc_loop_invariant)
  case (command x line x')
  with handle_irc_cmd_joins show ?case by (blast intro: joins_frame_trans)
qed (simp_all add: joins_frame_def)

lemma poll_irc_joins: "poll_irc K b = (r, b') \<Longrightarrow> joins_frame b b'"
  using poll_irc_loop_joins [of K b r b'] by (auto simp: poll_irc_def joins_frame_def split: if_splits)

section \<open>Every run\<close>

lemma join_answered_joins [simp]: "br_joins (join_answered channel resp b) = br_joins b"
  by (simp add: join_answered_def Let_def split: option.splits)

lemma remove1_key: "distinct (map fst xs) \<Longrightarrow> (k, v) \<in> set xs \<Longrightarrow> k \<notin> fst ` set (remove1 (k, v) xs)"
  by (induction xs) (auto simp: image_iff)

lemma joins_still_live:
  assumes "joins_wf b" "(t, channel) \<in> set (br_joins b)" "list_all (live conn http cells) (map fst (br_joins b))"
  shows "list_all (live conn http (bt_remove t cells)) (map fst (remove1 (t, channel) (br_joins b)))"
proof -
  have "t \<notin> fst ` set (remove1 (t, channel) (br_joins b))"
    using remove1_key [of "br_joins b" t channel] assms(1,2) by (simp add: joins_wf_def)
  moreover have "live conn http cells (fst x)" if "x \<in> set (remove1 (t, channel) (br_joins b))" for x
    using that set_remove1_subset assms(3) by (fastforce simp: list_all_iff)
  ultimately show ?thesis by (force simp: list_all_iff intro: live_remove)
qed

lemma bridging_step_awaited:
  assumes ok: "http_syntax_ok (se_http se)" and inv: "tickets_inv s b" "state_inv (b, sy_sync_cells s)"
    and aw: "awaited s" and step: "system_step se s s'"
    and b: "sy_task s = Bridging b" "sy_task s' = Bridging b'"
  shows "awaited s'"
  using step b
proof cases
  case (irc b0 r b1)
  then have p: "poll_irc (se_crates se) b = (r, b')" and s': "s' = s\<lparr>sy_task := Bridging b'\<rparr>"
    using b by (auto simp: after_poll_bridging)
  note j = poll_irc_joins [OF p, unfolded joins_frame_def]
  have "live (sy_main s) (mc_http_stream (br_matrix_client b')) (sy_main_cells s) t" if "t \<in> set (map fst (br_joins b'))" for t
  proof (cases "t \<in> set (map fst (br_joins b))")
    case True
    with aw b(1) have "live (sy_main s) (mc_http_stream (br_matrix_client b)) (sy_main_cells s) t"
      by (auto simp: awaited_def list_all_iff)
    with j live_requested show ?thesis by blast
  next
    case False
    with j that have "t \<in> snd ` set (hci_requests (mc_http_stream (br_matrix_client b')))" by blast
    moreover have "sy_main s \<noteq> None"
      using inv(1) by (auto simp: tickets_inv_def connection_wf_def split: option.splits)
    ultimately show ?thesis unfolding live_def alive_def by force
  qed
  with aw b(1) j s' show ?thesis by (simp add: awaited_def list_all_iff sync_http_def)
next
  case (matrix b0 r b1 cells)
  then have p: "poll_matrix (se_crates se) b (sy_sync_cells s) = (r, b', cells)"
    and s': "s' = s\<lparr>sy_task := Bridging b', sy_sync_cells := cells\<rparr>"
    using b by (auto simp: after_poll_bridging)
  have bi: "br_inv b" "sync_fresh b (sy_sync_cells s)" using inv(2) by (simp_all add: state_inv_def)
  have fr: "matrix_frame b (sy_sync_cells s) b' cells" by (rule poll_matrix_tickets [OF bi p])
  obtain stream where st: "sy_sync s = Some stream"
    using inv(1) by (auto simp: tickets_inv_def connection_wf_def split: option.splits)
  have "bridge_alive (pending_tickets (rst_connection_state stream)) b (sy_sync_cells s)"
    using aw b(1) st by (auto simp: awaited_def bridge_alive_def sync_alive_def live_def sync_http_def option.pred_set)
  from poll_matrix_alive [OF bi p this] aw b(1) st fr s' show ?thesis
    by (auto simp: awaited_def bridge_alive_def sync_alive_def live_def sync_http_def matrix_frame_def
        option.pred_set)
next
  case (joined b0 t channel result resp)
  with joins_still_live [of b t channel] inv(1) aw b show ?thesis
    by (auto simp: awaited_def tickets_inv_def sync_http_def)
next
  case (join_failed b0 t channel result e task)
  with joins_still_live [of b t channel] inv(1) aw b show ?thesis
    by (auto simp: awaited_def tickets_inv_def sync_http_def)
next
  case (main_http http stream r http' stream' script answers)
  with b have h: "http = mc_http_stream (br_matrix_client b)" "b' = set_main_http http' b" by auto
  with main_http aw b live_poll [OF ok main_http(4)] show ?thesis
    by (auto simp: awaited_def list_all_iff set_main_http_def sync_http_def)
next
  case (sync_http b0 stream r http' stream' script answers)
  with b have h: "b0 = b" "b' = set_sync_http http' b" by auto
  have "stream_poll (se_http se) (sync_http b) stream (sy_sync_script s) = (r, http', stream', script, answers)"
    using sync_http h by simp
  from live_poll [OF ok this] sync_http aw b h show ?thesis
    by (auto simp: awaited_def set_sync_http_def sync_http_def option.pred_set)
qed (use b in auto)

lemma create_matrix_login_idle:
  assumes "create_matrix_login se c http result = (Bridging b, stream)"
  shows "br_joins b = []" "msc_current_sync (mc_sync_client (br_matrix_client b)) = None"
  using assms
  by (auto simp: create_matrix_login_def login_finish_response_def matrix_client_new_def matrix_sync_client_new_def
      create_answered_def bridge_new_def split: sum.splits option.splits prod.splits login_error.splits)

lemma not_bridging_step_awaited:
  assumes ok: "http_syntax_ok (se_http se)" and aw: "awaited s" and step: "system_step se s s'"
    and "\<nexists>b. sy_task s = Bridging b"
  shows "awaited s'"
  using step
proof cases
  case (irc_login st task stream)
  show ?thesis
  proof (cases task)
    case (Awaiting_matrix c http t)
    with irc_login(3) have "login_request (cr_url (se_crates se)) (cr_json (se_crates se)) (se_url se)
        (iuc_user c) (iuc_password c) = Inr (t, http, the stream)" "stream \<noteq> None"
      by (auto simp: create_irc_login_def split: option.splits login_result.splits sum.splits)
    with login_request_wf(3) [OF this(1)] Awaiting_matrix irc_login(1) show ?thesis
      by (auto simp: awaited_def live_def alive_def)
  next
    case (Bridging b)
    with irc_login(3) show ?thesis
      by (auto simp: create_irc_login_def split: option.splits login_result.splits sum.splits)
  qed (use irc_login in \<open>auto simp: awaited_def\<close>)
next
  case (matrix_login c http t result task stream)
  show ?thesis
  proof (cases task)
    case (Bridging b)
    from create_matrix_login_idle [OF matrix_login(4) [unfolded Bridging]] matrix_login(1) Bridging show ?thesis
      by (simp add: awaited_def)
  next
    case (Awaiting_matrix c' http' t')
    with matrix_login(4) show ?thesis by (auto elim: create_matrix_login_cases)
  qed (use matrix_login in \<open>simp_all add: awaited_def\<close>)
next
  case (main_http http stream r http' stream' script answers)
  with assms(4) obtain c t where t: "sy_task s = Awaiting_matrix c http t" by (cases "sy_task s") auto
  with main_http aw live_poll [OF ok main_http(4)] show ?thesis by (simp add: awaited_def)
qed (use assms(4) in auto)

lemma system_step_awaited:
  assumes ok: "http_syntax_ok (se_http se)" and inv: "task_inv se conn s" and aw: "awaited s"
    and step: "system_step se s s'"
  shows "awaited s'"
proof (cases "\<exists>b. sy_task s = Bridging b")
  case True
  then obtain b where b: "sy_task s = Bridging b" by blast
  have t: "tickets_inv s b" using inv b by (simp add: task_inv_def tickets_inv_def)
  show ?thesis
  proof (cases "\<exists>b'. sy_task s' = Bridging b'")
    case True
    then show ?thesis using bridging_step_awaited [OF ok t task_inv_state [OF inv b] aw step b] by blast
  next
    case False
    with bridging_goes_on [OF step b] show ?thesis by (auto simp: awaited_def)
  qed
next
  case False
  with not_bridging_step_awaited [OF ok aw step] show ?thesis by blast
qed

lemma system_reaches_awaited:
  assumes "http_syntax_ok (se_http se)" "system_reaches se (system_start se conn ms ss) s"
  shows "awaited s"
  using assms(2)
proof induction
  case start
  then show ?case by (simp add: awaited_def system_start_def)
next
  case (further t u)
  with system_step_awaited [OF assms(1) system_reaches_inv [OF assms(1)]] show ?case by blast
qed

end
