(* ===== verification/Bridge_Commands.thy ===== *)
theory Bridge_Commands
  imports Bridge
begin

text \<open>
  The IRC side of a bridge as a transducer. While \<open>poll_irc\<close> runs, the names, the server model and the
  session with the home server do not change, so what a command comes to (the requests it queues and the
  lines it is answered with) is a function of the state the poll starts from. The loops are shown to
  compute this function over the commands in the bytes of the client.
\<close>

section \<open>The abstract transducer\<close>

definition join_request :: "('u, 'j) crates \<Rightarrow> ('u, 'j) bridge \<Rightarrow> rstr \<Rightarrow> request option" where
  "join_request K b channel =
     (let mc = br_matrix_client b in
      case (uo_join (cr_url K) (mc_url mc) (lit ''/_matrix/client/r0/join/''
              @ uo_percent_encode (cr_url K) (utf8_bytes channel)), jo_join_to_vec (cr_json K)) of
        (Some url, Some data) \<Rightarrow>
          Some (json_post_request (cr_url K) (lit ''POST'')
            (uo_set_query (cr_url K) url [(lit ''access_token'', mc_access_token mc)]) data)
      | _ \<Rightarrow> None)"

text \<open>
  The request of a command that is handed on, if it has one. The outer option says whether there is
  one, the inner whether it can be made; \<open>n\<close> random numbers have been drawn.
\<close>

definition request_of :: "('u, 'j) crates \<Rightarrow> ('u, 'j) bridge \<Rightarrow> nat \<Rightarrow> irc_command \<Rightarrow> request option option" where
  "request_of K b n cmd =
     (case cmd of
        PrivMsg channel text \<Rightarrow>
          map_option (\<lambda>room_id. message_request K (b\<lparr>br_draws := n\<rparr>) room_id text)
            (channel_to_room_id (br_mappings b) channel)
      | Join channel \<Rightarrow>
          if iuc_channel_exists (br_irc_conn b) channel then None else Some (join_request K b channel)
      | _ \<Rightarrow> None)"

definition draws_of :: "('u, 'j) bridge \<Rightarrow> irc_command \<Rightarrow> nat" where
  "draws_of b cmd =
     (case cmd of
        PrivMsg channel _ \<Rightarrow> if channel_to_room_id (br_mappings b) channel = None then 0 else 1
      | _ \<Rightarrow> 0)"

fun requests_of :: "('u, 'j) crates \<Rightarrow> ('u, 'j) bridge \<Rightarrow> nat \<Rightarrow> irc_command list \<Rightarrow> request option list" where
  "requests_of K b n [] = []"
| "requests_of K b n (cmd # cmds) =
     (case request_of K b n cmd of None \<Rightarrow> [] | Some req \<Rightarrow> [req]) @ requests_of K b (n + draws_of b cmd) cmds"

text \<open>The lines a command is answered with, on either side of the bridge.\<close>

definition answers_to :: "irc_user_connection \<Rightarrow> irc_command \<Rightarrow> rstr list" where
  "answers_to c cmd =
     (case cmd of
        Away message \<Rightarrow>
          if message = [] then [numeric_line (iuc_server_name c) RplUnaway (iuc_nick c) (lit ''Welcome back'')]
          else [numeric_line (iuc_server_name c) RplNowaway (iuc_nick c) (lit ''You are now away'')]
      | _ \<Rightarrow> replies c cmd)"

section \<open>What does not change\<close>

definition same_names :: "('u, 'j) bridge \<Rightarrow> ('u, 'j) bridge \<Rightarrow> bool" where
  "same_names b b' \<longleftrightarrow> br_mappings b' = br_mappings b
     \<and> (\<exists>conn. br_irc_conn b' = (br_irc_conn b)\<lparr>iuc_conn := conn\<rparr>)
     \<and> (\<exists>http. br_matrix_client b' = (br_matrix_client b)\<lparr>mc_http_stream := http\<rparr>)"

lemma some_update [simp]:
  "\<exists>conn. c = c\<lparr>iuc_conn := conn\<rparr>" "\<exists>http. m = m\<lparr>mc_http_stream := http\<rparr>"
  by (metis irc_user_connection.surjective irc_user_connection.update_convs(1),
      metis matrix_client.surjective matrix_client.update_convs(6))

lemma same_names_refl [simp]: "same_names b b"
  by (simp add: same_names_def)

lemma same_names_trans: "same_names a b \<Longrightarrow> same_names b c \<Longrightarrow> same_names a c"
  by (auto simp: same_names_def)

lemma message_request_cong:
  assumes "mc_url (br_matrix_client b') = mc_url (br_matrix_client b)"
    "mc_access_token (br_matrix_client b') = mc_access_token (br_matrix_client b)"
  shows "message_request K (b'\<lparr>br_draws := n\<rparr>) = message_request K (b\<lparr>br_draws := n\<rparr>)"
    "join_request K b' = join_request K b"
  using assms by (auto simp: fun_eq_iff message_request_def join_request_def Let_def split_beta split: option.split)

lemma same_names_cong:
  assumes "same_names b b'"
  shows "request_of K b' = request_of K b" "draws_of b' = draws_of b"
    "answers_to (br_irc_conn b') = answers_to (br_irc_conn b)"
    "handed_on (br_irc_conn b') = handed_on (br_irc_conn b)"
proof -
  obtain conn http where b': "br_mappings b' = br_mappings b" "br_irc_conn b' = (br_irc_conn b)\<lparr>iuc_conn := conn\<rparr>"
    "br_matrix_client b' = (br_matrix_client b)\<lparr>mc_http_stream := http\<rparr>"
    using assms by (auto simp: same_names_def)
  show "draws_of b' = draws_of b" by (auto simp: fun_eq_iff draws_of_def b' split: irc_command.splits)
  show "request_of K b' = request_of K b"
    by (auto simp: fun_eq_iff request_of_def b' iuc_channel_exists_def message_request_cong [of b' b]
        split: irc_command.splits)
  show "answers_to (br_irc_conn b') = answers_to (br_irc_conn b)"
    using replies_cong(1) [OF b'(2)] by (auto simp: fun_eq_iff answers_to_def b' split: irc_command.splits)
  show "handed_on (br_irc_conn b') = handed_on (br_irc_conn b)" by (rule replies_cong(2) [OF b'(2)])
qed

lemma same_names_requests:
  assumes "same_names b b'"
  shows "requests_of K b' n cmds = requests_of K b n cmds"
  by (induction cmds arbitrary: n) (simp_all add: same_names_cong [OF assms])

lemma requests_of_append:
  "requests_of K b n (xs @ ys) = requests_of K b n xs @ requests_of K b (n + sum_list (map (draws_of b) xs)) ys"
  by (induction xs arbitrary: n) (simp_all add: add.assoc)

lemma requests_of_answered:
  "\<forall>cmd \<in> set cmds. \<not> handed_on (br_irc_conn b) cmd \<Longrightarrow>
     requests_of K b n cmds = [] \<and> sum_list (map (draws_of b) cmds) = 0"
  by (induction cmds arbitrary: n)
    (auto simp: handed_on_def request_of_def draws_of_def split: irc_command.splits)

lemma answers_to_answered:
  "\<not> handed_on c cmd \<Longrightarrow> answers_to c cmd = replies c cmd"
  by (auto simp: handed_on_def answers_to_def split: irc_command.splits)

section \<open>The loops compute the transducer\<close>

definition transduces ::
  "('u, 'j) crates \<Rightarrow> ('u, 'j) bridge \<Rightarrow> irc_command list \<Rightarrow> ('u, 'j) bridge \<Rightarrow> bool" where
  "transduces K b cmds b' \<longleftrightarrow> same_names b b'
     \<and> br_draws b' = br_draws b + sum_list (map (draws_of b) cmds)
     \<and> (\<exists>new. main_queue b' = main_queue b @ new \<and> requests_of K b (br_draws b) cmds = map Some (map fst new))
     \<and> queued (iuc_conn (br_irc_conn b')) = queued (iuc_conn (br_irc_conn b))
         @ concat (map line_bytes (concat (map (answers_to (br_irc_conn b)) cmds)))"

lemma transduces_Nil [simp]: "transduces K b [] b"
  by (simp add: transduces_def)

lemma transduces_requests:
  "transduces K b cmds b' \<Longrightarrow>
     \<exists>new. main_queue b' = main_queue b @ new \<and> requests_of K b (br_draws b) cmds = map Some (map fst new)"
  by (simp add: transduces_def)

lemma transduces_trans:
  assumes "transduces K a xs b" "transduces K b ys c"
  shows "transduces K a (xs @ ys) c"
proof -
  have ab: "same_names a b" using assms(1) by (simp add: transduces_def)
  show ?thesis
    using assms same_names_trans [OF ab, of c]
    by (auto simp: transduces_def requests_of_append same_names_cong [OF ab] same_names_requests [OF ab])
qed

lemma handle_irc_cmd_transduces:
  assumes inv: "br_inv b" and cmd: "handed_on (br_irc_conn b) cmd" "handle_irc_cmd K cmd b = Inr b'"
  shows "transduces K b [cmd] b'"
proof -
  have iuc: "iuc_inv (br_irc_conn b)" using inv by (simp add: br_inv_def mp_inv_def)
  have post: "\<exists>req. uo = Some req \<and> main_queue (b\<lparr>br_matrix_client := (br_matrix_client b)\<lparr>mc_http_stream := http\<rparr>\<rparr>)
      = main_queue b @ [(req, t)]"
    if "do_json_post (cr_url K) m (mc_http_stream (br_matrix_client b)) url body = Inr (t, http)"
      "uo = map_option (json_post_request (cr_url K) m url) body" for m url body t http uo
    using that by (auto simp: do_json_post_def send_request_def main_queue_def Let_def split: option.splits)
  consider (PrivMsg) channel msg where "cmd = PrivMsg channel msg" | (Join) channel where "cmd = Join channel"
    | (Away) message where "cmd = Away message"
    | (silent) "handle_irc_cmd K cmd b = Inr b" "request_of K b (br_draws b) cmd = None" "draws_of b cmd = 0"
        "answers_to (br_irc_conn b) cmd = []"
    using cmd(1)
    by (cases cmd) (simp_all add: handle_irc_cmd_def handed_on_def request_of_def draws_of_def answers_to_def
        replies_def)
  then show ?thesis
  proof cases
    case (PrivMsg channel msg)
    show ?thesis
    proof (cases "channel_to_room_id (br_mappings b) channel")
      case None
      with PrivMsg cmd(2) show ?thesis
        by (simp add: handle_irc_cmd_def transduces_def request_of_def draws_of_def answers_to_def replies_def)
    next
      case (Some room_id)
      then obtain req where req: "message_request K b room_id msg = Some req"
        "main_queue b' = main_queue b @ [(req, hci_next_ticket (mc_http_stream (br_matrix_client b)))]"
        using handle_privmsg_request(1) [OF Some] cmd(2) PrivMsg by blast
      have "same_names b b' \<and> br_draws b' = br_draws b + 1 \<and> br_irc_conn b' = br_irc_conn b"
        using cmd(2) PrivMsg Some
        by (auto simp: handle_irc_cmd_def send_text_message_def same_names_def split: sum.splits prod.splits option.splits)
      moreover have "message_request K (b\<lparr>br_draws := br_draws b\<rparr>) room_id msg = Some req" using req(1) by simp
      ultimately show ?thesis
        using req Some PrivMsg by (simp add: transduces_def request_of_def draws_of_def answers_to_def replies_def)
    qed
  next
    case (Join channel)
    then have fresh: "\<not> iuc_channel_exists (br_irc_conn b) channel" using cmd(1) by (simp add: handed_on_def)
    obtain t mc where j: "join_room (cr_url K) (cr_json K) channel (br_matrix_client b) = Inr (t, mc)"
      "b' = b\<lparr>br_matrix_client := mc, br_joins := br_joins b @ [(t, channel)]\<rparr>"
      using cmd(2) Join by (auto simp: handle_irc_cmd_def split: sum.splits)
    then obtain url http where p: "uo_join (cr_url K) (mc_url (br_matrix_client b))
        (lit ''/_matrix/client/r0/join/'' @ uo_percent_encode (cr_url K) (utf8_bytes channel)) = Some url"
      "do_json_post (cr_url K) (lit ''POST'') (mc_http_stream (br_matrix_client b))
        (uo_set_query (cr_url K) url (token_query (br_matrix_client b))) (jo_join_to_vec (cr_json K)) = Inr (t, http)"
      "mc = (br_matrix_client b)\<lparr>mc_http_stream := http\<rparr>"
      by (auto simp: join_room_def split: option.splits sum.splits)
    have "join_request K b channel = map_option (json_post_request (cr_url K) (lit ''POST'')
        (uo_set_query (cr_url K) url (token_query (br_matrix_client b)))) (jo_join_to_vec (cr_json K))"
      by (simp add: join_request_def p(1) token_query_def Let_def split: option.split)
    from post [OF p(2) this] obtain req where "join_request K b channel = Some req"
      "main_queue b' = main_queue b @ [(req, t)]" by (auto simp: j(2) p(3) main_queue_def)
    moreover have "same_names b b'" by (auto simp: same_names_def j(2) p(3))
    moreover have "replies (br_irc_conn b) (Join channel) = []" using replies_handed_on cmd(1) Join by blast
    ultimately show ?thesis
      using Join fresh by (simp add: transduces_def request_of_def draws_of_def answers_to_def j(2))
  next
    case (Away message)
    define c' where "c' = (if message = [] then unaway (br_irc_conn b) else away (br_irc_conn b))"
    have e: "iuc_emits (br_irc_conn b) c' (answers_to (br_irc_conn b) cmd)"
      unfolding c'_def answers_to_def Away unaway_def away_def using iuc_emits_numeric [OF iuc] by simp
    have b': "b' = b\<lparr>br_irc_conn := c'\<rparr>" using cmd(2) Away by (simp add: handle_irc_cmd_def c'_def)
    have "same_names b b'"
      using e unfolding same_names_def b' iuc_emits_def by auto
    with iuc_emits_queued [OF e] Away show ?thesis
      by (simp add: transduces_def b' request_of_def draws_of_def main_queue_def)
  next
    case silent
    with cmd(2) show ?thesis by (simp add: transduces_def)
  qed
qed

definition unread :: "('u, 'j) bridge \<Rightarrow> irc_command list" where
  "unread b = commands_of (in_stream (iuc_conn (br_irc_conn b)))"

lemma loop_step_transduces:
  assumes "loop_step (br_irc_conn b) cmds r conn"
  shows "transduces K b cmds (b\<lparr>br_irc_conn := conn\<rparr>)"
proof -
  have l: "\<forall>cmd \<in> set cmds. \<not> handed_on (br_irc_conn b) cmd"
    "\<exists>d. conn = (br_irc_conn b)\<lparr>iuc_conn := d\<rparr>"
    "queued (iuc_conn conn) = queued (iuc_conn (br_irc_conn b))
       @ concat (map line_bytes (concat (map (replies (br_irc_conn b)) cmds)))"
    using assms unfolding loop_step_def by blast+
  have eq: "map (answers_to (br_irc_conn b)) cmds = map (replies (br_irc_conn b)) cmds"
    by (rule map_cong [OF refl]) (use l(1) answers_to_answered in blast)
  show ?thesis
    unfolding transduces_def eq
    using l(2,3) requests_of_answered [OF l(1)] by (simp add: same_names_def main_queue_def)
qed

lemma poll_irc_loop_transduces:
  "br_inv b \<Longrightarrow> poll_irc_loop K b = (Inr a, b') \<Longrightarrow>
     \<exists>cmds. unread b = cmds @ unread b' \<and> transduces K b cmds b'
       \<and> (a = NotReady \<longrightarrow> 10 \<notin> set (isc_read_buffer (iuc_conn (br_irc_conn b'))))
       \<and> (a = Ready () \<longrightarrow> br_closed b')"
proof (induction K b rule: poll_irc_loop.induct)
  case (1 K b)
  obtain q conn where q: "iuc_poll (br_irc_conn b) = (q, conn)" by fastforce
  let ?b = "b\<lparr>br_irc_conn := conn\<rparr>"
  have iuc: "iuc_inv (br_irc_conn b)" using "1.prems"(1) by (simp add: br_inv_def mp_inv_def)
  obtain cmds where l: "loop_step (br_irc_conn b) cmds q conn" using iuc_poll_loop [OF iuc q] by blast
  note t = loop_step_transduces [OF l, of K]
  show ?case
  proof (cases "\<exists>line b1. q = Inr (Ready (Some line)) \<and> handle_irc_cmd K line ?b = Inr b1")
    case True
    then obtain line b1 where h: "q = Inr (Ready (Some line))" "handle_irc_cmd K line ?b = Inr b1" by blast
    have inv: "br_inv ?b" "br_inv b1"
      using iuc_poll_frame [OF "1.prems"(1) q] handle_irc_cmd_keeps [OF _ h(2)] by auto
    have line: "handed_on (br_irc_conn ?b) line" "unread b = cmds @ line # unread ?b"
      using l h(1) same_names_cong(4) [of b ?b] t by (simp_all add: loop_step_def unread_def transduces_def)
    have "poll_irc_loop K b1 = (Inr a, b')"
      using "1.prems"(2) q h by (simp add: poll_irc_loop.simps [of K b])
    then obtain more where m: "unread b1 = more @ unread b'" "transduces K b1 more b'"
      "a = NotReady \<longrightarrow> 10 \<notin> set (isc_read_buffer (iuc_conn (br_irc_conn b')))" "a = Ready () \<longrightarrow> br_closed b'"
      using "1.IH" [OF q [symmetric] h(1) refl refl h(2) inv(2)] by blast
    have "unread b1 = unread ?b"
      using handle_irc_cmd_reader [OF h(2)] by (simp add: unread_def keeps_reader_def same_reader_def in_stream_def env_data_def)
    moreover have "transduces K b (cmds @ [line] @ more) b'"
      by (intro transduces_trans [OF t] transduces_trans [OF handle_irc_cmd_transduces [OF inv(1) line(1) h(2)]] m)
    ultimately show ?thesis
      using line(2) m by (intro exI [of _ "cmds @ [line] @ more"]) simp
  next
    case False
    with "1.prems"(2) q l t show ?thesis
      by (intro exI [of _ cmds])
        (auto simp: poll_irc_loop.simps [of K b] loop_step_def unread_def transduces_def same_names_def main_queue_def
          draws_of_def
          split: sum.splits async.splits option.splits)
  qed
qed

end
