(* ===== verification/Client_View.thy ===== *)
theory Client_View
  imports System Bridge_Commands
begin

text \<open>
  What the client of a session is sent. Whatever the polls do, its stream is the greeting followed by
  what the bridge has said, in whole lines: the answers to the client's commands, channels it opened,
  redirects of joins and timelines. Nothing is sent before the first sync response is there.
\<close>

section \<open>What a bridge says\<close>

text \<open>
  The four occasions on which a running bridge writes to its client. An answer depends on the server
  model, and the lines of a timeline on the names, of the time they were written.
\<close>

datatype 'j utterance =
    Answers server_model irc_command
  | Opens rstr rstr "(rstr \<times> bool) list"
  | Redirects rstr rstr
  | Shows mapping_store rstr "'j event list"

definition lines_of :: "('u, 'j) crates \<Rightarrow> ('u, 'j) bridge \<Rightarrow> 'j utterance \<Rightarrow> rstr list" where
  "lines_of K b u =
     (case u of
        Answers model cmd \<Rightarrow> answers_to ((br_irc_conn b)\<lparr>iuc_server_model := model\<rparr>) cmd
      | Opens name topic nicks \<Rightarrow> join_lines (br_irc_conn b) (make_channel name topic nicks)
      | Redirects old new \<Rightarrow> [redirect_line (br_irc_conn b) old new]
      | Shows mp channel evs \<Rightarrow>
          (case events_lines K (br_matrix_client b) mp channel evs of Inl _ \<Rightarrow> [] | Inr ls \<Rightarrow> ls))"

text \<open>The names in it are names of the session.\<close>

definition mapped_channel :: "('u, 'j) bridge \<Rightarrow> rstr \<Rightarrow> bool" where
  "mapped_channel b channel \<longleftrightarrow> (\<exists>r. room_id_to_channel (br_mappings b) r = Some channel)"

definition uttered :: "('u, 'j) bridge \<Rightarrow> 'j utterance \<Rightarrow> bool" where
  "uttered b u \<longleftrightarrow>
     (case u of
        Answers model cmd \<Rightarrow> True
      | Opens name topic nicks \<Rightarrow> mapped_channel b name
          \<and> (\<forall>n \<in> fst ` set nicks. \<exists>user. get_nick_from_matrix (br_mappings b) user = Some n)
      | Redirects old new \<Rightarrow> old \<noteq> new \<and> mapped_channel b new
      | Shows mp channel evs \<Rightarrow> mapped_channel b channel \<and> keeps_names mp (br_mappings b))"

fun answered :: "'j utterance list \<Rightarrow> irc_command list" where
  "answered [] = []"
| "answered (Answers model cmd # us) = cmd # answered us"
| "answered (_ # us) = answered us"

lemma answered_append [simp]: "answered (us @ vs) = answered us @ answered vs"
  by (induction us rule: answered.induct) simp_all

lemma answered_Answers [simp]: "answered (map (Answers model) cmds) = cmds"
  by (induction cmds) simp_all

text \<open>The same lines, whenever they are read off the session.\<close>

lemma event_lines_cong:
  assumes "mc_url mc' = mc_url mc"
  shows "events_lines K mc' mp channel evs = events_lines K mc mp channel evs"
proof -
  have "media_url (cr_url K) mc' = media_url (cr_url K) mc"
    unfolding fun_eq_iff media_url_def assms by (intro allI refl)
  then have "event_lines K mc' mp channel ev = event_lines K mc mp channel ev" for ev
    unfolding event_lines_def by (rule ssubst) (rule refl)
  then show ?thesis by (induction evs) (simp_all split: sum.split)
qed

lemma answers_to_cong:
  assumes "c' = c\<lparr>iuc_conn := d\<rparr>"
  shows "answers_to c' = answers_to c"
  using replies_cong(1) [OF assms] by (auto simp: fun_eq_iff answers_to_def assms split: irc_command.splits)

lemma lines_of_same:
  assumes "same_session b b'"
  shows "lines_of K b' u = lines_of K b u"
proof -
  have c: "(br_irc_conn b')\<lparr>iuc_server_model := m\<rparr>
      = ((br_irc_conn b)\<lparr>iuc_server_model := m\<rparr>)\<lparr>iuc_conn := iuc_conn (br_irc_conn b')\<rparr>" for m
    using assms by (cases "br_irc_conn b"; cases "br_irc_conn b'") (simp add: same_session_def)
  have "join_lines (br_irc_conn b') = join_lines (br_irc_conn b)"
    "redirect_line (br_irc_conn b') = redirect_line (br_irc_conn b)"
    using assms by (simp_all add: same_session_def join_lines_def redirect_line_def fun_eq_iff)
  moreover have "events_lines K (br_matrix_client b') mp channel evs = events_lines K (br_matrix_client b) mp channel evs"
    for mp channel evs
    using assms by (intro event_lines_cong) (simp add: same_session_def)
  ultimately show ?thesis
    using answers_to_cong [OF c] by (simp add: lines_of_def split: utterance.split)
qed

lemma mapped_channel_keeps: "mapped_channel b ch \<Longrightarrow> keeps_names (br_mappings b) (br_mappings b') \<Longrightarrow> mapped_channel b' ch"
  by (auto simp: mapped_channel_def keeps_names_def)

lemma uttered_same:
  assumes "same_session b b'" "uttered b u"
  shows "uttered b' u"
proof -
  have k: "keeps_names (br_mappings b) (br_mappings b')" using assms(1) by (simp add: same_session_def)
  note m = mapped_channel_keeps [OF _ k]
  show ?thesis
  proof (cases u)
    case (Opens name topic nicks)
    with assms(2) k m show ?thesis by (auto simp: uttered_def keeps_names_def) (metis fst_conv)
  qed (use assms(2) m keeps_names_trans [OF _ k] in \<open>auto simp: uttered_def\<close>)
qed

definition says ::
  "('u, 'j) crates \<Rightarrow> ('u, 'j) bridge \<Rightarrow> ('u, 'j) bridge \<Rightarrow> 'j utterance list \<Rightarrow> bool" where
  "says K b b' us \<longleftrightarrow> same_session b b' \<and> list_all (uttered b') us \<and> unread b = answered us @ unread b'
     \<and> queued (iuc_conn (br_irc_conn b'))
         = queued (iuc_conn (br_irc_conn b)) @ concat (map line_bytes (concat (map (lines_of K b') us)))"

lemma says_Nil: "br_irc_conn b' = br_irc_conn b \<Longrightarrow> same_session b b' \<Longrightarrow> says K b b' []"
  by (simp add: says_def unread_def)

lemma says_trans:
  assumes "says K a b us" "says K b c vs"
  shows "says K a c (us @ vs)"
proof -
  have bc: "same_session b c" using assms(2) by (simp add: says_def)
  have "list_all (uttered c) us"
    using assms(1) uttered_same [OF bc] by (auto simp: says_def list_all_iff)
  moreover have "lines_of K c = lines_of K b" using lines_of_same [OF bc] by (simp add: fun_eq_iff)
  ultimately show ?thesis
    using assms same_session_trans [of a b c] by (simp add: says_def)
qed

lemma unread_reader: "keeps_reader (br_irc_conn b) (br_irc_conn b') \<Longrightarrow> unread b' = unread b"
  by (simp add: unread_def keeps_reader_def same_reader_def in_stream_def env_data_def)

lemma named_members_nicks:
  "named_members mp ms nicks \<Longrightarrow> n \<in> fst ` set nicks \<Longrightarrow> \<exists>user. get_nick_from_matrix mp user = Some n"
  unfolding named_members_def by (induction rule: list_all2_induct) auto

lemma handle_room_sync_says:
  assumes "br_inv b" "handle_room_sync K room_id sync b = Inr b'"
  shows "\<exists>us. says K b b' us \<and> answered us = []"
proof (cases "get_room (br_matrix_client b) room_id")
  case None
  with assms(2) have "b' = b" by (simp add: handle_room_sync_def)
  then show ?thesis using says_Nil [of b' b K] by (intro exI [of _ "[]"]) simp
next
  case (Some room)
  with handle_room_sync_spec [OF assms(1), of K room_id sync] assms(2)
  have f: "bridge_frame b b'" and "room_step K room sync b b'" by auto
  then obtain channel ops ls where
    ch: "room_id_to_channel (br_mappings b') (rm_room_id room) = Some channel"
    and op: "case room_id_to_channel (br_mappings b) (rm_room_id room) of
        Some old \<Rightarrow> channel = old \<and> ops = []
      | None \<Rightarrow> channel = unique_name (sm_channels (iuc_server_model (br_irc_conn b))) (channel_base (cr_value K) room)
          \<and> (\<exists>nicks. named_members (br_mappings b') (rm_members room) nicks
               \<and> ops = join_lines (br_irc_conn b)
                   (make_channel channel (unwrap_or [] (get_topic (cr_value K) room)) nicks))"
    and ls: "events_lines K (br_matrix_client b) (br_mappings b') channel (tl_events (jr_timeline sync)) = Inr ls"
    and q: "queued (iuc_conn (br_irc_conn b')) = queued (iuc_conn (br_irc_conn b))
        @ concat (map line_bytes (ops
            @ redirect_lines (rm_room_id room) channel (br_joining_map b) (br_irc_conn b) @ ls))"
    by (auto simp: room_step_def)
  have s: "same_session b b'" using bridge_frame_session [OF f] .
  have mapped: "mapped_channel b' channel" using ch by (auto simp: mapped_channel_def)
  note lines = lines_of_same [OF s, of K]
  have "\<exists>us. ops = concat (map (lines_of K b') us) \<and> list_all (uttered b') us \<and> answered us = []"
  proof (cases "room_id_to_channel (br_mappings b) (rm_room_id room)")
    case None
    with op obtain nicks where n: "named_members (br_mappings b') (rm_members room) nicks"
      "ops = lines_of K b (Opens channel (unwrap_or [] (get_topic (cr_value K) room)) nicks)"
      by (auto simp: lines_of_def)
    with mapped named_members_nicks [OF n(1)] show ?thesis
      by (intro exI [of _ "[Opens channel (unwrap_or [] (get_topic (cr_value K) room)) nicks]"])
        (simp add: lines uttered_def)
  next
    case (Some old)
    with op show ?thesis by (intro exI [of _ "[]"]) simp
  qed
  then obtain us where us: "ops = concat (map (lines_of K b') us)" "list_all (uttered b') us" "answered us = []"
    by blast
  have "\<exists>vs. redirect_lines (rm_room_id room) channel (br_joining_map b) (br_irc_conn b) = concat (map (lines_of K b') vs)
      \<and> list_all (uttered b') vs \<and> answered vs = []"
  proof (cases "\<exists>attempt. bt_get (br_joining_map b) (rm_room_id room) = Some attempt \<and> attempt \<noteq> channel")
    case True
    then obtain attempt where "bt_get (br_joining_map b) (rm_room_id room) = Some attempt" "attempt \<noteq> channel" by blast
    with mapped show ?thesis
      unfolding lines
      by (intro exI [of _ "[Redirects attempt channel]"]) (simp add: redirect_lines_def lines_of_def uttered_def)
  next
    case False
    then show ?thesis by (intro exI [of _ "[]"]) (simp add: redirect_lines_def split: option.split)
  qed
  then obtain vs where vs: "redirect_lines (rm_room_id room) channel (br_joining_map b) (br_irc_conn b)
      = concat (map (lines_of K b') vs)" "list_all (uttered b') vs" "answered vs = []" by blast
  let ?t = "Shows (br_mappings b') channel (tl_events (jr_timeline sync))"
  have "lines_of K b' ?t = ls" "uttered b' ?t"
    unfolding lines using ls mapped by (simp_all add: lines_of_def uttered_def)
  moreover have "unread b' = unread b" using f by (intro unread_reader) (simp add: bridge_frame_def same_identity_def)
  ultimately show ?thesis
    using us vs q s by (intro exI [of _ "us @ vs @ [?t]"]) (simp add: says_def)
qed

lemma handle_room_syncs_says:
  "br_inv b \<Longrightarrow> handle_room_syncs K joins b = Inr b' \<Longrightarrow> \<exists>us. says K b b' us \<and> answered us = []"
proof (induction K joins b rule: handle_room_syncs.induct)
  case (1 K b)
  then show ?case using says_Nil [of b b K] by (intro exI [of _ "[]"]) simp
next
  case (2 K room_id sync r b)
  then obtain b1 where b1: "handle_room_sync K room_id sync b = Inr b1" "handle_room_syncs K r b1 = Inr b'"
    by (auto split: sum.splits)
  obtain us where us: "says K b b1 us" "answered us = []" using handle_room_sync_says [OF "2.prems"(1) b1(1)] by blast
  obtain vs where vs: "says K b1 b' vs" "answered vs = []"
    using "2.IH" [OF b1(1) _ b1(2)] handle_room_sync_keeps [OF "2.prems"(1) b1(1)] by blast
  show ?case using says_trans [OF us(1) vs(1)] us(2) vs(2) by (intro exI [of _ "us @ vs"]) simp
qed

lemma greeting_same: "same_session b b' \<Longrightarrow> greeting (br_irc_conn b') = greeting (br_irc_conn b)"
  by (simp add: same_session_def greeting_def)

lemma handle_sync_response_says:
  assumes "br_inv b" "handle_sync_response K resp b = Inr b'"
  shows "\<exists>us c. c = welcome_first b \<and> says K c b' us \<and> answered us = []"
proof -
  from assms(2) obtain b2 where b2: "handle_room_syncs K (rs_join (sr_rooms resp)) (welcome_first b) = Inr b2"
    "b' = b2\<lparr>br_is_first_sync := False\<rparr>"
    by (auto simp: handle_sync_response_eq)
  obtain us where us: "says K (welcome_first b) b2 us" "answered us = []"
    using handle_room_syncs_says [OF welcome_first_keeps(1) [OF assms(1)] b2(1)] by blast
  have "says K b2 b' []" using b2(2) by (intro says_Nil) (simp_all add: same_session_def)
  from says_trans [OF us(1) this] us(2) show ?thesis by auto
qed

section \<open>The view of the client\<close>

text \<open>
  \<open>out\<close> is what the socket had taken before the session, \<open>cmds\<close> are the client's commands from its
  start, those that are still to come included.
\<close>

definition client_view ::
  "('u, 'j) crates \<Rightarrow> u8 list \<Rightarrow> irc_command list \<Rightarrow> ('u, 'j) bridge \<Rightarrow> bool" where
  "client_view K out cmds b \<longleftrightarrow>
     (if br_is_first_sync b then br_joins b = [] \<and> queued (iuc_conn (br_irc_conn b)) = out \<and> cmds = unread b
      else \<exists>us. list_all (uttered b) us \<and> cmds = answered us @ unread b
        \<and> queued (iuc_conn (br_irc_conn b))
            = out @ concat (map line_bytes (greeting (br_irc_conn b) @ concat (map (lines_of K b) us))))"

lemma client_view_cong:
  assumes "br_irc_conn b' = br_irc_conn b" "br_is_first_sync b' = br_is_first_sync b" "same_session b b'"
    "br_is_first_sync b \<Longrightarrow> br_joins b = [] \<Longrightarrow> br_joins b' = []" "client_view K out cmds b"
  shows "client_view K out cmds b'"
proof -
  have "lines_of K b' = lines_of K b" using lines_of_same [OF assms(3)] by (simp add: fun_eq_iff)
  moreover have "list_all (uttered b) us \<Longrightarrow> list_all (uttered b') us" for us
    using uttered_same [OF assms(3)] by (auto simp: list_all_iff)
  ultimately show ?thesis
    using assms(1,2,4,5) by (auto simp: client_view_def unread_def split: if_splits)
qed

lemma client_view_says:
  assumes "client_view K out cmds b" "\<not> br_is_first_sync b" "says K b b' us" "\<not> br_is_first_sync b'"
  shows "client_view K out cmds b'"
proof -
  have s: "same_session b b'" using assms(3) by (simp add: says_def)
  obtain vs where vs: "list_all (uttered b) vs" "cmds = answered vs @ unread b" "queued (iuc_conn (br_irc_conn b))
      = out @ concat (map line_bytes (greeting (br_irc_conn b) @ concat (map (lines_of K b) vs)))"
    using assms(1,2) by (auto simp: client_view_def)
  have "lines_of K b' = lines_of K b" using lines_of_same [OF s] by (simp add: fun_eq_iff)
  moreover have "list_all (uttered b') (vs @ us)"
    using vs(1) assms(3) uttered_same [OF s] by (auto simp: says_def list_all_iff)
  moreover have "cmds = answered (vs @ us) @ unread b'" using vs(2) assms(3) by (simp add: says_def)
  ultimately show ?thesis
    using vs(3) assms(3,4) greeting_same [OF s] unfolding client_view_def
    by (simp del: map_append list_all_append) (intro exI [of _ "vs @ us"], simp add: says_def)
qed

lemma transduces_says:
  assumes "transduces K b cmds b'" "same_session b b'" "unread b = cmds @ unread b'"
  shows "says K b b' (map (Answers (iuc_server_model (br_irc_conn b))) cmds)"
proof -
  obtain conn where "br_irc_conn b' = (br_irc_conn b)\<lparr>iuc_conn := conn\<rparr>"
    using assms(1) by (auto simp: transduces_def same_names_def)
  then have "answers_to ((br_irc_conn b')\<lparr>iuc_server_model := iuc_server_model (br_irc_conn b)\<rparr>) = answers_to (br_irc_conn b)"
    by (intro answers_to_cong [where d = conn]) simp
  then have eq: "map (lines_of K b') (map (Answers (iuc_server_model (br_irc_conn b))) cmds) = map (answers_to (br_irc_conn b)) cmds"
    by (simp add: lines_of_def)
  show ?thesis
    unfolding says_def eq using assms by (simp add: transduces_def list_all_iff uttered_def)
qed

lemma client_view_irc:
  assumes "br_inv b" "poll_irc K b = (Inr a, b')" "client_view K out cmds b"
  shows "client_view K out cmds b'"
proof (cases "br_is_first_sync b")
  case True
  with assms show ?thesis by (simp add: poll_irc_def)
next
  case False
  with assms(2) have p: "poll_irc_loop K b = (Inr a, b')" by (simp add: poll_irc_def)
  obtain more where "unread b = more @ unread b'" "transduces K b more b'"
    using poll_irc_loop_transduces [OF assms(1) p] by blast
  note k = poll_irc_keeps [OF assms(1,2)]
  have "says K b b' (map (Answers (iuc_server_model (br_irc_conn b))) more)"
    by (rule transduces_says) (use k \<open>transduces K b more b'\<close> \<open>unread b = more @ unread b'\<close> in simp_all)
  with client_view_says [OF assms(3) False] k False show ?thesis by simp
qed

lemma client_view_response:
  assumes "br_inv b" "handle_sync_response K resp b = Inr b'" "client_view K out cmds b"
  shows "client_view K out cmds b'"
proof -
  obtain us where us: "says K (welcome_first b) b' us" "answered us = []"
    using handle_sync_response_says [OF assms(1,2)] by blast
  have nf: "\<not> br_is_first_sync b'" using handle_sync_response_keeps(3) [OF assms(1,2)] .
  show ?thesis
  proof (cases "br_is_first_sync b")
    case False
    with us client_view_says [OF assms(3) False _ nf] show ?thesis by (simp add: welcome_first_def)
  next
    case True
    have f: "bridge_frame b (welcome_first b)" by (rule welcome_first_keeps(2) [OF assms(1)])
    have "iuc_inv (br_irc_conn b)" using assms(1) by (simp add: br_inv_def mp_inv_def)
    from iuc_emits_queued [OF greeting_emits [OF this]] True
    have "queued (iuc_conn (br_irc_conn (welcome_first b)))
        = queued (iuc_conn (br_irc_conn b)) @ concat (map line_bytes (greeting (br_irc_conn b)))"
      by (simp add: welcome_first_def)
    moreover have "unread (welcome_first b) = unread b"
      using f by (intro unread_reader) (simp add: bridge_frame_def same_identity_def)
    moreover have "same_session b b'" by (rule handle_sync_response_keeps(2) [OF assms(1,2)])
    ultimately show ?thesis
      using us nf True assms(3) greeting_same [of b b'] unfolding client_view_def
      by (simp add: says_def) (intro exI [of _ us], simp)
  qed
qed

lemma client_view_matrix:
  assumes "br_inv b" "sync_fresh b cells" "poll_matrix K b cells = (r, b', cells')" "client_view K out cmds b"
  shows "client_view K out cmds b'"
proof -
  have "br_inv b' \<and> sync_fresh b' cells' \<and> client_view K out cmds b'"
    using assms(3,1,2)
  proof (induction rule: poll_matrix_invariant)
    case start
    show ?case by (rule assms(4))
  next
    case (poll x c q mc c1)
    have "mc_inv (br_matrix_client x) c" using poll(1,2) by (simp add: mc_inv_def br_inv_def sync_fresh_def)
    from matrix_poll_sync_step(3) [OF this poll(3)]
    have "same_session x (x\<lparr>br_matrix_client := mc\<rparr>)" by (simp add: same_session_def)
    then show ?case by (intro client_view_cong [OF _ _ _ _ poll(4)]) simp_all
  next
    case (closed x c)
    show ?case by (rule client_view_cong [OF _ _ _ _ closed(1)]) (simp_all add: same_session_def)
  next
    case (response x c resp x')
    with client_view_response show ?case by blast
  qed
  then show ?thesis by simp
qed

lemma client_view_joined:
  assumes "br_inv b" "x \<in> set (br_joins b)" "client_view K out cmds b"
  shows "client_view K out cmds (join_answered channel resp (b\<lparr>br_joins := js\<rparr>))"
proof -
  let ?b = "b\<lparr>br_joins := js\<rparr>" and ?b' = "join_answered channel resp (b\<lparr>br_joins := js\<rparr>)"
  have nf: "\<not> br_is_first_sync b" using assms(2,3) by (auto simp: client_view_def)
  have view: "client_view K out cmds ?b"
    by (rule client_view_cong [OF _ _ _ _ assms(3)]) (use nf in \<open>simp_all add: same_session_def\<close>)
  have nf': "\<not> br_is_first_sync ?b'" using nf by (simp add: join_answered_def Let_def split: option.split)
  have inv: "br_inv ?b" using assms(1) by (simp add: br_inv_def)
  then have iuc: "iuc_inv (br_irc_conn ?b)" by (simp add: br_inv_def mp_inv_def)
  have s: "same_session ?b ?b'" by (rule join_answered_keeps(2) [OF inv])
  have "\<exists>us. says K ?b ?b' us"
  proof (cases "br_irc_conn ?b' = br_irc_conn ?b")
    case True
    from says_Nil [OF this s] show ?thesis by blast
  next
    case False
    then obtain mapped where m: "room_id_to_channel (br_mappings ?b) (rj_room_id resp) = Some mapped" "mapped \<noteq> channel"
      by (auto simp: join_answered_def Let_def split: option.splits if_splits)
    then have b': "?b' = ?b\<lparr>br_irc_conn := write_redirect_join channel mapped (br_irc_conn ?b)\<rparr>"
      by (simp add: join_answered_def)
    note e = write_redirect_emits [OF iuc, of channel mapped]
    have "mapped_channel ?b' mapped" using m(1) unfolding b' mapped_channel_def by auto
    moreover have "lines_of K ?b' (Redirects channel mapped) = [redirect_line (br_irc_conn ?b) channel mapped]"
      unfolding lines_of_same [OF s] by (simp add: lines_of_def)
    moreover have "unread ?b' = unread ?b"
      unfolding b' using iuc_emits_reader [OF e] by (intro unread_reader) simp
    ultimately show ?thesis
      using s m(2) iuc_emits_queued [OF e] by (intro exI [of _ "[Redirects channel mapped]"])
        (simp add: says_def uttered_def b')
  qed
  then show ?thesis using client_view_says [OF view _ _ nf'] nf by auto
qed

section \<open>Every run\<close>

text \<open>The commands of the client are those of its login and then those of the session.\<close>

definition session_view :: "('u, 'j) setting \<Rightarrow> io_env \<Rightarrow> ('u, 'j) bridge \<Rightarrow> bool" where
  "session_view se conn b \<longleftrightarrow>
     (\<exists>login cmds. commands_of (env_data conn) = login @ cmds \<and> client_view (se_crates se) (sent conn) cmds b)"

definition view_inv :: "('u, 'j) setting \<Rightarrow> io_env \<Rightarrow> ('u, 'j) system \<Rightarrow> bool" where
  "view_inv se conn s \<longleftrightarrow> (case sy_task s of Bridging b \<Rightarrow> session_view se conn b | _ \<Rightarrow> True)"

lemma session_view_keeps:
  "session_view se conn b \<Longrightarrow>
     (\<And>cmds. client_view (se_crates se) (sent conn) cmds b \<Longrightarrow> client_view (se_crates se) (sent conn) cmds b') \<Longrightarrow>
     session_view se conn b'"
  unfolding session_view_def by blast

lemma system_step_view:
  assumes ok: "http_syntax_ok (se_http se)" and inv: "task_inv se conn s" and view: "view_inv se conn s"
    and step: "system_step se s s'" and b': "sy_task s' = Bridging b'"
  shows "session_view se conn b'"
  using step
proof cases
  case (irc_login st task stream)
  with b' show ?thesis
    by (auto simp: create_irc_login_def split: option.splits login_result.splits sum.splits)
next
  case (matrix_login c http t result task stream)
  have c: "logged_in se conn c" using inv matrix_login by (simp add: task_inv_def)
  from matrix_login(4) show ?thesis
  proof (cases rule: create_matrix_login_cases)
    case (bridge mc sync)
    obtain cmds where seen: "queued (iuc_conn c) = sent conn"
      "commands_of (env_data conn) = cmds @ commands_of (in_stream (iuc_conn c))"
      using c by (auto simp: logged_in_def login_outcome_def login_seen_def)
    have new: "b' = bridge_new c mc" using bridge matrix_login(1) b' by simp
    have "iuc_conn (br_irc_conn b') = iuc_conn c" "br_is_first_sync b'" "br_joins b' = []"
      by (simp_all add: new bridge_new_def insert_nick_def iuc_create_user_def)
    with seen show ?thesis
      unfolding session_view_def client_view_def unread_def by (intro exI [of _ cmds] exI [of _ "commands_of (in_stream (iuc_conn c))"]) simp
  next
    case (failed e d)
    with matrix_login(1) b' show ?thesis by simp
  qed
next
  case (irc b r b1)
  have i: "br_inv b" "session_view se conn b" using inv view irc by (simp_all add: task_inv_def view_inv_def)
  have "poll_irc (se_crates se) b = (Inr NotReady, b')" using irc b' by (auto simp: after_poll_bridging)
  from session_view_keeps [OF i(2) client_view_irc [OF i(1) this]] show ?thesis .
next
  case (matrix b r b1 cells)
  have i: "br_inv b" "session_view se conn b" "sync_fresh b (sy_sync_cells s)"
    using inv view matrix task_inv_state [OF inv matrix(2)] by (simp_all add: view_inv_def state_inv_def)
  have "poll_matrix (se_crates se) b (sy_sync_cells s) = (r, b', cells)"
    using matrix b' by (auto simp: after_poll_bridging)
  from session_view_keeps [OF i(2) client_view_matrix [OF i(1,3) this]] show ?thesis .
next
  case (joined b t channel result resp)
  have i: "br_inv b" "session_view se conn b" using inv view joined by (simp_all add: task_inv_def view_inv_def)
  have new: "b' = join_answered channel resp (b\<lparr>br_joins := remove1 (t, channel) (br_joins b)\<rparr>)"
    using joined b' by simp
  show ?thesis
    unfolding new by (rule session_view_keeps [OF i(2) client_view_joined [OF i(1) joined(3)]])
next
  case (join_failed b t channel result e task)
  have i: "session_view se conn b" using view join_failed by (simp add: view_inv_def)
  have "b' = b\<lparr>br_joins := remove1 (t, channel) (br_joins b)\<rparr>" using join_failed b' by simp
  then show ?thesis
    by (intro session_view_keeps [OF i] client_view_cong [of b' b]) (simp_all add: same_session_def)
next
  case (main_http http stream r http' stream' script answers)
  with b' obtain b where b: "sy_task s = Bridging b" "b' = set_main_http http' b" by (cases "sy_task s") auto
  with view have i: "session_view se conn b" by (simp add: view_inv_def)
  show ?thesis
    unfolding b(2)
    by (intro session_view_keeps [OF i] client_view_cong [of "set_main_http http' b" b])
      (simp_all add: set_main_http_def same_session_def)
next
  case (sync_http b stream r http' stream' script answers)
  with view have i: "session_view se conn b" by (simp add: view_inv_def)
  have "b' = set_sync_http http' b" using sync_http b' by simp
  then show ?thesis
    by (intro session_view_keeps [OF i] client_view_cong [of b' b])
      (simp_all add: set_sync_http_def same_session_def)
qed

lemma system_reaches_view:
  assumes "http_syntax_ok (se_http se)" "system_reaches se (system_start se conn ms ss) s"
  shows "view_inv se conn s"
  using assms(2)
proof induction
  case start
  then show ?case by (simp add: view_inv_def system_start_def)
next
  case (further t u)
  from system_step_view [OF assms(1) system_reaches_inv [OF assms(1) further.hyps(1)] further.IH further.hyps(2)]
  show ?case by (simp add: view_inv_def split: task.split)
qed

end
