(* ===== verification/Irc_Properties.thy ===== *)
theory Irc_Properties
  imports Irc_Connection
begin

text \<open>
  The properties of the IRC side: lines and commands, the transport, the server model, the login and
  the loop of \<open>IrcUserConnection\<close>. Each one is stated over the model of the code; its proof applies the
  lemmas of the component. A theorem with hypotheses is followed by a concrete instance of it.
\<close>

section \<open>Lines and commands\<close>

text \<open>C3: a line is parsed exactly when it has a derivation in the grammar of IRC lines, and then
  into the prefix, the command and the arguments of that derivation.\<close>

theorem parser_accepts_the_grammar:
  "parse_irc_line s = Inr (Some l) \<longleftrightarrow>
     (\<exists>c. derives_line s (il_prefix l) c (il_args l) \<and> command_from_string c = Inr (il_command l))"
  by (rule parse_Some_iff)

text \<open>turning a line into a command never panics, whatever the line is.\<close>

theorem parser_never_panics: "\<exists>r. irc_command_from_str s = Inr r"
  by (rule irc_command_from_str_total)

text \<open>C36: a line rendered from a prefix, a command, middle arguments and a trailing argument is parsed
  back into them.\<close>

theorem rendered_line_parses:
  assumes "pred_option is_prefix p" "is_command c" "list_all is_middle mids" "pred_option is_trailing tr"
    and "command_from_string c = Inr k"
  shows "parse_irc_line (render_line p c mids tr)
    = Inr (Some \<lparr>il_prefix = p, il_command = k, il_args = mids @ (case tr of None \<Rightarrow> [] | Some t \<Rightarrow> [t])\<rparr>)"
  using derives_render_line [OF assms(1-4)] assms(5) by (auto simp: parse_Some_iff)

theorem rendered_line_parses_witness:
  "parse_irc_line (render_line (Some (lit ''n!u@h'')) (lit ''PRIVMSG'') [lit ''#room''] (Some (lit ''hi :all'')))
    = Inr (Some \<lparr>il_prefix = Some (lit ''n!u@h''), il_command = CPrivMsg, il_args = [lit ''#room'', lit ''hi :all'']\<rparr>)"
proof -
  have "is_prefix (lit ''n!u@h'')" "is_command (lit ''PRIVMSG'')" "is_middle (lit ''#room'')"
    "is_trailing (lit ''hi :all'')" "command_from_string (lit ''PRIVMSG'') = Inr CPrivMsg"
    by code_simp+
  then show ?thesis
    using rendered_line_parses [of "Some (lit ''n!u@h'')" "lit ''PRIVMSG''" "[lit ''#room'']"
        "Some (lit ''hi :all'')" CPrivMsg] by simp
qed

text \<open>no argument of a parsed line has a NUL, a line feed or a carriage return in it, and only the
  last one may be empty, contain a space or start with a colon.\<close>

theorem parsed_arguments_are_clean:
  assumes "parse_irc_line s = Inr (Some l)"
  shows "(\<forall>a \<in> set (il_args l). 0 \<notin> set a \<and> 10 \<notin> set a \<and> 13 \<notin> set a)
    \<and> (\<forall>a \<in> set (butlast (il_args l)). a \<noteq> [] \<and> 32 \<notin> set a \<and> hd a \<noteq> 58)"
proof -
  obtain c where "derives_line s (il_prefix l) c (il_args l)"
    using assms by (auto simp: parse_Some_iff)
  from derives_line_args [OF this]
  have tr: "list_all is_trailing (il_args l)" and mid: "list_all is_middle (butlast (il_args l))" by auto
  have "is_middle a \<Longrightarrow> a \<noteq> [] \<and> 32 \<notin> set a \<and> hd a \<noteq> 58" for a
    by (auto simp: list_all_iff is_middle_def mid_char_def nospc_def)
  with tr mid is_trailing_clean show ?thesis
    unfolding list_all_iff by blast
qed

theorem parsed_arguments_are_clean_witness:
  "parse_irc_line (lit ''PRIVMSG #room :hi :all'')
      = Inr (Some \<lparr>il_prefix = None, il_command = CPrivMsg, il_args = [lit ''#room'', lit ''hi :all'']\<rparr>)
    \<and> 10 \<notin> set (lit ''hi :all'') \<and> 32 \<notin> set (lit ''#room'')"
proof -
  have p: "parse_irc_line (lit ''PRIVMSG #room :hi :all'')
      = Inr (Some \<lparr>il_prefix = None, il_command = CPrivMsg, il_args = [lit ''#room'', lit ''hi :all'']\<rparr>)"
    by code_simp
  from parsed_arguments_are_clean [OF this] p show ?thesis by simp
qed

text \<open>a parsed line becomes a typed command exactly when its command is a known word and there are
  as many arguments as that word needs.\<close>

theorem typed_command_needs_arguments:
  "from_irc_line l = None \<longleftrightarrow>
     (case min_args (il_command l) of None \<Rightarrow> True | Some n \<Rightarrow> length (il_args l) < n)"
  by (rule from_irc_line_None_iff)

text \<open>a message line becomes the message, end to end: the target and the text up to the end of the
  line, spaces and colons included.\<close>

theorem privmsg_line_is_the_message:
  assumes "is_middle target" "is_trailing message"
  shows "irc_command_from_str (lit ''PRIVMSG '' @ target @ lit '' :'' @ message)
    = Inr (Some (PrivMsg target message))"
proof -
  have "pred_option is_prefix None" "is_command (lit ''PRIVMSG'')" by simp code_simp
  moreover have "list_all is_middle [target]" "pred_option is_trailing (Some message)"
    using assms by simp_all
  ultimately have "derives_line (render_line None (lit ''PRIVMSG'') [target] (Some message)) None
      (lit ''PRIVMSG'') [target, message]"
    using derives_render_line [of None "lit ''PRIVMSG''" "[target]" "Some message"] by simp
  moreover have "render_line None (lit ''PRIVMSG'') [target] (Some message)
      = lit ''PRIVMSG '' @ target @ lit '' :'' @ message"
    by (simp add: render_line_def render_params_def lit_def)
  moreover have "command_from_string (lit ''PRIVMSG'') = Inr CPrivMsg" by code_simp
  ultimately have "parse_irc_line (lit ''PRIVMSG '' @ target @ lit '' :'' @ message)
      = Inr (Some \<lparr>il_prefix = None, il_command = CPrivMsg, il_args = [target, message]\<rparr>)"
    by (auto simp: parse_Some_iff)
  then show ?thesis
    by (simp add: irc_command_from_str_def from_irc_line_def it_nth_def)
qed

theorem privmsg_line_is_the_message_witness:
  "irc_command_from_str (lit ''PRIVMSG '' @ lit ''#room'' @ lit '' :'' @ lit ''a : b'')
    = Inr (Some (PrivMsg (lit ''#room'') (lit ''a : b'')))"
proof -
  have "is_middle (lit ''#room'')" "is_trailing (lit ''a : b'')" by code_simp+
  from privmsg_line_is_the_message [OF this] show ?thesis .
qed

lemma keyword_to_str: "keyword s = Some k \<Longrightarrow> command_to_str k = Inr s \<and> k \<noteq> CUnknown"
  by (auto simp: keyword_def split: if_splits)

text \<open>writing a command read by \<open>From<String>\<close> gives back the word or the three digits it was read
  from; numbers that differ only in leading zeros are kept apart.\<close>

theorem command_word_round_trip:
  assumes "command_from_string s = Inr k" "k \<noteq> CUnknown" "valid_str s"
  shows "command_to_str k = Inr s"
proof (cases "keyword s")
  case (Some j)
  with assms(1) keyword_to_str [OF Some] show ?thesis by (simp add: command_from_string_def)
next
  case None
  note unf = assms(1,2) [unfolded command_from_string_def None option.case]
  have "length (utf8_bytes s) = 3"
    using unf by (auto simp: byte_len_def split: if_splits)
  then obtain x y z where b: "utf8_bytes s = [x, y, z]"
    by (auto simp: eval_nat_numeral length_Suc_conv)
  with unf obtain n where "k = CNumeric n (x, y, z)"
    by (auto simp: index3_def index_def byte_len_def split: option.splits)
  moreover have "from_utf8 [x, y, z] = Some s" using from_utf8_bytes [OF assms(3)] b by simp
  ultimately show ?thesis by simp
qed

theorem command_word_round_trip_witness:
  "command_to_str (CNumeric 1 (48, 48, 49)) = Inr (lit ''001'')"
proof -
  have "command_from_string (lit ''001'') = Inr (CNumeric 1 (48, 48, 49))" "valid_str (lit ''001'')"
    by code_simp+
  with command_word_round_trip [of "lit ''001''" "CNumeric 1 (48, 48, 49)"] show ?thesis by simp
qed

text \<open>reading a three-digit command through \<open>From<&str>\<close> always panics, because the third byte is
  read at index 3, while \<open>From<String>\<close> reads the same command without a panic.\<close>

theorem numeric_from_str_panics:
  assumes "is_digit a" "is_digit b" "is_digit c"
  shows "command_from_str [a, b, c] = Inl (Panic ''index out of bounds'')
    \<and> (\<exists>k. command_from_string [a, b, c] = Inr k)"
proof -
  have d: "a < 128" "b < 128" "c < 128" using assms by (auto simp: is_digit_def)
  have len: "utf8_bytes [a, b, c] = [of_nat a, of_nat b, of_nat c]"
    using d by (simp add: utf8_bytes_def encode_Cons encode_char_1)
  have kw: "keyword [a, b, c] = None"
    using assms by (auto simp: keyword_def lit_def is_digit_def)
  have "digits_value 0 [a, b, c] \<le> 65535" using assms by (simp add: is_digit_def) arith
  then have "\<exists>n. parse_uint 65535 [a, b, c] = Some n"
    using assms by (auto simp: parse_uint_def is_digit_def Let_def)
  then have "command_from_str [a, b, c] = Inl (Panic ''index out of bounds'')"
    using kw len by (auto simp: command_from_str_def byte_len_def index3_def index_def)
  with command_from_string_total show ?thesis by blast
qed

theorem numeric_from_str_panics_witness:
  "command_from_str (lit ''001'') = Inl (Panic ''index out of bounds'')"
proof -
  have "is_digit 48" "is_digit 49" "lit ''001'' = [48, 48, 49]" by code_simp+
  then show ?thesis using numeric_from_str_panics [of 48 48 49] by simp
qed

text \<open>the text of a numeric reply is its number, written with three digits.\<close>

theorem numeric_text_is_its_number:
  "numeric_as_str n =
     [48 + discriminant n div 100, 48 + discriminant n div 10 mod 10, 48 + discriminant n mod 10]"
  by (cases n) (simp_all add: lit_def)

section \<open>The transport\<close>

text \<open>A socket for the instances: what it will deliver, and how much it accepts.\<close>

definition socket :: "(io_error + u8 list) list \<Rightarrow> (io_error + nat) list \<Rightarrow> io_env" where
  "socket reads writes = \<lparr>rd = reads, wr = writes, fl = [], sent = []\<rparr>"

text \<open>lines are sent in the order they are written, each followed by a newline, and none is lost
  or mixed with another, whatever the socket accepts at the time.\<close>

theorem lines_are_queued_in_order:
  assumes "cursor_ok c"
  shows "queued (fold write_line ls c) = queued c @ concat (map line_bytes ls)
    \<and> cursor_ok (fold write_line ls c)"
proof -
  have "emits c (fold write_line ls c) (concat (map (\<lambda>l. [l]) ls))"
    by (rule emits_fold [where s = "isc_server_name c"]) (use assms emits_write_line in simp_all)
  then show ?thesis by (simp add: emits_def)
qed

theorem lines_are_queued_in_order_witness:
  "queued (fold write_line [lit ''PING a'', lit ''PING b''] (isc_new (socket [] [Inr 3]) (lit ''irc'')))
    = utf8_bytes (lit ''PING a'') @ [10] @ utf8_bytes (lit ''PING b'') @ [10]"
proof -
  let ?c = "isc_new (socket [] [Inr 3]) (lit ''irc'')"
  have "cursor_ok ?c" "queued ?c = []" by (simp_all add: cursor_ok_def isc_new_def queued_def socket_def)
  then show ?thesis
    using lines_are_queued_in_order [of ?c "[lit ''PING a'', lit ''PING b'']"] by (simp add: line_bytes_def)
qed

text \<open>C35: when a write poll is ready, everything written so far has been accepted by the socket and the
  buffer is empty; whatever the outcome, what the socket has accepted is a prefix of what was
  written, and the poll neither reads nor panics.\<close>

theorem write_poll_sends_the_buffer:
  assumes "cursor_ok c" "poll_write c = (r, c')"
  shows "(r = Inr (Ready ()) \<longrightarrow> sent (isc_conn c') = queued c \<and> isc_write_buffer c' = [])
    \<and> (\<exists>rest. queued c = sent (isc_conn c') @ rest) \<and> same_reader c c' \<and> \<not> is_panic r"
  using poll_write_step [OF assms] by (auto simp: write_step_def queued_def) (metis)+

theorem write_poll_sends_the_buffer_witness:
  "sent (isc_conn (snd (poll_write ((isc_new (socket [] [Inr 2, Inr 9]) [])\<lparr>isc_write_buffer := [1, 2, 3]\<rparr>)))) = [1, 2, 3]"
proof -
  let ?c = "(isc_new (socket [] [Inr 2, Inr 9]) [])\<lparr>isc_write_buffer := [1, 2, 3]\<rparr>"
  have "fst (poll_write ?c) = Inr (Ready ())" by code_simp
  then have "poll_write ?c = (Inr (Ready ()), snd (poll_write ?c))" by (metis prod.collapse)
  moreover have "cursor_ok ?c" "queued ?c = [1, 2, 3]"
    by (simp_all add: cursor_ok_def isc_new_def queued_def socket_def)
  ultimately show ?thesis
    using write_poll_sends_the_buffer [of ?c "Inr (Ready ())" "snd (poll_write ?c)"] by simp
qed

text \<open>C4: the commands a connection delivers are those of the complete lines of the byte stream, in
  order, however the reads cut the stream up and however often a poll had to wait for more bytes: what
  has been delivered, followed by the commands of the bytes still to come, is the command list of the
  whole stream. The read buffer never holds more than 2048 bytes, reading changes nothing that is to
  be sent, and a poll that finds nothing to deliver has left no complete line in the buffer.\<close>

theorem commands_do_not_depend_on_reads:
  assumes "polled isc_poll (isc_new conn server_name) cmds c"
  shows "commands_of (env_data conn) = cmds @ commands_of (in_stream c)
    \<and> length (isc_read_buffer c) \<le> 2048 \<and> queued c = sent conn
    \<and> (fst (isc_poll c) = Inr NotReady \<longrightarrow> 10 \<notin> set (isc_read_buffer (snd (isc_poll c))))"
proof -
  have "in_stream (isc_new conn server_name) = env_data conn" "queued (isc_new conn server_name) = sent conn"
    by (simp_all add: in_stream_def queued_def isc_new_def)
  with polled_commands [OF assms isc_inv_new]
  have run: "commands_of (env_data conn) = cmds @ commands_of (in_stream c)" "isc_inv c"
    "queued c = sent conn" by simp_all
  moreover have "fst (isc_poll c) = Inr NotReady \<longrightarrow> 10 \<notin> set (isc_read_buffer (snd (isc_poll c)))"
    using isc_poll_step [OF run(2), of "fst (isc_poll c)" "snd (isc_poll c)"]
    by (auto simp: stream_step_def)
  ultimately show ?thesis by (simp add: isc_inv_def max_line_def)
qed

definition split_ping :: io_env where
  "split_ping = socket [Inr (utf8_bytes (lit ''PI'')), Inl would_block,
     Inr (utf8_bytes (lit ''NG a''@[13,10])), Inr (utf8_bytes (lit ''NI''))] []"

theorem commands_do_not_depend_on_reads_witness:
  "\<exists>c. polled isc_poll (isc_new split_ping []) [Ping (lit ''a'')] c
     \<and> commands_of (env_data split_ping) = [Ping (lit ''a'')] @ commands_of (in_stream c)"
proof -
  let ?c = "isc_new split_ping []"
  have w: "fst (isc_poll ?c) = Inr NotReady" by code_simp
  have "fst (isc_poll (snd (isc_poll ?c))) = Inr (Ready (Some (Ping (lit ''a''))))" by code_simp
  then have i: "isc_poll (snd (isc_poll ?c))
      = (Inr (Ready (Some (Ping (lit ''a'')))), snd (isc_poll (snd (isc_poll ?c))))" by (metis prod.collapse)
  from w have "isc_poll ?c = (Inr NotReady, snd (isc_poll ?c))" by (metis prod.collapse)
  then have "polled isc_poll ?c [Ping (lit ''a'')] (snd (isc_poll (snd (isc_poll ?c))))"
    by (rule polled_wait) (use i in \<open>auto intro: polled_item polled_stop\<close>)
  then show ?thesis using commands_do_not_depend_on_reads [of split_ping "[]"] by blast
qed

text \<open>C38: a line that has not ended within 2048 bytes is an error, however the bytes arrive: where the
  next 2048 bytes hold no newline, a read ends in \<open>Line too long\<close> with these bytes unparsed in the
  buffer, unless the socket blocks, ends or fails first. A shorter line that holds a command is
  delivered, the bytes after it are kept, and it never gives that error.\<close>

theorem long_line_is_an_error:
  assumes "length (isc_read_buffer c) \<le> 2048" "poll_read c = (r, c')"
  shows "(2048 \<le> length (in_stream c) \<and> 10 \<notin> set (take 2048 (in_stream c)) \<longrightarrow>
      r = Inl (IoErr (IoError InvalidData (lit ''Line too long'')))
        \<and> isc_read_buffer c' = take 2048 (in_stream c)
      \<or> (r = Inr NotReady \<and> in_stream c' = in_stream c \<and> length (isc_read_buffer c') < 2048
          \<or> (\<exists>e. r = Inl (IoErr e) \<and> Inl e \<in> set (rd (isc_conn c)) \<and> err_kind e \<noteq> WouldBlock))
        \<and> (\<exists>x \<in> set (rd (isc_conn c)). x = Inr [] \<or> isl x))
    \<and> (in_stream c = p @ [10] @ rest \<and> 10 \<notin> set p \<and> length p < 2048
        \<and> from_utf8 (p @ [10]) = Some line \<and> irc_command_from_str (trim_end line) = Inr (Some cmd) \<longrightarrow>
      r = Inr (Ready cmd) \<and> in_stream c' = rest
      \<or> r = Inr NotReady \<and> in_stream c' = in_stream c \<and> 10 \<notin> set (isc_read_buffer c')
      \<or> (\<exists>e. r = Inl (IoErr e) \<and> Inl e \<in> set (rd (isc_conn c)) \<and> err_kind e \<noteq> WouldBlock))"
  unfolding append_Cons append_Nil read_failed_def [symmetric]
  by (rule conjI [OF poll_read_long_line [OF assms(2,1)] poll_read_short_line [OF assms(2,1)]])

theorem long_line_is_an_error_witness:
  "fst (poll_read (isc_new (socket [Inr (replicate 2047 65), Inr [66, 67]] []) []))
    = Inl (IoErr (IoError InvalidData (lit ''Line too long'')))"
proof -
  let ?c = "isc_new (socket [Inr (replicate 2047 65), Inr [66, 67]] []) []"
  obtain r c' where p: "poll_read ?c = (r, c')" by (cases "poll_read ?c")
  have "length (isc_read_buffer ?c) \<le> 2048" "in_stream ?c = replicate 2047 65 @ [66, 67]"
    "rd (isc_conn ?c) = [Inr (replicate 2047 65), Inr [66, 67]]"
    by (simp_all add: isc_new_def in_stream_def env_data_def socket_def)
  with long_line_is_an_error [OF this(1) p] p show ?thesis by simp
qed

text \<open>polling an IRC session never panics: neither the transport, nor the commands it answers
  itself, whatever the client sends and the socket does.\<close>

theorem session_poll_never_panics:
  assumes "iuc_inv c" "iuc_poll c = (r, c')"
  shows "\<not> is_panic r \<and> iuc_inv c'"
  using iuc_poll_loop [OF assms]
  by (cases r) (auto simp: loop_step_def split: exn.splits)

definition session :: "io_env \<Rightarrow> irc_user_connection" where
  "session conn = \<lparr>iuc_conn = isc_new conn (lit ''irc''), iuc_user = lit ''u'', iuc_nick = lit ''n'',
     iuc_real_name = lit ''r'', iuc_password = lit ''p'', iuc_server_name = lit ''irc'',
     iuc_user_prefix = lit ''n!u@irc'', iuc_server_model = sm_new\<rparr>"

lemma session_inv: "iuc_inv (session conn)"
  by (simp add: iuc_inv_def session_def) (simp add: isc_new_def)

theorem session_poll_never_panics_witness:
  "\<not> is_panic (fst (iuc_poll (session split_ping))) \<and> iuc_inv (snd (iuc_poll (session split_ping)))"
  using session_poll_never_panics [OF session_inv [of split_ping]] by (metis prod.collapse)

text \<open>C6: one poll of the session takes commands off the stream, answers each command it does not hand
  on with exactly the lines \<open>replies\<close> gives for it, in order, and stops at the first command it hands
  on, which it leaves unanswered. It returns, and changes nothing else.\<close>

theorem session_poll_answers_and_hands_on:
  assumes "iuc_inv c" "iuc_poll c = (Inr (Ready (Some k)), c')"
  shows "\<exists>cmds. commands_of (in_stream (iuc_conn c)) = cmds @ k # commands_of (in_stream (iuc_conn c'))
    \<and> (\<forall>cmd \<in> set cmds. \<not> handed_on c cmd) \<and> handed_on c k
    \<and> queued (iuc_conn c') = queued (iuc_conn c) @ concat (map line_bytes (concat (map (replies c) cmds)))
    \<and> c' = c\<lparr>iuc_conn := iuc_conn c'\<rparr>"
  using iuc_poll_loop [OF assms] by (auto simp: loop_step_def)

definition ping_then_quit :: io_env where
  "ping_then_quit = socket [Inr (utf8_bytes (lit ''PING a'' @ [10] @ lit ''QUIT'' @ [10]))] []"

theorem session_poll_answers_and_hands_on_witness:
  "\<exists>cmds. commands_of (in_stream (iuc_conn (session ping_then_quit)))
      = cmds @ Quit # commands_of (in_stream (iuc_conn (snd (iuc_poll (session ping_then_quit)))))
    \<and> queued (iuc_conn (snd (iuc_poll (session ping_then_quit))))
      = queued (iuc_conn (session ping_then_quit))
        @ concat (map line_bytes (concat (map (replies (session ping_then_quit)) cmds)))"
proof -
  let ?c = "session ping_then_quit"
  have "fst (iuc_poll ?c) = Inr (Ready (Some Quit))" by code_simp
  then have "iuc_poll ?c = (Inr (Ready (Some Quit)), snd (iuc_poll ?c))" by (metis prod.collapse)
  from session_poll_answers_and_hands_on [OF session_inv this] show ?thesis by blast
qed

section \<open>The fold and the login\<close>

text \<open>polling a fold over the connection always returns, and folds exactly the commands the
  connection gave: it is done at the first final one, and otherwise it stops where the stream failed,
  ended or had no more input, keeping the value for the next poll in the last case.\<close>

theorem fold_polls_fold_the_commands:
  assumes "isc_inv s"
  shows "\<exists>is s' r st. emitted isc_poll s is s' \<and> sf_poll isc_poll f (Full s v) = Some (r, st)
    \<and> (sf_paused isc_poll f v is s' r st \<or> sf_finished f v is s' r st)"
  using isc.loop_returns [OF assms, of f v] by (simp add: sf_poll_def)

theorem fold_polls_fold_the_commands_witness:
  "\<exists>is s' r st. emitted isc_poll (isc_new split_ping []) is s'
    \<and> sf_poll isc_poll (\<lambda>_ n. (n = (1::nat), Suc n)) (Full (isc_new split_ping []) 0) = Some (r, st)"
  using fold_polls_fold_the_commands [OF isc_inv_new, of split_ping "[]" "\<lambda>_ n. (n = 1, Suc n)" 0] by blast

text \<open>C17: a login that comes to a result has read NICK and USER: it succeeds with the last nick, user,
  real name and password the client gave and an empty server model, having sent nothing; it fails for
  want of a password after telling the client so; or the connection ended or failed. No step panics.\<close>

theorem login_result_is_what_the_client_sent:
  assumes "login_reaches server_name (await_login server_name conn) r"
  shows "login_outcome (env_data conn) (sent conn) server_name r"
  using login_reaches_outcome [OF assms, of "isc_new conn server_name" "[]"] login_seen_new
  by (simp add: await_login_def sf_new_def)

definition login_lines :: io_env where
  "login_lines = socket
     [Inr (utf8_bytes (lit ''PASS p'' @ [10] @ lit ''NICK n'' @ [10])), Inl would_block,
      Inr (utf8_bytes (lit ''USER u 0 * :R N'' @ [10]))] []"

theorem login_result_is_what_the_client_sent_witness:
  "\<exists>r. login_reaches (lit ''irc'') (await_login (lit ''irc'') login_lines) r
     \<and> login_outcome (env_data login_lines) (sent login_lines) (lit ''irc'') r
     \<and> (\<exists>c. r = Logged_in c \<and> iuc_nick c = lit ''n'')"
proof -
  let ?sn = "lit ''irc''"
  let ?st = "await_login ?sn login_lines"
  let ?st1 = "case await_login_poll ?sn ?st of Some (Login_pending st) \<Rightarrow> st | _ \<Rightarrow> Empty"
  have "case await_login_poll ?sn ?st of Some (Login_pending _) \<Rightarrow> True | _ \<Rightarrow> False" by code_simp
  then have "await_login_poll ?sn ?st = Some (Login_pending ?st1)"
    by (auto split: option.splits login_result.splits)
  moreover have "case await_login_poll ?sn ?st1 of Some (Logged_in c) \<Rightarrow> iuc_nick c = lit ''n'' | _ \<Rightarrow> False"
    by code_simp
  then obtain c where "await_login_poll ?sn ?st1 = Some (Logged_in c)" "iuc_nick c = lit ''n''"
    by (auto split: option.splits login_result.splits)
  ultimately have "login_reaches ?sn ?st (Logged_in c)" by (blast intro: login_reaches.intros)
  with login_result_is_what_the_client_sent [OF this] \<open>iuc_nick c = _\<close> show ?thesis by blast
qed

text \<open>a poll of the login always returns.\<close>

theorem login_poll_returns:
  assumes "isc_inv s"
  shows "\<exists>r. await_login_poll server_name (Full s un) = Some r"
proof -
  obtain r st where "sf_poll isc_poll login_step (Full s un) = Some (r, st)"
    using isc.sf_poll_returns [OF assms, of login_step un] by auto
  then show ?thesis
    by (auto simp: await_login_poll_def split: sum.splits async.splits prod.splits)
qed

theorem login_poll_returns_witness:
  "\<exists>r. await_login_poll (lit ''irc'') (await_login (lit ''irc'') login_lines) = Some r"
  using login_poll_returns [OF isc_inv_new] by (simp add: await_login_def sf_new_def)

section \<open>Channels and users\<close>

text \<open>adding a channel that does not exist, for members who all do, succeeds, keeps the server model
  consistent, and the members listed for the channel are exactly those given, with their operator
  flags; the lookup behind the list does not panic.\<close>

theorem added_channel_lists_its_members:
  assumes "sm_inv sm" "\<not> sm_channel_exists sm name" "\<forall>(m, _) \<in> set members. sm_nick_exists sm m"
    and "distinct (map fst members)"
  shows "\<exists>c sm' ms. sm_add_channel name topic members sm = Inr (c, sm') \<and> sm_inv sm'
    \<and> sm_get_members sm' name = Inr (Some ms)
    \<and> set (map (\<lambda>(u, e). (us_nick u, ure_operator e)) ms) = set members"
proof -
  let ?c = "make_channel name topic members"
  obtain sm' where add: "sm_add_channel name topic members sm = Inr (?c, sm')"
    using sm_add_channel_eq [OF assms(2)] by blast
  have inv: "sm_inv sm'" by (rule sm_inv_add_channel [OF assms(1) add assms(3)])
  have ch: "sm_get_channel sm' name = Some ?c"
    using sm_add_channel_InrD [OF add] by (simp add: sm_get_channel_def)
  let ?ms = "map (\<lambda>(n, e). (the (bt_get (sm_users sm') n), e)) (ch_users ?c)"
  have "sm_get_members sm' name = Inr (Some ?ms)"
    using inv ch by (simp add: sm_get_members_known sm_inv_def)
  moreover have "set (channel_names ?c) = set members"
    using assms(4) by (force simp: channel_names_def make_channel_def set_bt_collect comp_def split_beta)
  then have "set (map (\<lambda>(u, e). (us_nick u, ure_operator e)) ?ms) = set members"
    unfolding get_members_names [OF inv ch] .
  ultimately show ?thesis
    using add inv by (intro exI conjI)
qed

theorem added_channel_lists_its_members_witness:
  "\<exists>c sm' ms. sm_add_channel (lit ''#r'') [] [(lit ''a'', True)] (sm_create_user (lit ''a'') (lit ''A'') sm_new) = Inr (c, sm')
    \<and> sm_get_members sm' (lit ''#r'') = Inr (Some ms)
    \<and> set (map (\<lambda>(u, e). (us_nick u, ure_operator e)) ms) = {(lit ''a'', True)}"
proof -
  let ?sm = "sm_create_user (lit ''a'') (lit ''A'') sm_new"
  have "sm_inv ?sm" by (rule sm_inv_create_user) (simp, code_simp)
  moreover have "\<not> sm_channel_exists ?sm (lit ''#r'')" "sm_nick_exists ?sm (lit ''a'')" by code_simp+
  ultimately show ?thesis
    using added_channel_lists_its_members [of ?sm "lit ''#r''" "[(lit ''a'', True)]" "[]"] by simp blast
qed

text \<open>a names reply lists every name once and in order, at most ten to a line, and ends with the end
  marker.\<close>

theorem names_are_listed_in_chunks:
  assumes "cursor_ok c"
  shows "queued (write_names nick channel names c)
      = queued c @ concat (map line_bytes (names_lines (isc_server_name c) nick channel names))
    \<and> concat (chunks 10 names) = names \<and> (\<forall>chunk \<in> set (chunks 10 names). length chunk \<le> 10)"
  using emits_write_names [OF assms, of nick channel names] chunks_concat [of 10 names] chunks_size
  by (auto simp: emits_def)

theorem names_are_listed_in_chunks_witness:
  "queued (write_names (lit ''n'') (lit ''#r'') [(lit ''a'', True), (lit ''b'', False)] (isc_new (socket [] []) (lit ''s'')))
    = concat (map line_bytes [lit '':s 353 n @ #r :@a b'', lit '':s 366 n #r :End of /NAMES''])"
proof -
  let ?c = "isc_new (socket [] []) (lit ''s'')"
  have "cursor_ok ?c" "queued ?c = []" "isc_server_name ?c = lit ''s''"
    by (simp_all add: cursor_ok_def isc_new_def queued_def socket_def)
  moreover have "names_lines (lit ''s'') (lit ''n'') (lit ''#r'') [(lit ''a'', True), (lit ''b'', False)]
      = [lit '':s 353 n @ #r :@a b'', lit '':s 366 n #r :End of /NAMES'']" by code_simp
  ultimately show ?thesis
    using names_are_listed_in_chunks [of ?c "lit ''n''" "lit ''#r''" "[(lit ''a'', True), (lit ''b'', False)]"]
    by simp
qed

end
