(* ===== verification/Matrix_Properties.thy ===== *)
theory Matrix_Properties
  imports Matrix_Client Http_Service
begin

text \<open>
  The properties of the Matrix side: rooms built from sync responses, the HTTP parser and client, the
  sync loop and the login. The concrete parameters of the instances come first: a JSON type, an HTTP
  syntax that meets the documented behaviour asked of the real one, and a \<open>Url\<close> of text.
\<close>

section \<open>Concrete parameters\<close>

datatype jv = JStr rstr | JNum nat | JObj "(rstr \<times> jv) list"

definition jv_ops :: "jv value_ops" where
  "jv_ops = \<lparr>vo_get = (\<lambda>v k. case v of JObj m \<Rightarrow> map_of m k | _ \<Rightarrow> None),
     vo_as_str = (\<lambda>v. case v of JStr s \<Rightarrow> Some s | _ \<Rightarrow> None),
     vo_as_object = (\<lambda>v. case v of JObj m \<Rightarrow> Some m | _ \<Rightarrow> None),
     vo_as_u64 = (\<lambda>v. case v of JNum n \<Rightarrow> Some (of_nat n) | _ \<Rightarrow> None)\<rparr>"

definition event_of :: "string \<Rightarrow> rstr option \<Rightarrow> (rstr \<times> jv) list \<Rightarrow> jv event" where
  "event_of etype state_key content =
     \<lparr>ev_sender = lit ''@a:s'', ev_event_id = lit ''$1'', ev_etype = lit etype, ev_state_key = state_key,
      ev_content = JObj content, ev_unsigned = \<lparr>eu_transaction_id = None\<rparr>\<rparr>"

definition response_of :: "jv event list \<Rightarrow> jv event list \<Rightarrow> jv joined_room_sync_response" where
  "response_of state timeline =
     \<lparr>jr_timeline = \<lparr>tl_limited = False, tl_prev_batch = [], tl_events = timeline\<rparr>,
      jr_state = \<lparr>st_events = state\<rparr>\<rparr>"

definition join_of :: "string \<Rightarrow> jv event" where
  "join_of user = event_of ''m.room.member'' (Some (lit user)) [(lit ''membership'', JStr (lit ''join''))]"

definition leave_of :: "string \<Rightarrow> jv event" where
  "leave_of user = event_of ''m.room.member'' (Some (lit user)) [(lit ''membership'', JStr (lit ''leave''))]"

definition name_of :: "string \<Rightarrow> jv event" where
  "name_of name = event_of ''m.room.name'' (Some []) [(lit ''name'', JStr (lit name))]"

text \<open>A response is a digit, which is its length, and as many bytes; a chunk size is one byte.\<close>

definition tiny_syntax :: http_syntax where
  "tiny_syntax =
     \<lparr>hs_response = (\<lambda>bs. case bs of [] \<Rightarrow> Partial | b # _ \<Rightarrow> Complete (1, Some 200, [(lit ''Content-Length'', [b])])),
      hs_chunk_size = (\<lambda>bs. case bs of [] \<Rightarrow> Partial | b # _ \<Rightarrow> Complete (1, if b = 255 then usize_max else unat b))\<rparr>"

lemma tiny_syntax_ok: "http_syntax_ok tiny_syntax"
  by (auto simp: http_syntax_ok_def left_to_right_def tiny_syntax_def split: list.splits)

definition delivers :: "(io_error + u8 list) list \<Rightarrow> io_env" where
  "delivers reads = \<lparr>rd = reads, wr = [], fl = [], sent = []\<rparr>"

section \<open>Rooms\<close>

text \<open>C16: the state of a room is, for every type and key, the last event of that type and key over all
  responses so far, however many, the state section of a response before its timeline.\<close>

theorem room_state_is_the_last_event:
  assumes "foldl (\<lambda>room resp. case room of Inl e \<Rightarrow> Inl e | Inr r \<Rightarrow> update_from_sync V resp r)
      (from_sync V room_id first) later = Inr room"
  shows "get_state room etype key
    = map_option ev_content (last_event etype key
        (concat (map (\<lambda>resp. st_events (jr_state resp) @ tl_events (jr_timeline resp)) (first # later))))"
proof -
  have "rm_state room = put_timeline_events (concat (map sync_events (first # later))) bt_empty"
    by (rule updates_state [OF assms])
  then have "get_state room etype key = map_option ev_content (last_event etype key (concat (map sync_events (first # later))))"
    by (simp add: get_state_lookup put_timeline_lookup lookup_event_def [of "[]"] split: option.splits)
  then show ?thesis by (simp only: sync_events_def [abs_def])
qed

theorem room_state_is_the_last_event_witness:
  "\<exists>room. foldl (\<lambda>room resp. case room of Inl e \<Rightarrow> Inl e | Inr r \<Rightarrow> update_from_sync jv_ops resp r)
      (from_sync jv_ops (lit ''!r'') (response_of [name_of ''old''] []))
      [response_of [name_of ''mid''] [], response_of [] [name_of ''new'', join_of ''@a:s'']] = Inr room
    \<and> get_state room (lit ''m.room.name'') [] = Some (JObj [(lit ''name'', JStr (lit ''new''))])"
proof -
  let ?r1 = "response_of [name_of ''old''] []" and ?r2 = "response_of [name_of ''mid''] []"
    and ?r3 = "response_of [] [name_of ''new'', join_of ''@a:s'']"
  have "all_keyed (st_events (jr_state ?r1))" "all_keyed (st_events (jr_state ?r2))" "all_keyed (st_events (jr_state ?r3))"
    by (simp_all add: response_of_def all_keyed_def name_of_def event_of_def)
  note keyed = this
  obtain room where r1: "from_sync jv_ops (lit ''!r'') ?r1 = Inr room" using keyed(1) by (simp add: from_sync_eq)
  obtain room' where r2: "update_from_sync jv_ops ?r2 room = Inr room'" using keyed(2) update_from_sync_ok by blast
  obtain room'' where r3: "update_from_sync jv_ops ?r3 room' = Inr room''" using keyed(3) update_from_sync_ok by blast
  note r = r1 r2 r3
  have run: "foldl (\<lambda>room resp. case room of Inl e \<Rightarrow> Inl e | Inr r \<Rightarrow> update_from_sync jv_ops resp r)
      (from_sync jv_ops (lit ''!r'') ?r1) [?r2, ?r3] = Inr room''" by (simp add: r)
  have "map_option ev_content (last_event (lit ''m.room.name'') []
      (concat (map (\<lambda>resp. st_events (jr_state resp) @ tl_events (jr_timeline resp)) (?r1 # [?r2, ?r3]))))
      = Some (JObj [(lit ''name'', JStr (lit ''new''))])"
    by code_simp
  from trans [OF room_state_is_the_last_event [OF run] this] run show ?thesis by (intro exI conjI)
qed

text \<open>C32: the members of a room built from a response are exactly the users whose last membership event
  is a join, each with the display name of that event. A member is a moderator exactly if the last
  event with the power levels lists the user with a level that is an integer of at least 50.\<close>

theorem first_members_are_the_joined_users:
  assumes "from_sync V room_id resp = Inr room"
  shows "bt_get (rm_members room) u =
    (case last_event (lit ''m.room.member'') u (sync_events resp) of
       None \<Rightarrow> None
     | Some ev \<Rightarrow>
         if content_str V (ev_content ev) (lit ''membership'') = Some (lit ''join'') then
           Some \<lparr>mb_user_id = u,
             mb_display_name = (case content_str V (ev_content ev) (lit ''displayname'') of
               Some name \<Rightarrow> name | None \<Rightarrow> []),
             mb_moderator = (\<exists>power v users level_val level.
               last_event (lit ''m.room.power_levels'') [] (sync_events resp) = Some power
               \<and> vo_get V (ev_content power) (lit ''users'') = Some v \<and> vo_as_object V v = Some users
               \<and> (u, level_val) \<in> set users \<and> vo_as_u64 V level_val = Some level \<and> 50 \<le> level)\<rparr>
         else None)"
proof -
  let ?r0 = "\<lparr>rm_room_id = room_id, rm_state = put_timeline_events (sync_events resp) bt_empty,
    rm_members = bt_empty\<rparr>"
  have room: "room = recalculate_members V ?r0"
    using assms by (auto simp: from_sync_eq split: if_splits)
  have wf: "state_wf (rm_state ?r0)" by (simp add: put_timeline_wf)
  have found: "lookup_event (rm_state ?r0) etype k = last_event etype k (sync_events resp)" for etype k
    by (simp add: put_timeline_lookup lookup_event_def [of "[]"] split: option.splits)
  show ?thesis
    unfolding room recalculate_get [OF wf] found joined_def member_of_event_def moderators_iff
      get_state_lookup map_option_eq_Some unwrap_or_def
    by (auto split: option.splits) blast+
qed

definition levels_of :: "(string \<times> nat) list \<Rightarrow> jv event" where
  "levels_of levels = event_of ''m.room.power_levels'' (Some [])
     [(lit ''users'', JObj (map (\<lambda>(u, n). (lit u, JNum n)) levels))]"

theorem first_members_are_the_joined_users_witness:
  "\<exists>room. from_sync jv_ops (lit ''!r'') (response_of [join_of ''@a:s'', join_of ''@b:s'', join_of ''@c:s'']
        [levels_of [(''@a:s'', 50), (''@c:s'', 49)], leave_of ''@b:s'']) = Inr room
    \<and> bt_get (rm_members room) (lit ''@b:s'') = None
    \<and> map_option mb_moderator (bt_get (rm_members room) (lit ''@a:s'')) = Some True
    \<and> map_option mb_moderator (bt_get (rm_members room) (lit ''@c:s'')) = Some False"
proof -
  let ?r = "response_of [join_of ''@a:s'', join_of ''@b:s'', join_of ''@c:s'']
        [levels_of [(''@a:s'', 50), (''@c:s'', 49)], leave_of ''@b:s'']"
  have "all_keyed (st_events (jr_state ?r))"
    by (simp add: response_of_def all_keyed_def join_of_def event_of_def)
  then obtain room where r: "from_sync jv_ops (lit ''!r'') ?r = Inr room" by (simp add: from_sync_eq)
  have "last_event (lit ''m.room.member'') (lit ''@b:s'') (sync_events ?r) = Some (leave_of ''@b:s'')"
    "last_event (lit ''m.room.member'') (lit ''@a:s'') (sync_events ?r) = Some (join_of ''@a:s'')"
    "last_event (lit ''m.room.member'') (lit ''@c:s'') (sync_events ?r) = Some (join_of ''@c:s'')"
    "last_event (lit ''m.room.power_levels'') [] (sync_events ?r) = Some (levels_of [(''@a:s'', 50), (''@c:s'', 49)])"
    "joined jv_ops (join_of ''@a:s'')" "joined jv_ops (join_of ''@c:s'')" "\<not> joined jv_ops (leave_of ''@b:s'')"
    by code_simp+
  moreover have "vo_get jv_ops (ev_content (levels_of ls)) (lit ''users'') = Some (JObj (map (\<lambda>(u, n). (lit u, JNum n)) ls))"
    "vo_as_object jv_ops (JObj m) = Some m" "vo_as_u64 jv_ops (JNum n) = Some (of_nat n)" for ls m n
    by (simp_all add: levels_of_def event_of_def jv_ops_def)
  ultimately show ?thesis
    using first_members_are_the_joined_users [OF r, of "lit ''@a:s''"]
      first_members_are_the_joined_users [OF r, of "lit ''@b:s''"]
      first_members_are_the_joined_users [OF r, of "lit ''@c:s''"] r
    by (intro exI [of _ room]) (simp add: joined_def lit_def)
qed

text \<open>a later response changes the members only when it has an event of the misspelt type
  \<open>m.room_member\<close>: joins and leaves of type \<open>m.room.member\<close> go into the state but not into the members.\<close>

theorem later_joins_are_not_members:
  assumes "update_from_sync V resp room = Inr room'"
    and "\<forall>ev \<in> set (sync_events resp). ev_etype ev \<noteq> lit ''m.room_member''"
  shows "rm_members room' = rm_members room"
proof -
  have "\<not> list_ex is_member_event (st_events (jr_state resp))"
    "\<not> list_ex (\<lambda>ev. ev_state_key ev \<noteq> None \<and> is_member_event ev) (tl_events (jr_timeline resp))"
    using assms(2) by (auto simp: list_ex_iff is_member_event_def sync_events_def)
  then show ?thesis
    using assms(1) by (auto simp: update_from_sync_def Let_def split: sum.splits)
qed

theorem later_joins_are_not_members_witness:
  "\<exists>room room'. from_sync jv_ops (lit ''!r'') (response_of [] []) = Inr room
    \<and> update_from_sync jv_ops (response_of [join_of ''@b:s''] []) room = Inr room'
    \<and> bt_get (rm_members room') (lit ''@b:s'') = None"
proof -
  let ?r = "response_of [join_of ''@b:s''] []"
  have "map_sum (\<lambda>_. ()) rm_members (from_sync jv_ops (lit ''!r'') (response_of [] [])) = Inr bt_empty"
    by code_simp
  then obtain room where r1: "from_sync jv_ops (lit ''!r'') (response_of [] []) = Inr room"
    and m: "rm_members room = bt_empty"
    by (cases "from_sync jv_ops (lit ''!r'') (response_of [] [])") auto
  have "all_keyed (st_events (jr_state ?r))"
    by (simp add: response_of_def all_keyed_def join_of_def event_of_def)
  then obtain room' where r2: "update_from_sync jv_ops ?r room = Inr room'"
    using update_from_sync_ok by blast
  have "\<forall>ev \<in> set (sync_events ?r). ev_etype ev \<noteq> lit ''m.room_member''"
    by (simp add: sync_events_def response_of_def join_of_def event_of_def)
  with later_joins_are_not_members [OF r2] r1 r2 m show ?thesis by auto
qed

text \<open>a member is never removed: whatever a later response says, every member of the room is still
  a member after it.\<close>

theorem members_are_never_removed:
  assumes "update_from_sync V resp room = Inr room'"
  shows "set (bt_keys (rm_members room)) \<subseteq> set (bt_keys (rm_members room'))"
proof -
  obtain st where "room' = room\<lparr>rm_state := st\<rparr> \<or> room' = recalculate_members V (room\<lparr>rm_state := st\<rparr>)"
    using assms by (auto simp: update_from_sync_def Let_def split: sum.splits if_splits)
  then show ?thesis
    using recalculate_keys [of "room\<lparr>rm_state := st\<rparr>" V] by auto
qed

theorem members_are_never_removed_witness:
  "\<exists>room room'. from_sync jv_ops (lit ''!r'') (response_of [join_of ''@a:s''] []) = Inr room
    \<and> update_from_sync jv_ops (response_of [leave_of ''@a:s''] []) room = Inr room'
    \<and> lit ''@a:s'' \<in> set (bt_keys (rm_members room'))"
proof -
  let ?r = "response_of [leave_of ''@a:s''] []"
  have "map_sum (\<lambda>_. ()) (\<lambda>room. bt_keys (rm_members room))
      (from_sync jv_ops (lit ''!r'') (response_of [join_of ''@a:s''] [])) = Inr [lit ''@a:s'']"
    by code_simp
  then obtain room where r1: "from_sync jv_ops (lit ''!r'') (response_of [join_of ''@a:s''] []) = Inr room"
    and m: "bt_keys (rm_members room) = [lit ''@a:s'']"
    by (cases "from_sync jv_ops (lit ''!r'') (response_of [join_of ''@a:s''] [])") auto
  have "all_keyed (st_events (jr_state ?r))"
    by (simp add: response_of_def all_keyed_def leave_of_def event_of_def)
  then obtain room' where r2: "update_from_sync jv_ops ?r room = Inr room'"
    using update_from_sync_ok by blast
  with members_are_never_removed [OF r2] r1 m show ?thesis by auto
qed

text \<open>applying a response fails only by a panic, and exactly when an event of its state section has
  no state key.\<close>

theorem sync_panics_iff_a_state_event_has_no_key:
  "(\<exists>room. from_sync V room_id resp = Inr room) \<longleftrightarrow> all_keyed (st_events (jr_state resp))"
  by (simp add: from_sync_eq)

section \<open>HTTP\<close>

text \<open>C5: the HTTP parser gives the responses of the byte stream however the reads cut it up: a response
  comes back when the bytes read so far decode to it, with the bytes behind it left in the buffer;
  when the parser waits, the bytes read so far are incomplete and nothing of them is lost; an error
  means the bytes are malformed or incomplete, and a panic that they have an impossible chunk size. The
  exception is a response without a length, which goes on to the end of the stream: it comes back only
  when a read was at the end, and then without its body, all of whose bytes stay in the buffer.\<close>

theorem responses_do_not_depend_on_reads:
  assumes "http_syntax_ok H" "poll_for_response H p e = (r, p', e')"
  shows "\<exists>bs. consumed e bs e'
    \<and> (case r of
        Inr (Ready resp) \<Rightarrow> hp_curr_state p' = Headers
          \<and> ((\<forall>xs. pdecode H p (bs @ xs) = Done resp (hp_response_buffer p' @ xs))
             \<or> Inr [] \<in> set (rd e)
               \<and> (\<forall>xs. pdecode H p (bs @ xs) = Until_eof resp (hp_response_buffer p' @ xs)))
      | Inr NotReady \<Rightarrow> (\<forall>xs. pdecode H p (bs @ xs) = pdecode H p' xs)
          \<and> (pdecode H p' [] = More \<or> (\<exists>resp body. pdecode H p' [] = Until_eof resp body))
      | Inl (Panic _) \<Rightarrow> pdecode H p bs = Crash
      | Inl (IoErr _) \<Rightarrow> pdecode H p bs \<in> {More, Bad} \<or> (\<exists>resp body. pdecode H p bs = Until_eof resp body))"
proof -
  obtain bs where bs: "consumed e bs e'" "parse_step H p bs r p'" "ended_by_eof H p bs r e"
    using poll_for_response_step [OF assms] by blast
  have eof: "Inr [] \<in> set (rd e)" if "r = Inr (Ready resp)" "\<forall>xs. pdecode H p (bs @ xs) = Until_eof x (b @ xs)" for resp x b
    using bs(3) that spec [OF that(2), of "[]"] by (simp add: ended_by_eof_def)
  from bs(2) show ?thesis
    unfolding parse_step_def is_until_eof_def
    by (intro exI [of _ bs] conjI bs(1)) (auto dest: eof split: sum.splits async.splits exn.splits)
qed

theorem responses_do_not_depend_on_reads_witness:
  "\<exists>bs p' e'. poll_for_response tiny_syntax http_parser_new (delivers [Inr [50, 7], Inr [8, 49]])
      = (Inr (Ready \<lparr>rp_code = 200, rp_content_type = None, rp_data = [7, 8]\<rparr>), p', e')
    \<and> (\<forall>xs. pdecode tiny_syntax http_parser_new (bs @ xs)
        = Done \<lparr>rp_code = 200, rp_content_type = None, rp_data = [7, 8]\<rparr> (hp_response_buffer p' @ xs))"
proof -
  let ?q = "poll_for_response tiny_syntax http_parser_new (delivers [Inr [50, 7], Inr [8, 49]])"
    and ?r = "\<lparr>rp_code = 200, rp_content_type = None, rp_data = [7, 8]\<rparr>"
  have "fst ?q = Inr (Ready ?r)" by code_simp
  then obtain p' e' where q: "?q = (Inr (Ready ?r), p', e')" by (metis prod.collapse)
  have "Inr [] \<notin> set (rd (delivers [Inr [50, 7], Inr [8, 49]]))" by (simp add: delivers_def)
  with responses_do_not_depend_on_reads [OF tiny_syntax_ok q] q show ?thesis by auto
qed

text \<open>the body of a response without a length is lost: when the server ends it by closing the
  connection, the response is returned without the bytes of its body, and they stay in the buffer as
  if they were the start of the next response.\<close>

theorem body_until_eof_is_lost:
  assumes "hp_curr_state p = RawData None" "rd e = [Inr body, Inr []]" "body \<noteq> []"
  shows "\<exists>e'. poll_for_response H p e = (Inr (Ready (hp_partial_response p)),
    p\<lparr>hp_curr_state := Headers, hp_partial_response := response_default,
      hp_response_buffer := hp_response_buffer p @ body\<rparr>, e')"
proof -
  let ?e1 = "e\<lparr>rd := [Inr []]\<rparr>" and ?p1 = "p\<lparr>hp_response_buffer := hp_response_buffer p @ body\<rparr>"
  have "read_into_vec (hp_response_buffer p) e = (Inr (Ready (length body)), hp_response_buffer ?p1, ?e1)"
    using assms(2) by (simp add: read_into_vec_def env_read_def env_data_def)
  then have "poll_for_response H p e = poll_for_response H ?p1 ?e1"
    using assms(1,3) by (simp add: poll_for_response.simps [of H p e])
  also have "\<dots> = (Inr (Ready (hp_partial_response p)),
      ?p1\<lparr>hp_curr_state := Headers, hp_partial_response := response_default\<rparr>, ?e1\<lparr>rd := []\<rparr>)"
    using assms(1)
    by (simp add: poll_for_response.simps [of H ?p1] read_into_vec_def env_read_def env_data_def
        finish_response_def)
  finally show ?thesis by auto
qed

theorem body_until_eof_is_lost_witness:
  "\<exists>e' p'. poll_for_response tiny_syntax (http_parser_new\<lparr>hp_curr_state := RawData None\<rparr>) (delivers [Inr [1, 2], Inr []])
      = (Inr (Ready response_default), p', e') \<and> hp_response_buffer p' = [1, 2]"
  using body_until_eof_is_lost [of "http_parser_new\<lparr>hp_curr_state := RawData None\<rparr>" "delivers [Inr [1, 2], Inr []]"
      "[1, 2]" tiny_syntax]
  by (auto simp: http_parser_new_def delivers_def)

text \<open>a chunk that announces the largest length panics the client, whatever follows it.\<close>

theorem huge_chunk_panics:
  assumes "hp_curr_state p = ChunkedData" "hs_chunk_size H (hp_response_buffer p) = Complete (n, usize_max)"
  shows "poll_for_response H p e = (Inl (Panic ''attempt to add with overflow''), p, e)"
  using assms by (simp add: poll_for_response.simps [of H p e] Let_def usize_max_def)

theorem huge_chunk_panics_witness:
  "fst (poll_for_response tiny_syntax \<lparr>hp_response_buffer = [255], hp_curr_state = ChunkedData,
      hp_partial_response = response_default\<rparr> (delivers [])) = Inl (Panic ''attempt to add with overflow'')"
proof -
  let ?p = "\<lparr>hp_response_buffer = [255], hp_curr_state = ChunkedData, hp_partial_response = response_default\<rparr>"
  have "hs_chunk_size tiny_syntax (hp_response_buffer ?p) = Complete (1, usize_max)"
    by (simp add: tiny_syntax_def)
  with huge_chunk_panics [of ?p tiny_syntax 1 "delivers []"] show ?thesis by simp
qed

text \<open>over any number of reconnections, requests are answered in the order they were queued and each
  at most once: the tickets answered by a poll, the tickets still pending and the tickets still queued
  are together, in this order, the tickets that were pending and queued before it.\<close>

theorem requests_are_answered_in_order:
  assumes "http_syntax_ok H"
    and "reconnecting_poll H host inner st script [] = (r, inner', st', script', answers)"
  shows "map fst answers @ pending_tickets st' @ map snd (hci_requests inner')
    = pending_tickets st @ map snd (hci_requests inner)"
  using reconnecting_poll_step [OF assms] by auto

definition get_request :: request where
  "get_request = \<lparr>rq_method = lit ''GET'', rq_path = lit ''/'', rq_headers = [], rq_body = []\<rparr>"

definition two_requests :: http_client_inner where
  "two_requests = \<lparr>hci_requests = [(get_request, 0), (get_request, 1)], hci_task = True, hci_next_ticket = 2\<rparr>"

theorem requests_are_answered_in_order_witness:
  "\<exists>r inner' st' script' answers.
     reconnecting_poll tiny_syntax [] two_requests Connecting
       [Ready (Inr (delivers [Inr [48]]\<lparr>wr := [Inr 1000]\<rparr>))] [] = (r, inner', st', script', answers)
     \<and> map fst answers @ pending_tickets st' @ map snd (hci_requests inner') = [0, 1]"
proof -
  let ?q = "reconnecting_poll tiny_syntax [] two_requests Connecting
      [Ready (Inr (delivers [Inr [48]]\<lparr>wr := [Inr 1000]\<rparr>))] []"
  obtain r inner' st' script' answers where "?q = (r, inner', st', script', answers)"
    by (metis prod_cases5)
  with requests_are_answered_in_order [OF tiny_syntax_ok this] show ?thesis
    by (simp add: two_requests_def)
qed

text \<open>what a connection sends is the requests of its queue, complete and in order, after what it had
  still to send: no poll drops, repeats or reorders a byte.\<close>

theorem requests_are_written_in_order:
  assumes "http_syntax_ok H" "handler_poll H inner h = (r, inner', h', answers)"
  shows "outgoing h' = outgoing h @ queue_bytes (hch_host h) (hci_requests inner)
    \<and> hci_requests inner' = [] \<and> hci_task inner'"
  using handler_poll_step(2,4) [OF assms] by simp

theorem requests_are_written_in_order_witness:
  "\<exists>r inner' h' answers.
     handler_poll tiny_syntax two_requests (http_client_handler_new [] (delivers []\<lparr>wr := [Inr 5]\<rparr>)) = (r, inner', h', answers)
     \<and> outgoing h' = request_bytes [] get_request @ request_bytes [] get_request"
proof -
  let ?h = "http_client_handler_new [] (delivers []\<lparr>wr := [Inr 5]\<rparr>)"
  obtain r inner' h' answers where "handler_poll tiny_syntax two_requests ?h = (r, inner', h', answers)"
    by (metis prod_cases4)
  with requests_are_written_in_order [OF tiny_syntax_ok this] show ?thesis
    by (simp add: two_requests_def outgoing_def queue_bytes_def http_client_handler_new_def delivers_def)
qed

text \<open>C9: the responses a connection parses out of the bytes it reads go, in order, to the requests that wait
  longest: the first response to the first ticket of those sent and those just queued, and so on. Only
  an error gives the tickets left over an answer, and then each gets an error of the same kind with the
  text of the error inside it, which is empty for an error of the operating system.\<close>

theorem responses_go_to_the_waiting_requests:
  assumes "http_syntax_ok H" "handler_poll H inner h = (r, inner', h', answers)"
    and "tickets = hch_requests h @ map snd (hci_requests inner)"
  shows "\<exists>bs rs p rest. parses H (hch_client_reader h) bs rs p
    \<and> env_data (hch_stream h) = bs @ rest @ env_data (hch_stream h')
    \<and> length rs \<le> length tickets
    \<and> (case r of
         Inl (IoErr x) \<Rightarrow> hch_requests h' = []
           \<and> answers = zip (take (length rs) tickets) (map Inr rs)
               @ map (\<lambda>t. (t, Inl (IoError (err_kind x) (case x of IoError k inner \<Rightarrow> inner | OsError k msg \<Rightarrow> []))))
                   (drop (length rs) tickets)
       | _ \<Rightarrow> hch_requests h' = drop (length rs) tickets
           \<and> answers = zip (take (length rs) tickets) (map Inr rs))"
proof -
  from handler_poll_run [OF assms(1,2)] obtain rs ts h1 where run: "handler_run H inner h rs ts inner' h1"
    and h': "case r of
        Inl (IoErr x) \<Rightarrow> h' = h1\<lparr>hch_requests := []\<rparr>
          \<and> answers = zip ts (map Inr rs) @ map (\<lambda>t. (t, Inl (clone_io_error x))) (hch_requests h1)
      | _ \<Rightarrow> h' = h1 \<and> answers = zip ts (map Inr rs)" by blast
  have len: "length ts = length rs" and eq: "tickets = ts @ hch_requests h1"
    using run assms(3) by (simp_all add: handler_run_def)
  have ts: "ts = take (length rs) tickets" "hch_requests h1 = drop (length rs) tickets"
    "length rs \<le> length tickets"
    by (simp_all add: eq flip: len)
  have same: "hch_stream h' = hch_stream h1" using h' by (auto split: sum.splits exn.splits)
  from run obtain bs p rest where "parses H (hch_client_reader h) bs rs p"
    "env_data (hch_stream h) = bs @ rest @ env_data (hch_stream h')"
    by (auto simp: handler_run_def same)
  moreover have "clone_io_error x = IoError (err_kind x) (case x of IoError k inner \<Rightarrow> inner | OsError k msg \<Rightarrow> [])" for x
    by (cases x) simp_all
  then have "case r of
         Inl (IoErr x) \<Rightarrow> hch_requests h' = []
           \<and> answers = zip (take (length rs) tickets) (map Inr rs)
               @ map (\<lambda>t. (t, Inl (IoError (err_kind x) (case x of IoError k inner \<Rightarrow> inner | OsError k msg \<Rightarrow> []))))
                   (drop (length rs) tickets)
       | _ \<Rightarrow> hch_requests h' = drop (length rs) tickets
           \<and> answers = zip (take (length rs) tickets) (map Inr rs)"
    using h' unfolding ts(1,2) [symmetric] by (auto split: sum.splits exn.splits)
  ultimately show ?thesis using ts(3) by blast
qed

theorem responses_go_to_the_waiting_requests_witness:
  "\<exists>r inner' h' answers. handler_poll tiny_syntax two_requests
      (http_client_handler_new [] (delivers [Inr [48]]\<lparr>wr := [Inr 1000]\<rparr>)) = (r, inner', h', answers)
    \<and> (\<exists>bs rs p. parses tiny_syntax http_parser_new bs rs p \<and> length rs \<le> 2)"
proof -
  let ?h = "http_client_handler_new [] (delivers [Inr [48]]\<lparr>wr := [Inr 1000]\<rparr>)"
  have h: "hch_requests ?h @ map snd (hci_requests two_requests) = [0, 1]" "hch_client_reader ?h = http_parser_new"
    by (simp_all add: two_requests_def http_client_handler_new_def)
  obtain r inner' h' answers where p: "handler_poll tiny_syntax two_requests ?h = (r, inner', h', answers)"
    by (metis prod_cases4)
  from responses_go_to_the_waiting_requests [OF tiny_syntax_ok p refl, unfolded h] obtain bs rs q
    where "parses tiny_syntax http_parser_new bs rs q" "length rs \<le> length [0::nat, 1]" by blast
  with p show ?thesis by (intro exI conjI) (simp_all add: numeral_2_eq_2)
qed

text \<open>C10: a connection keeps its promise to the futures that use it, for every sequence of requests, polls and
  received outcomes: each request has a ticket of its own, numbered in the order of the requests, and
  until its outcome is taken a ticket waits at the connection or has its outcome, never both, through
  every failure and reconnection.\<close>

theorem requests_keep_their_tickets:
  assumes "http_syntax_ok H"
    and "run_actions conn_request (conn_turn H) conn_fetch actions (conn_new host port tls script) = (ts, s)"
  shows "ts = [0..<length ts]
    \<and> (\<forall>t \<in> set ts. Take t \<notin> set actions \<longrightarrow> conn_waiting s t \<noteq> conn_answered s t)"
proof -
  have ok: "conn_ok H (conn_new host port tls script)" by (rule conn_new_ok [OF assms(1)])
  have "conn_issued (conn_new host port tls script) = 0"
    by (simp add: conn_issued_def conn_new_def http_client_new_def http_client_inner_new_def)
  with conn.run_ok [OF ok assms(2)] have s: "conn_ok H s" "ts = [0..<conn_issued s]" by auto
  have "conn_waiting s t \<noteq> conn_answered s t" if "t \<in> set ts" "Take t \<notin> set actions" for t
    using conn.run_tickets(3) [OF ok assms(2) that] conn.one_state [OF s(1)] by (auto simp: conn.known_def)
  with s(2) show ?thesis by simp
qed

definition two_actions :: "request action list" where
  "two_actions = [Request get_request, Turn, Request get_request, Turn, Take 0]"

theorem requests_keep_their_tickets_witness:
  "\<exists>s. run_actions conn_request (conn_turn tiny_syntax) conn_fetch two_actions
      (conn_new [] 80 False [Ready (Inr (delivers [Inr [48]]))]) = ([0, 1], s)
    \<and> conn_waiting s 1 \<noteq> conn_answered s 1"
proof -
  let ?q = "run_actions conn_request (conn_turn tiny_syntax) conn_fetch two_actions
      (conn_new [] 80 False [Ready (Inr (delivers [Inr [48]]))])"
  have "fst ?q = [0, 1]" by code_simp
  then obtain s where s: "?q = ([0, 1], s)" by (metis prod.collapse)
  have "Take 1 \<notin> set two_actions" by (simp add: two_actions_def)
  with requests_keep_their_tickets [OF tiny_syntax_ok s] s show ?thesis by simp
qed

text \<open>C37: a write that would block is taken for an error: every pending and queued request is answered
  with it (an error of this kind, with the text inside it), although the connection is fine and would
  have accepted the bytes later.\<close>

theorem blocked_write_fails_every_request:
  assumes "hci_requests inner \<noteq> []" "wr (hch_stream h) = Inl x # rest" "err_kind x = WouldBlock"
  shows "\<exists>inner' h'. handler_poll H inner h = (Inl (IoErr x), inner', h',
    map (\<lambda>t. (t, Inl (IoError WouldBlock (case x of IoError k inner \<Rightarrow> inner | OsError k msg \<Rightarrow> []))))
      (hch_requests h @ map snd (hci_requests inner))) \<and> hch_requests h' = []"
proof -
  let ?h1 = "fold accept_request (hci_requests inner) h"
  have nonempty: "request_bytes host req \<noteq> []" for host req
    by (simp add: request_bytes_def crlf_def utf8_bytes_def encode_append encode_Cons)
  have ne: "hch_write_buffer ?h1 \<noteq> []"
    using assms(1) nonempty
    by (cases "hci_requests inner") (auto simp del: fold.simps simp: split_beta)
  have "write_to_stream ?h1 = (Inl (IoErr x), ?h1\<lparr>hch_stream := (hch_stream h)\<lparr>wr := rest\<rparr>\<rparr>)"
    using assms(2) by (simp add: write_to_stream_def env_write_def)
  with ne have "poll_inner H inner h [] = (Inl (IoErr x), inner\<lparr>hci_task := True, hci_requests := []\<rparr>,
      ?h1\<lparr>hch_stream := (hch_stream h)\<lparr>wr := rest\<rparr>\<rparr>, [])"
    unfolding poll_inner.simps [of H inner h] Let_def by simp
  moreover have "clone_io_error x = IoError WouldBlock (case x of IoError k inner \<Rightarrow> inner | OsError k msg \<Rightarrow> [])"
    using assms(3) by (cases x) simp_all
  ultimately show ?thesis by (simp add: handler_poll_def)
qed

theorem blocked_write_fails_every_request_witness:
  "\<exists>inner' h'. handler_poll tiny_syntax two_requests
      (http_client_handler_new [] (delivers []\<lparr>wr := [Inl would_block, Inr 5]\<rparr>))
    = (Inl (IoErr would_block), inner', h', [(0, Inl (IoError WouldBlock [])), (1, Inl (IoError WouldBlock []))])"
proof -
  let ?h = "http_client_handler_new [] (delivers []\<lparr>wr := [Inl would_block, Inr 5]\<rparr>)"
  have "hci_requests two_requests \<noteq> []" "wr (hch_stream ?h) = Inl would_block # [Inr 5]"
    "err_kind would_block = WouldBlock"
    by (simp_all add: two_requests_def http_client_handler_new_def would_block_def)
  from blocked_write_fails_every_request [OF this, of tiny_syntax] show ?thesis
    by (auto simp: two_requests_def http_client_handler_new_def would_block_def)
qed

section \<open>The session with the home server\<close>

text \<open>C25: the sync loop has at most one request under way. While the one it waits for has no outcome, a
  poll changes nothing and sends nothing. A response ends it: nothing is sent, a status other than 200
  and a body that cannot be read are errors, and a response that can be read is handed on and its token
  remembered. Only when there is no request, or the one there was has failed, a poll sends one, with the
  access token and the token of the last response handed on, and waits for exactly that one.\<close>

theorem one_sync_request_at_a_time:
  assumes "tickets_fresh (msc_http_stream c) cells" "sync_client_poll U J c cells = (r, c', cells')"
  shows "case (case msc_current_sync c of None \<Rightarrow> Some None | Some t \<Rightarrow> bt_get cells t) of
      None \<Rightarrow> r = Inr NotReady \<and> c' = c \<and> cells' = cells
    | Some (Some (Inr response)) \<Rightarrow>
        msc_current_sync c' = None \<and> msc_http_stream c' = msc_http_stream c
        \<and> cells' = bt_remove (the (msc_current_sync c)) cells
        \<and> (if rp_code response \<noteq> 200 then
             r = Inl (IoErr (IoError Other (lit ''Sync returned '' @ decimal (unat (rp_code response)))))
             \<and> msc_next_token c' = msc_next_token c
           else case jo_parse_sync J (rp_data response) of
             Inl e \<Rightarrow> r = Inl (IoErr (IoError Other (lit ''Sync returned invalid JSON: '' @ e)))
               \<and> msc_next_token c' = msc_next_token c
           | Inr resp \<Rightarrow> r = Inr (Ready resp) \<and> msc_next_token c' = Some (sr_next_batch resp))
    | _ \<Rightarrow>
        r = Inr NotReady \<and> msc_next_token c' = msc_next_token c \<and> msc_access_token c' = msc_access_token c
        \<and> msc_current_sync c' = Some (hci_next_ticket (msc_http_stream c))
        \<and> hci_next_ticket (msc_http_stream c') = Suc (hci_next_ticket (msc_http_stream c))
        \<and> hci_requests (msc_http_stream c') = hci_requests (msc_http_stream c) @
            [(\<lparr>rq_method = lit ''GET'',
               rq_path = url_path_and_query U (uo_set_query U (msc_url c)
                 ([(lit ''access_token'', msc_access_token c),
                   (lit ''filter'', lit ''{\"presence\":{\"not_types\":[\"m.presence\"]}}''),
                   (lit ''timeout'', lit ''30000'')]
                  @ (case msc_next_token c of Some token \<Rightarrow> [(lit ''since'', token)] | None \<Rightarrow> []))),
               rq_headers = [], rq_body = []\<rparr>, hci_next_ticket (msc_http_stream c))]
        \<and> cells' = (case msc_current_sync c of None \<Rightarrow> cells | Some t \<Rightarrow> bt_remove t cells)"
  using sync_client_poll_cases [OF assms]
  by (simp add: sync_result_def sync_request_def sync_query_def sync_filter_def
      split: option.splits sum.splits if_splits)

definition text_url :: "rstr url_ops" where
  "text_url = \<lparr>uo_host_str = (\<lambda>u. Some u), uo_port_or_known_default = (\<lambda>u. Some 443), uo_scheme = (\<lambda>u. lit ''https''),
     uo_join = (\<lambda>u s. Some (u @ s)), uo_path = (\<lambda>u. u), uo_query = (\<lambda>u. None),
     uo_set_query = (\<lambda>u q. u @ lit ''?'' @ concat (map (\<lambda>(k, v). k @ lit ''='' @ v @ lit ''&'') q)),
     uo_string = (\<lambda>u. u), uo_percent_encode = map unat\<rparr>"

definition no_json :: "jv json_ops" where
  "no_json = \<lparr>jo_parse_sync = (\<lambda>_. Inl []), jo_parse_login = (\<lambda>_. Inl []), jo_parse_join = (\<lambda>_. Inl []),
     jo_parse_send = (\<lambda>_. Inl []), jo_login_to_vec = (\<lambda>i. Some (utf8_bytes (lp_user i))),
     jo_send_to_vec = (\<lambda>i. Some (utf8_bytes (ri_body i))), jo_join_to_vec = Some []\<rparr>"

definition fresh_sync :: "rstr matrix_sync_client" where
  "fresh_sync = \<lparr>msc_url = lit ''/sync'', msc_access_token = lit ''t'', msc_next_token = Some (lit ''s1''),
     msc_http_stream = http_client_inner_new, msc_current_sync = None\<rparr>"

theorem one_sync_request_at_a_time_witness:
  "\<exists>c'. sync_client_poll text_url no_json fresh_sync bt_empty = (Inr NotReady, c', bt_empty)
     \<and> msc_current_sync c' = Some 0 \<and> length (hci_requests (msc_http_stream c')) = 1"
proof -
  obtain r c' cells' where p: "sync_client_poll text_url no_json fresh_sync bt_empty = (r, c', cells')"
    by (metis prod_cases3)
  have "tickets_fresh (msc_http_stream fresh_sync) bt_empty" by (simp add: tickets_fresh_def)
  from one_sync_request_at_a_time [OF this p] p show ?thesis
    by (simp add: fresh_sync_def http_client_inner_new_def)
qed

text \<open>a sync response reaches the bridge without the echoes of its own messages and otherwise
  unchanged and in order, the rooms of the response are then known to the client, and the rooms stay
  well formed.\<close>

theorem sync_hides_own_messages:
  assumes "mc_inv c cells" "matrix_poll_sync U J V c cells = (Inr (Ready (Some out)), c', cells')"
  shows "mc_inv c' cells'
    \<and> (\<forall>(r, sync) \<in> set (rs_join (sr_rooms out)). get_room c' r \<noteq> None
         \<and> list_all (\<lambda>ev. \<not> own_echo ev) (tl_events (jr_timeline sync)))
    \<and> (\<exists>resp. out = retain_response resp
         \<and> msc_next_token (mc_sync_client c') = Some (sr_next_batch resp))"
proof -
  note st = matrix_poll_sync_step [OF assms]
  obtain resp where resp: "out = retain_response resp"
    "msc_next_token (mc_sync_client c') = Some (sr_next_batch resp)"
    "set (bt_keys (mc_rooms c')) = set (bt_keys (mc_rooms c)) \<union> fst ` set (rs_join (sr_rooms resp))"
    using st(2) [of "Some out"] by auto
  with st(1) matrix_poll_sync_foreign [OF assms] show ?thesis by blast
qed

definition echo_event :: "jv event" where
  "echo_event = (event_of ''m.room.message'' None [])\<lparr>ev_unsigned := \<lparr>eu_transaction_id = Some (lit ''mircd-7'')\<rparr>\<rparr>"

definition echo_response :: "jv sync_response" where
  "echo_response = \<lparr>sr_next_batch = lit ''s2'', sr_rooms = \<lparr>rs_join =
     [(lit ''!r'', response_of [] [echo_event, event_of ''m.room.message'' None []])]\<rparr>\<rparr>"

definition waiting_client :: "(rstr, jv) matrix_client" where
  "waiting_client = \<lparr>mc_url = lit ''h'', mc_user_id = lit ''@u:s'', mc_access_token = lit ''t'',
     mc_sync_client = fresh_sync\<lparr>msc_current_sync := Some 0, msc_http_stream := two_requests\<rparr>,
     mc_rooms = bt_empty, mc_http_stream = http_client_inner_new\<rparr>"

definition ok_response :: outcome where
  "ok_response = Inr \<lparr>rp_code = 200, rp_content_type = None, rp_data = []\<rparr>"

lemma waiting_inv: "mc_inv waiting_client [(0, Some ok_response)]"
  by (simp add: mc_inv_def rooms_inv_def waiting_client_def tickets_fresh_def two_requests_def bt_get_def)

lemma echo_poll:
  "\<exists>out c' cells'. matrix_poll_sync text_url (no_json\<lparr>jo_parse_sync := \<lambda>_. Inr echo_response\<rparr>) jv_ops waiting_client
     [(0, Some ok_response)] = (Inr (Ready (Some out)), c', cells')"
proof -
  let ?q = "matrix_poll_sync text_url (no_json\<lparr>jo_parse_sync := \<lambda>_. Inr echo_response\<rparr>) jv_ops waiting_client
      [(0, Some ok_response)]"
  have "case fst ?q of Inr (Ready (Some _)) \<Rightarrow> True | _ \<Rightarrow> False" by code_simp
  then obtain out where "fst ?q = Inr (Ready (Some out))"
    by (auto split: sum.splits async.splits option.splits)
  then show ?thesis by (metis prod.collapse)
qed

theorem sync_hides_own_messages_witness:
  "\<exists>out c' cells'.
     matrix_poll_sync text_url (no_json\<lparr>jo_parse_sync := \<lambda>_. Inr echo_response\<rparr>) jv_ops waiting_client
       [(0, Some ok_response)] = (Inr (Ready (Some out)), c', cells')
     \<and> mc_inv c' cells' \<and> (\<exists>resp. out = retain_response resp)"
  using echo_poll sync_hides_own_messages [OF waiting_inv] by blast

text \<open>the login reports a wrong password exactly for the statuses 401 and 403.\<close>

theorem invalid_password_iff_status:
  "login_finish_response U J base_url http (Some (Inr resp)) = Inr (Inl InvalidPassword)
     \<longleftrightarrow> rp_code resp = 401 \<or> rp_code resp = 403"
  by (auto simp: login_finish_response_def json_post_result_def login_map_err_def split: sum.splits)

text \<open>a media address is rewritten exactly when it is \<open>mxc://\<close> and two non-empty parts with one slash
  between them.\<close>

theorem media_address_is_server_and_id:
  "mxc_capture url = Some x \<longleftrightarrow>
     (\<exists>server media. x = server @ 47 # media \<and> url = lit ''mxc://'' @ x
        \<and> server \<noteq> [] \<and> media \<noteq> [] \<and> 47 \<notin> set server \<and> 47 \<notin> set media)"
proof
  assume "mxc_capture url = Some x"
  then obtain server media where s: "split_on 47 x = [server, media]" "server \<noteq> []" "media \<noteq> []"
    and url: "url = lit ''mxc://'' @ x"
    by (auto simp: mxc_capture_def strip_prefix_Some_iff split: option.splits list.splits if_splits)
  have "x = server @ 47 # media" using join_split_on [of 47 x] s(1) by simp
  moreover have "47 \<notin> set server" "47 \<notin> set media" using s(1) split_on_pieces [of _ 47 x] by auto
  ultimately show "\<exists>server media. x = server @ 47 # media \<and> url = lit ''mxc://'' @ x
        \<and> server \<noteq> [] \<and> media \<noteq> [] \<and> 47 \<notin> set server \<and> 47 \<notin> set media"
    using s url by blast
next
  assume "\<exists>server media. x = server @ 47 # media \<and> url = lit ''mxc://'' @ x
        \<and> server \<noteq> [] \<and> media \<noteq> [] \<and> 47 \<notin> set server \<and> 47 \<notin> set media"
  then obtain server media where x: "x = server @ 47 # media" "url = lit ''mxc://'' @ x"
    "server \<noteq> []" "media \<noteq> []" "47 \<notin> set server" "47 \<notin> set media" by blast
  have "split_on 47 media = [media]" using x(6) by (induction media) auto
  then have "split_on 47 (server @ 47 # media) = [server, media]" using x(5) by (induction server) auto
  with x strip_prefix_Some_iff [of "lit ''mxc://''" url x] show "mxc_capture url = Some x"
    by (simp add: mxc_capture_def)
qed

end
