(* ===== verification/Bridge_Properties.thy ===== *)
theory Bridge_Properties
  imports Bridge_Commands Irc_Properties Matrix_Properties
begin

text \<open>
  The properties that span the two sides: names, messages in both directions and sync responses. The instances use the concrete parameters of
  \<open>Matrix_Properties\<close> and the session of \<open>Irc_Properties\<close>.
\<close>

section \<open>A concrete bridge\<close>

definition demo_crates :: "(rstr, jv) crates" where
  "demo_crates = \<lparr>cr_url = text_url, cr_json = no_json, cr_value = jv_ops, cr_rng = (\<lambda>_. 7)\<rparr>"

definition demo_room :: "jv matrix_room" where
  "demo_room = \<lparr>rm_room_id = lit ''!r'',
     rm_state = put_timeline_events [name_of ''tea room''] bt_empty,
     rm_members = [(lit ''@a:s'', \<lparr>mb_user_id = lit ''@a:s'', mb_display_name = lit ''Ann'', mb_moderator = True\<rparr>)]\<rparr>"

definition demo_client :: "(rstr, jv) matrix_client" where
  "demo_client = waiting_client\<lparr>mc_rooms := [(lit ''!r'', demo_room)]\<rparr>"

definition bridge_on :: "io_env \<Rightarrow> (rstr, jv) bridge" where
  "bridge_on conn = (bridge_new (session conn) waiting_client)\<lparr>br_matrix_client := demo_client\<rparr>"

definition demo_bridge :: "(rstr, jv) bridge" where
  "demo_bridge = bridge_on split_ping"

definition demo_sync :: "jv joined_room_sync_response" where
  "demo_sync = response_of [] [event_of ''m.room.message'' None
     [(lit ''msgtype'', JStr (lit ''m.text'')), (lit ''body'', JStr (lit ''hello''))]]"

lemma session_model [simp]: "iuc_server_model (session conn) = sm_new"
  by (simp add: session_def)

lemma waiting_client_rooms [simp]: "mc_rooms waiting_client = bt_empty"
  by (simp add: waiting_client_def)

lemma demo_room_inv: "room_inv demo_room"
  by (simp add: room_inv_def members_keyed_def demo_room_def put_timeline_wf bt_wf_def bt_get_def
      del: put_timeline_events.simps)

lemma bridge_on_inv: "br_inv (bridge_on conn)"
proof -
  have "br_inv (bridge_new (session conn) waiting_client)"
    by (rule bridge_new_inv(1) [OF session_inv]) simp_all
  moreover have "rooms_inv (mc_rooms demo_client)"
    using demo_room_inv by (simp add: rooms_inv_def demo_client_def bt_wf_def bt_get_def demo_room_def)
  ultimately show ?thesis by (simp add: br_inv_def bridge_on_def)
qed

lemma demo_bridge_inv: "br_inv demo_bridge"
  by (simp add: demo_bridge_def bridge_on_inv)

lemma demo_media_ok: "media_ok demo_crates mc"
  by (simp add: media_ok_def media_url_def demo_crates_def text_url_def split: option.splits)

lemma demo_get_room: "get_room (br_matrix_client demo_bridge) (lit ''!r'') = Some demo_room"
  by (simp add: get_room_def demo_bridge_def bridge_on_def demo_client_def bt_get_def)

section \<open>Names\<close>

text \<open>C31: the name chosen for a room or a user is the wanted one if it is free, and otherwise the wanted
  one with the smallest number in brackets that makes it free. The loop ends, and the number is at
  most one more than the number of names in use, so the counter does not overflow.\<close>

theorem unique_name_is_the_first_free:
  "\<not> bt_contains m (unique_name m name)
    \<and> (unique_name m name = name
       \<or> (\<exists>j. unique_name m name = numbered name j \<and> 1 \<le> j \<and> j \<le> Suc (length m)
            \<and> bt_contains m name \<and> (\<forall>i \<in> {1..<j}. bt_contains m (numbered name i))))"
proof (cases "bt_contains m name")
  case False
  then show ?thesis by (simp add: unique_name_def)
next
  case True
  obtain j where j: "first_free m name 1 = numbered name j" "1 \<le> j"
    "j \<le> 1 + card (taken_from m name 1)" "\<forall>i. 1 \<le> i \<and> i < j \<longrightarrow> bt_contains m (numbered name i)"
    using first_free_spec [of m name 1] by blast
  with card_taken [of m name 1] True show ?thesis
    unfolding unique_name_def by (auto intro!: exI [of _ j] simp flip: unique_name_def)
      (metis first_free_spec)
qed

theorem unique_name_is_the_first_free_witness:
  "unique_name [(lit ''a'', ()), (lit ''a[1]'', ())] (lit ''a'') = lit ''a[2]''
    \<and> \<not> bt_contains [(lit ''a'', ()), (lit ''a[1]'', ())] (lit ''a[2]'')"
proof -
  have "unique_name [(lit ''a'', ()), (lit ''a[1]'', ())] (lit ''a'') = lit ''a[2]''" by code_simp
  with unique_name_is_the_first_free [of "[(lit ''a'', ()), (lit ''a[1]'', ())]" "lit ''a''"] show ?thesis
    by metis
qed

text \<open>C34: a nick the bridge gives to a Matrix user has no ASCII control character, space, double quote (34),
  hash (35), plus sign (43) or at sign (64) in it, whatever the display name and the user id are (the control characters
  beyond ASCII, U+0080 to U+009F, are not kept out); no user of the connection has the nick yet, and it
  is the one the user is known by from then on.\<close>

theorem new_nicks_are_clean:
  assumes "get_nick_from_matrix mp user_id = None"
    and "create_or_get_nick_from_matrix user_id display_name mp c = (nick, mp', c')"
  shows "(\<forall>ch \<in> set nick. 32 < ch \<and> ch \<notin> {34, 35, 43, 64, 127})
    \<and> \<not> iuc_nick_exists c nick \<and> get_nick_from_matrix mp' user_id = Some nick"
proof -
  let ?base = "nick_base user_id display_name"
  have nick: "nick = unique_name (sm_users (iuc_server_model c)) ?base"
    and mp': "mp' = fst (insert_nick nick user_id mp c)"
    using assms by (auto simp: create_or_get_nick_from_matrix_def get_nick_from_matrix_def Let_def
        split: prod.splits)
  have base: "list_all irc_safe ?base"
    by (simp add: nick_base_def strip_name_def Let_def list_all_iff)
  have "list_all irc_safe (decimal j)" for j
    by (auto simp: list_all_iff irc_safe_def dest!: decimal_digits)
  then have "list_all irc_safe (numbered ?base j)" for j
    using base by (simp add: numbered_def lit_def irc_safe_def)
  with base nick first_free_spec [of "sm_users (iuc_server_model c)" ?base 1] have "list_all irc_safe nick"
    by (metis unique_name_def)
  moreover have "irc_safe ch \<Longrightarrow> 32 < ch \<and> ch \<notin> {34, 35, 43, 64, 127}" for ch
    by (simp add: irc_safe_def not_le)
  ultimately have "\<forall>ch \<in> set nick. 32 < ch \<and> ch \<notin> {34, 35, 43, 64, 127}"
    by (simp only: list_all_iff) blast
  moreover have "\<not> iuc_nick_exists c nick"
    by (simp add: nick iuc_nick_exists_def sm_nick_exists_def)
  ultimately show ?thesis
    by (simp add: mp' insert_nick_def get_nick_from_matrix_def)
qed

theorem new_nicks_are_clean_witness:
  "\<exists>nick mp' c'. create_or_get_nick_from_matrix (lit ''@b:s'') (lit ''Bob B'') mapping_store_default
      (session split_ping) = (nick, mp', c') \<and> get_nick_from_matrix mp' (lit ''@b:s'') = Some (lit ''BobB'') \<and> nick = lit ''BobB''"
proof -
  let ?q = "create_or_get_nick_from_matrix (lit ''@b:s'') (lit ''Bob B'') mapping_store_default (session split_ping)"
  have "fst ?q = lit ''BobB''" by code_simp
  then obtain mp' c' where q: "?q = (lit ''BobB'', mp', c')" by (metis prod.collapse)
  have "get_nick_from_matrix mapping_store_default (lit ''@b:s'') = None"
    by (simp add: get_nick_from_matrix_def mapping_store_default_def)
  with new_nicks_are_clean [OF _ q] q show ?thesis by blast
qed

text \<open>C23: every room gets a channel without a panic. A room seen for the first time gets one that no
  channel has, with all its members under their nicks, and the client is told so; a known room keeps
  its channel and nothing is sent. The mapping stays one to one and nothing else in it changes.\<close>

theorem room_gets_its_channel:
  assumes "mp_inv mp c"
  shows "\<exists>channel new mp' c'.
    create_or_get_channel_name_from_matrix V room mp c = Inr ((channel, new), mp', c')
    \<and> mp_inv mp' c' \<and> room_id_to_channel mp' (rm_room_id room) = Some channel \<and> keeps_names mp mp'
    \<and> (if new then \<not> iuc_channel_exists c channel \<and> opened V room mp c channel mp' c'
       else room_id_to_channel mp (rm_room_id room) = Some channel \<and> mp' = mp \<and> c' = c)"
proof -
  obtain channel new mp' c' where r:
    "create_or_get_channel_name_from_matrix V room mp c = Inr ((channel, new), mp', c')"
    "mp_inv mp' c'" "room_id_to_channel mp' (rm_room_id room) = Some channel" "keeps_names mp mp'"
    and new: "if new then room_id_to_channel mp (rm_room_id room) = None \<and> opened V room mp c channel mp' c'
      else mp' = mp \<and> c' = c"
    using create_or_get_channel_spec [OF assms, of V room] by blast
  have "opened V room mp c channel mp' c' \<Longrightarrow> \<not> iuc_channel_exists c channel"
    by (simp add: opened_def iuc_channel_exists_def sm_channel_exists_def)
  with r new show ?thesis
    by (intro exI [of _ channel] exI [of _ new] exI [of _ mp'] exI [of _ c']) (auto split: if_splits)
qed

theorem room_gets_its_channel_witness:
  "\<exists>channel mp' c'. create_or_get_channel_name_from_matrix jv_ops demo_room (br_mappings demo_bridge)
      (br_irc_conn demo_bridge) = Inr ((channel, True), mp', c')
    \<and> channel = lit ''#tearoom'' \<and> mp_inv mp' c'"
proof -
  let ?q = "create_or_get_channel_name_from_matrix jv_ops demo_room (br_mappings demo_bridge) (br_irc_conn demo_bridge)"
  have "map_sum (\<lambda>_. ()) fst ?q = Inr (lit ''#tearoom'', True)" by code_simp
  moreover have "mp_inv (br_mappings demo_bridge) (br_irc_conn demo_bridge)"
    using demo_bridge_inv by (simp add: br_inv_def)
  ultimately show ?thesis
    using room_gets_its_channel [of "br_mappings demo_bridge" "br_irc_conn demo_bridge" jv_ops demo_room]
    by auto
qed

section \<open>From IRC to Matrix\<close>

definition mapped_bridge :: "(rstr, jv) bridge" where
  "mapped_bridge = demo_bridge\<lparr>br_mappings := mapping_store_default
     \<lparr>mp_channel_to_room_id := [(lit ''#tea'', lit ''!r'')]\<rparr>\<rparr>"

text \<open>C26: the sender of a message does not see it twice. A message to a known channel queues one request
  whose address ends in a transaction id, and no event with this id in a sync response of the home
  server reaches the bridge, whichever response it comes in and whatever the random numbers are.\<close>

theorem own_message_is_not_relayed:
  assumes "channel_to_room_id (br_mappings b) channel = Some room_id"
    and "handle_irc_cmd K (PrivMsg channel text) b = Inr b'"
    and "mc_inv c cells" "matrix_poll_sync U J V c cells = (Inr (Ready (Some out)), c', cells')"
  shows "\<exists>req url data txn. main_queue b' = main_queue b @ [(req, hci_next_ticket (mc_http_stream (br_matrix_client b)))]
    \<and> br_irc_conn b' = br_irc_conn b
    \<and> uo_join (cr_url K) (mc_url (br_matrix_client b))
        (lit ''/_matrix/client/r0/rooms/'' @ room_id @ lit ''/send/m.room.message/'' @ txn) = Some url
    \<and> req = json_post_request (cr_url K) (lit ''PUT'')
        (uo_set_query (cr_url K) url (token_query (br_matrix_client b))) data
    \<and> (\<forall>(r, sync) \<in> set (rs_join (sr_rooms out)). \<forall>ev \<in> set (tl_events (jr_timeline sync)).
         eu_transaction_id (ev_unsigned ev) \<noteq> Some txn)"
proof -
  let ?txn = "lit ''mircd-'' @ decimal (unat (cr_rng K (br_draws b)))"
  obtain req where req: "message_request K b room_id text = Some req"
    "main_queue b' = main_queue b @ [(req, hci_next_ticket (mc_http_stream (br_matrix_client b)))]"
    "br_irc_conn b' = br_irc_conn b"
    using handle_privmsg_request(1) [OF assms(1,2)] by blast
  have path: "lit ''/_matrix/client/r0/rooms/'' @ room_id @ lit ''/send/m.room.message/mircd-'' @ n
      = lit ''/_matrix/client/r0/rooms/'' @ room_id @ lit ''/send/m.room.message/'' @ lit ''mircd-'' @ n" for n
    by (simp add: lit_def)
  obtain url data where url: "uo_join (cr_url K) (mc_url (br_matrix_client b))
      (lit ''/_matrix/client/r0/rooms/'' @ room_id @ lit ''/send/m.room.message/'' @ ?txn) = Some url"
    "req = json_post_request (cr_url K) (lit ''PUT'') (uo_set_query (cr_url K) url (token_query (br_matrix_client b))) data"
    using req(1) by (auto simp: message_request_def path token_query_def Let_def split: prod.splits option.splits)
  have "\<not> own_echo ev" if "(r, sync) \<in> set (rs_join (sr_rooms out))" "ev \<in> set (tl_events (jr_timeline sync))" for r sync ev
    using matrix_poll_sync_foreign [OF assms(3,4)] that by (force simp: list_all_iff)
  then have "eu_transaction_id (ev_unsigned ev) \<noteq> Some ?txn"
    if "(r, sync) \<in> set (rs_join (sr_rooms out))" "ev \<in> set (tl_events (jr_timeline sync))" for r sync ev
    using that by (fastforce simp: own_echo_def starts_with_iff)
  with req url show ?thesis by blast
qed

theorem own_message_is_not_relayed_witness:
  "\<exists>b' out req. handle_irc_cmd demo_crates (PrivMsg (lit ''#tea'') (lit ''hi'')) mapped_bridge = Inr b'
    \<and> fst (matrix_poll_sync text_url (no_json\<lparr>jo_parse_sync := \<lambda>_. Inr echo_response\<rparr>) jv_ops waiting_client
        [(0, Some ok_response)]) = Inr (Ready (Some out))
    \<and> main_queue b' = [(req, 0)] \<and> rq_method req = lit ''PUT''"
proof -
  let ?q = "handle_irc_cmd demo_crates (PrivMsg (lit ''#tea'') (lit ''hi'')) mapped_bridge"
  have k: "channel_to_room_id (br_mappings mapped_bridge) (lit ''#tea'') = Some (lit ''!r'')"
    by (simp add: channel_to_room_id_def mapped_bridge_def bt_get_def)
  have "message_request demo_crates mapped_bridge (lit ''!r'') (lit ''hi'') \<noteq> None"
    by (simp add: message_request_def demo_crates_def text_url_def no_json_def Let_def split: prod.splits)
  then obtain b' where b': "?q = Inr b'"
    using handle_privmsg_request(2) [OF k] by blast
  obtain out c' cells' where out: "matrix_poll_sync text_url (no_json\<lparr>jo_parse_sync := \<lambda>_. Inr echo_response\<rparr>) jv_ops
      waiting_client [(0, Some ok_response)] = (Inr (Ready (Some out)), c', cells')"
    using echo_poll by blast
  from own_message_is_not_relayed [OF k b' waiting_inv out] obtain req url data txn where
    "main_queue b' = main_queue mapped_bridge
      @ [(req, hci_next_ticket (mc_http_stream (br_matrix_client mapped_bridge)))]"
    "req = json_post_request text_url (lit ''PUT'')
       (uo_set_query text_url url (token_query (br_matrix_client mapped_bridge))) data"
    by (auto simp: demo_crates_def)
  moreover have "main_queue mapped_bridge = []"
    "hci_next_ticket (mc_http_stream (br_matrix_client mapped_bridge)) = 0"
    by (simp_all add: main_queue_def mapped_bridge_def demo_bridge_def bridge_on_def demo_client_def waiting_client_def
        http_client_inner_new_def)
  ultimately show ?thesis
    using b' out by (simp add: json_post_request_def Let_def)
qed

text \<open>C2: what the client types comes out on the wire to the home server. One poll of a bridge takes a
  prefix of the commands in the client's bytes, and, with the next poll of the connection's task, the
  bytes to the home server grow by exactly the requests of these commands, in their order: one for each
  message to a known channel and each join of an unknown one, none for the rest. The client is
  answered in the same order, and the poll waits only when no complete line is left in its buffer.\<close>

theorem irc_commands_become_http_bytes:
  assumes "br_inv b" "poll_irc K b = (Inr a, b')"
    and "http_syntax_ok H" "handler_poll H (mc_http_stream (br_matrix_client b')) h = (r, inner', h', answers)"
  shows "if br_is_first_sync b then b' = b \<and> a = NotReady else
    \<exists>cmds reqs. unread b = cmds @ unread b'
      \<and> requests_of K b (br_draws b) cmds = map Some reqs
      \<and> outgoing h' = outgoing h @ queue_bytes (hch_host h) (main_queue b) @ concat (map (request_bytes (hch_host h)) reqs)
      \<and> queued (iuc_conn (br_irc_conn b')) = queued (iuc_conn (br_irc_conn b))
          @ concat (map line_bytes (concat (map (answers_to (br_irc_conn b)) cmds)))
      \<and> (a = NotReady \<longrightarrow> 10 \<notin> set (isc_read_buffer (iuc_conn (br_irc_conn b'))))
      \<and> (a = Ready () \<longrightarrow> br_closed b')"
proof (cases "br_is_first_sync b")
  case True
  with assms(2) show ?thesis by (simp add: poll_irc_def)
next
  case False
  with assms(2) have "poll_irc_loop K b = (Inr a, b')" by (simp add: poll_irc_def)
  from poll_irc_loop_transduces [OF assms(1) this] obtain cmds where cmds: "unread b = cmds @ unread b'"
    "transduces K b cmds b'" "a = NotReady \<longrightarrow> 10 \<notin> set (isc_read_buffer (iuc_conn (br_irc_conn b')))"
    "a = Ready () \<longrightarrow> br_closed b'" by blast
  from transduces_requests [OF cmds(2)] obtain new where new: "main_queue b' = main_queue b @ new"
    "requests_of K b (br_draws b) cmds = map Some (map fst new)" by blast
  have "outgoing h' = outgoing h @ queue_bytes (hch_host h) (main_queue b)
      @ concat (map (request_bytes (hch_host h)) (map fst new))"
    using handler_poll_step(4) [OF assms(3,4)] new(1)
    by (simp add: main_queue_def queue_bytes_def comp_def case_prod_unfold)
  with new(2) cmds False show ?thesis by (auto simp: transduces_def intro!: exI [of _ cmds] exI [of _ "map fst new"])
qed

definition chat_socket :: io_env where
  "chat_socket = socket [Inr (utf8_bytes (lit ''JOIN #x'' @ [10] @ lit ''PING a'' @ [10])),
     Inr (utf8_bytes (lit ''PRIVMSG #tearoom :hi'' @ [10] @ lit ''AWAY'' @ [10]))] []"

definition chat_sync :: "jv sync_response" where
  "chat_sync = \<lparr>sr_next_batch = [], sr_rooms = \<lparr>rs_join = [(lit ''!r'', demo_sync)]\<rparr>\<rparr>"

theorem irc_commands_become_http_bytes_witness:
  "\<exists>b b' h' cmds reqs. handle_sync_response demo_crates chat_sync (bridge_on chat_socket) = Inr b
    \<and> poll_irc demo_crates b = (Inr NotReady, b')
    \<and> unread b = cmds @ unread b' \<and> requests_of demo_crates b 0 cmds = map Some reqs
    \<and> outgoing h' = concat (map (request_bytes []) reqs) \<and> length (main_queue b') = 2"
proof -
  let ?new = "http_client_handler_new [] (delivers [])"
  let ?q = "case handle_sync_response demo_crates chat_sync (bridge_on chat_socket) of Inl e \<Rightarrow> None
    | Inr b \<Rightarrow> Some (b, poll_irc demo_crates b)"
  have run: "case ?q of None \<Rightarrow> False
    | Some (b, r, b') \<Rightarrow> r = Inr NotReady \<and> length (main_queue b') = 2 \<and> main_queue b = [] \<and> br_draws b = 0"
    by code_simp
  obtain b where b: "handle_sync_response demo_crates chat_sync (bridge_on chat_socket) = Inr b"
    using run by (auto split: sum.splits)
  then obtain b' where b': "poll_irc demo_crates b = (Inr NotReady, b')" "length (main_queue b') = 2"
    "main_queue b = []" "br_draws b = 0"
    using run by (auto split: prod.splits)
  obtain r inner' h' answers where h:
    "handler_poll tiny_syntax (mc_http_stream (br_matrix_client b')) ?new = (r, inner', h', answers)"
    by (metis prod_cases4)
  note keeps = handle_sync_response_keeps [OF bridge_on_inv b]
  have "outgoing ?new = []" "hch_host ?new = []" "queue_bytes [] [] = []"
    by (simp_all add: outgoing_def http_client_handler_new_def delivers_def queue_bytes_def)
  with irc_commands_become_http_bytes [OF keeps(1) b'(1) tiny_syntax_ok h] keeps(3) b b' show ?thesis by auto
qed

text \<open>a text is sent as an emote exactly when it is the word \<open>ACTION\<close> and anything between two
  bytes 1, and the emote is what stands between; every other text is sent as it is.\<close>

theorem action_is_an_emote:
  "handle_privmsg_action t =
     (if starts_with ([1] @ lit ''ACTION'') t \<and> (\<exists>v. t = [1] @ lit ''ACTION'' @ v @ [1])
      then (lit ''m.emote'', butlast (drop 7 t)) else (lit ''m.text'', t))"
proof (cases "\<exists>v. t = [1] @ lit ''ACTION'' @ v @ [1]")
  case True
  then obtain v where v: "t = [1] @ lit ''ACTION'' @ v @ [1]" by blast
  then have "strip_prefix (1 # lit ''ACTION'') t = Some (v @ [1])" "strip_suffix [1] (v @ [1]) = Some v"
    by (simp_all add: strip_prefix_Some_iff strip_suffix_Some_iff)
  moreover have "drop 7 t = v @ [1]" by (simp add: v)
  moreover have "starts_with ([1] @ lit ''ACTION'') t" by (auto simp: v starts_with_iff)
  ultimately show ?thesis using True by (simp add: handle_privmsg_action_def)
next
  case False
  then have "\<And>w v. strip_prefix (1 # lit ''ACTION'') t = Some w \<Longrightarrow> strip_suffix [1] w \<noteq> Some v"
    by (auto simp: strip_prefix_Some_iff strip_suffix_Some_iff)
  then have "(case strip_prefix (1 # lit ''ACTION'') t of None \<Rightarrow> None | Some w \<Rightarrow> strip_suffix [1] w) = None"
    by (auto split: option.splits) (metis option.exhaust)
  with False show ?thesis by (simp add: handle_privmsg_action_def)
qed

text \<open>an emote the bridge itself would send to IRC comes back with a space before it: the separator
  after \<open>ACTION\<close> is taken for a part of the text.\<close>

theorem emote_round_trip_gains_a_space:
  "handle_privmsg_action (action_text v) = (lit ''m.emote'', 32 # v)"
proof -
  have "action_text v = (1 # lit ''ACTION'') @ (32 # v) @ [1]"
    by (simp add: action_text_def lit_def)
  then have "strip_prefix (1 # lit ''ACTION'') (action_text v) = Some ((32 # v) @ [1])"
    "strip_suffix [1] ((32 # v) @ [1]) = Some (32 # v)"
    by (simp_all only: strip_prefix_Some_iff strip_suffix_Some_iff)
  then show ?thesis by (simp add: handle_privmsg_action_def)
qed

section \<open>From Matrix to IRC\<close>

text \<open>C33: a text message reaches the client whole, one line of it per IRC line, each a \<open>PRIVMSG\<close> of the
  channel, and where the names of the channel and the sender hold no newline, none of these lines holds
  one, so that what the text says is never taken for another command. (Nicks the bridge makes hold none;
  of a channel named by an alias the code does not ensure it.)\<close>

theorem message_lines_cannot_be_injected:
  assumes "iuc_inv c" "10 \<notin> set channel" "10 \<notin> set sender"
  shows "iuc_emits c (send_message channel sender body c) (message_lines channel sender body)
    \<and> (\<forall>l \<in> set (message_lines channel sender body). 10 \<notin> set l)
    \<and> (\<exists>texts. message_lines channel sender body
          = map (\<lambda>t. lit '':'' @ sender @ lit '' PRIVMSG '' @ channel @ lit '' :'' @ t) texts
        \<and> join_on 10 texts = body)"
  using send_message_emits [OF assms(1)] assms(2,3) join_split_on [of 10 body] split_on_pieces [of _ 10 body]
  by (intro conjI exI [of _ "split_on 10 body"]) (auto simp: message_lines_def privmsg_line_def lit_def)

theorem message_lines_cannot_be_injected_witness:
  "message_lines (lit ''#r'') (lit ''ann'') (lit ''a'' @ [10] @ lit ''QUIT'')
      = [lit '':ann PRIVMSG #r :a'', lit '':ann PRIVMSG #r :QUIT'']
    \<and> iuc_emits (session split_ping) (send_message (lit ''#r'') (lit ''ann'') (lit ''a'' @ [10] @ lit ''QUIT'') (session split_ping))
        (message_lines (lit ''#r'') (lit ''ann'') (lit ''a'' @ [10] @ lit ''QUIT''))"
proof -
  have "10 \<notin> set (lit ''#r'')" "10 \<notin> set (lit ''ann'')" by (simp_all add: lit_def)
  moreover have "message_lines (lit ''#r'') (lit ''ann'') (lit ''a'' @ [10] @ lit ''QUIT'')
      = [lit '':ann PRIVMSG #r :a'', lit '':ann PRIVMSG #r :QUIT'']" by code_simp
  ultimately show ?thesis
    using message_lines_cannot_be_injected [OF session_inv [of split_ping], of "lit ''#r''" "lit ''ann''"
        "lit ''a'' @ [10] @ lit ''QUIT''"] by blast
qed

text \<open>the topic of a room is not cut into lines: a topic with a newline in it, which any member who
  may set it can choose, puts a line of its own into what the client is sent when the channel opens.\<close>

theorem topic_newline_is_sent:
  assumes "10 \<in> set topic"
  shows "\<exists>l \<in> set (join_lines c (make_channel name topic members)). 10 \<in> set l"
  using assms by (simp add: join_lines_def numeric_line_def)

theorem topic_newline_is_sent_witness:
  "\<exists>l \<in> set (join_lines (session split_ping)
      (make_channel (lit ''#r'') (lit ''x'' @ [10] @ lit '':evil QUIT'') [])). 10 \<in> set l"
proof -
  have "10 \<in> set (lit ''x'' @ [10] @ lit '':evil QUIT'')" by simp
  from topic_newline_is_sent [OF this] show ?thesis .
qed

text \<open>C15: what the client sees of a room in a sync response is, in this order, the join of a new channel
  with its topic and names, the redirect of a join it attempted under another name, and the lines of
  the events of the timeline. An event has lines if it is a message whose sender has a nick and whose
  content has a body and a type, and a URL where the type is that of a media message; of every other
  event the client sees nothing. The pending join is settled, and the mapping keeps what it had.\<close>

theorem room_sync_shows_the_timeline:
  assumes "br_inv b" "get_room (br_matrix_client b) room_id = Some room"
    and "handle_room_sync K room_id sync b = Inr b'"
  shows "br_inv b' \<and> bridge_frame b b' \<and> room_step K room sync b b'"
  using handle_room_sync_spec [OF assms(1), of K room_id sync] assms(2,3) by auto

theorem room_sync_shows_the_timeline_witness:
  "\<exists>b'. handle_room_sync demo_crates (lit ''!r'') demo_sync demo_bridge = Inr b'
    \<and> room_step demo_crates demo_room demo_sync demo_bridge b'"
proof -
  obtain b' where b': "handle_room_sync demo_crates (lit ''!r'') demo_sync demo_bridge = Inr b'"
    using handle_room_sync_ok [OF demo_bridge_inv demo_media_ok] by blast
  from room_sync_shows_the_timeline [OF demo_bridge_inv demo_get_room this] b' show ?thesis by blast
qed

text \<open>C22: handling a sync response does not panic as long as media addresses can be joined to the base
  address; afterwards the first sync is over, and every room of it that the client knows has a channel
  and no join waiting.\<close>

theorem sync_response_maps_every_room:
  assumes "br_inv b" "media_ok K (br_matrix_client b)"
  shows "\<exists>b'. handle_sync_response K resp b = Inr b' \<and> br_inv b' \<and> \<not> br_is_first_sync b'
    \<and> (\<forall>r \<in> fst ` set (rs_join (sr_rooms resp)). get_room (br_matrix_client b) r \<noteq> None \<longrightarrow>
         (\<exists>ch. room_id_to_channel (br_mappings b') r = Some ch) \<and> bt_get (br_joining_map b') r = None)"
proof -
  note w = welcome_first_keeps [OF assms(1)]
  have mc: "br_matrix_client (welcome_first b) = br_matrix_client b" using w(2) by (simp add: bridge_frame_def)
  obtain b2 where b2: "handle_room_syncs K (rs_join (sr_rooms resp)) (welcome_first b) = Inr b2"
    using handle_room_syncs_ok [OF w(1)] assms(2) mc by metis
  then have b': "handle_sync_response K resp b = Inr (b2\<lparr>br_is_first_sync := False\<rparr>)"
    by (simp add: handle_sync_response_eq)
  have "(\<exists>ch. room_id_to_channel (br_mappings b2) r = Some ch) \<and> bt_get (br_joining_map b2) r = None"
    if "r \<in> fst ` set (rs_join (sr_rooms resp))" "get_room (br_matrix_client b) r \<noteq> None" for r
    using handle_room_syncs_mapped [OF w(1) b2 that(1)] that(2) mc by auto
  with b' handle_sync_response_keeps [OF assms(1) b'] show ?thesis by auto
qed

theorem sync_response_maps_every_room_witness:
  "\<exists>b'. handle_sync_response demo_crates
      \<lparr>sr_next_batch = [], sr_rooms = \<lparr>rs_join = [(lit ''!r'', demo_sync)]\<rparr>\<rparr> demo_bridge = Inr b'
    \<and> (\<exists>ch. room_id_to_channel (br_mappings b') (lit ''!r'') = Some ch)"
  using sync_response_maps_every_room [OF demo_bridge_inv demo_media_ok [of "br_matrix_client demo_bridge"],
      of "\<lparr>sr_next_batch = [], sr_rooms = \<lparr>rs_join = [(lit ''!r'', demo_sync)]\<rparr>\<rparr>"] demo_get_room
  by auto

end
