(* ===== verification/System_Properties.thy ===== *)
theory System_Properties
  imports Awaited Client_View Bridge_Properties
begin

text \<open>
  The properties of a whole connection, from the first byte of the client to the bridge and whatever
  happens to it, for every order in which the tasks are polled and every finite behaviour of the
  client, the home server and the network.
\<close>

section \<open>A concrete run\<close>

definition demo_login :: login_response where
  "demo_login = \<lparr>lr_access_token = lit ''t'', lr_device_id = lit ''d'', lr_home_server = lit ''s'', lr_user_id = lit ''@u:s''\<rparr>"

definition demo_setting :: "(rstr, jv) setting" where
  "demo_setting =
     \<lparr>se_crates = \<lparr>cr_url = text_url, cr_json = no_json\<lparr>jo_parse_login := \<lambda>_. Inr demo_login\<rparr>,
        cr_value = jv_ops, cr_rng = (\<lambda>_. 7)\<rparr>,
      se_http = tiny_syntax, se_server_name = lit ''localhost'', se_url = lit ''h''\<rparr>"

definition demo_conn :: io_env where
  "demo_conn = socket [Inr (utf8_bytes (lit ''PASS p'' @ [10] @ lit ''NICK n'' @ [10] @ lit ''USER u 0 * r'' @ [10]))] []"

definition demo_script :: connect_script where
  "demo_script = [Ready (Inr (delivers [Inr [48]]\<lparr>wr := [Inr 1000]\<rparr>))]"

definition demo_start :: "(rstr, jv) system" where
  "demo_start = system_start demo_setting demo_conn demo_script []"

lemma demo_login_answered:
  "case create_irc_login demo_setting (await_login (lit ''localhost'') demo_conn) of
     Some (Awaiting_matrix c http t, Some stream) \<Rightarrow>
       (case stream_poll tiny_syntax http stream demo_script of
          (_, _, _, _, answers) \<Rightarrow> answers = [(t, ok_response)]) \<and> iuc_nick c = lit ''n''
   | _ \<Rightarrow> False"
  by code_simp

lemma demo_bridging:
  "\<exists>s b. system_reaches demo_setting demo_start s \<and> sy_task s = Bridging b"
proof -
  obtain c http t stream where login:
    "create_irc_login demo_setting (await_login (lit ''localhost'') demo_conn) = Some (Awaiting_matrix c http t, Some stream)"
    and polled: "case stream_poll tiny_syntax http stream demo_script of
      (_, _, _, _, answers) \<Rightarrow> answers = [(t, ok_response)]"
    using demo_login_answered by (auto split: option.splits prod.splits task.splits)
  obtain r http' stream' script where poll:
    "stream_poll tiny_syntax http stream demo_script = (r, http', stream', script, [(t, ok_response)])"
    using polled by (auto split: prod.splits)
  let ?s1 = "demo_start\<lparr>sy_task := Awaiting_matrix c http t, sy_main := Some stream\<rparr>"
  let ?s2 = "?s1\<lparr>sy_task := set_task_http http' (sy_task ?s1), sy_main := Some stream', sy_main_script := script,
      sy_main_cells := deliver [(t, ok_response)] (sy_main_cells ?s1)\<rparr>"
  have 1: "system_step demo_setting demo_start ?s1"
    by (rule system_step.irc_login [of _ "await_login (lit ''localhost'') demo_conn"])
      (use login in \<open>simp_all add: demo_start_def system_start_def demo_setting_def\<close>)
  have 2: "system_step demo_setting ?s1 ?s2"
    by (rule system_step.main_http [of _ http stream _ r])
      (use poll in \<open>simp_all add: demo_start_def system_start_def demo_setting_def\<close>)
  obtain task sync where create: "create_matrix_login demo_setting c http' (Some ok_response) = (task, sync)"
    by fastforce
  then obtain b where b: "task = Bridging b"
    by (auto simp: create_matrix_login_def login_finish_response_def json_post_result_def ok_response_def
        demo_setting_def matrix_client_new_def matrix_sync_client_new_def http_target_of_def text_url_def
        create_answered_def split: prod.splits)
  have 3: "system_step demo_setting ?s2 (?s2\<lparr>sy_task := task, sy_sync := sync,
      sy_main_cells := bt_remove t (sy_main_cells ?s2)\<rparr>)"
    by (rule system_step.matrix_login [of _ c http' t "Some ok_response"])
      (use create in \<open>simp_all add: deliver_def\<close>)
  have "system_reaches demo_setting demo_start (?s2\<lparr>sy_task := task, sy_sync := sync,
      sy_main_cells := bt_remove t (sy_main_cells ?s2)\<rparr>)"
    by (rule system_reaches.further [OF system_reaches.further [OF system_reaches.further
        [OF system_reaches.start 1] 2] 3])
  with b show ?thesis by fastforce
qed

lemma demo_http_ok: "http_syntax_ok (se_http demo_setting)"
  by (simp add: demo_setting_def tiny_syntax_ok)

section \<open>Consistency in every run\<close>

text \<open>C1: whatever the client, the home server and the network do, and in whatever order the tasks are
  polled, the maps of a running bridge stay consistent with the IRC server model: no two rooms share a
  channel, no two users a nick, every mapped channel exists, and the session's own Matrix user has the
  nick of the login.\<close>

theorem mapping_is_one_to_one_in_every_run:
  assumes "http_syntax_ok (se_http se)" "system_reaches se (system_start se conn ms ss) s"
    and "sy_task s = Bridging b"
  shows "br_inv b
    \<and> inj_on (room_id_to_channel (br_mappings b)) {r. room_id_to_channel (br_mappings b) r \<noteq> None}
    \<and> inj_on (get_nick_from_matrix (br_mappings b)) {u. get_nick_from_matrix (br_mappings b) u \<noteq> None}
    \<and> get_nick_from_matrix (br_mappings b) (mc_user_id (br_matrix_client b)) = Some (iuc_nick (br_irc_conn b))"
proof -
  have inv: "br_inv b" "\<exists>c. session_of c b"
    using system_reaches_inv [OF assms(1,2)] assms(3) by (auto simp: task_inv_def)
  then have "inverse_maps (mp_room_id_to_channel (br_mappings b)) (mp_channel_to_room_id (br_mappings b))"
    "inverse_maps (mp_matrix_uid_to_nick (br_mappings b)) (mp_nick_matrix_uid (br_mappings b))"
    by (simp_all add: br_inv_def mp_inv_defs)
  then have "inj_on (room_id_to_channel (br_mappings b)) {r. room_id_to_channel (br_mappings b) r \<noteq> None}"
    "inj_on (get_nick_from_matrix (br_mappings b)) {u. get_nick_from_matrix (br_mappings b) u \<noteq> None}"
    by (auto simp: inj_on_def room_id_to_channel_def get_nick_from_matrix_def dest: inverse_maps_inj)
  with inv show ?thesis by (auto simp: session_of_def)
qed

theorem mapping_is_one_to_one_in_every_run_witness:
  "\<exists>s b. system_reaches demo_setting demo_start s \<and> sy_task s = Bridging b \<and> br_inv b
    \<and> get_nick_from_matrix (br_mappings b) (mc_user_id (br_matrix_client b)) = Some (iuc_nick (br_irc_conn b))"
proof -
  obtain s b where s: "system_reaches demo_setting demo_start s" "sy_task s = Bridging b"
    using demo_bridging by blast
  from mapping_is_one_to_one_in_every_run [OF demo_http_ok s(1) [unfolded demo_start_def] s(2)] s
  show ?thesis by blast
qed

text \<open>C18: a bridge runs only for a client that has logged in: the nick, the user and real name and the
  password of its session are the last ones the client sent before the login was complete, the prefix it
  speaks under is made of them, and the Matrix user of the session has that nick in the maps.\<close>

theorem bridge_runs_for_who_logged_in:
  assumes "http_syntax_ok (se_http se)" "system_reaches se (system_start se conn ms ss) s"
    and "sy_task s = Bridging b"
  shows "\<exists>cmds rest. commands_of (env_data conn) = cmds @ rest
    \<and> last_some nick_of cmds = Some (iuc_nick (br_irc_conn b))
    \<and> last_some user_of cmds = Some (iuc_user (br_irc_conn b), iuc_real_name (br_irc_conn b))
    \<and> last_some pass_of cmds = Some (iuc_password (br_irc_conn b))
    \<and> iuc_user_prefix (br_irc_conn b) = iuc_nick (br_irc_conn b) @ lit ''!'' @ iuc_user (br_irc_conn b)
        @ lit ''@'' @ se_server_name se
    \<and> get_nick_from_matrix (br_mappings b) (mc_user_id (br_matrix_client b)) = Some (iuc_nick (br_irc_conn b))"
proof -
  obtain c where c: "logged_in se conn c" "session_of c b"
    using system_reaches_inv [OF assms(1,2)] assms(3) by (auto simp: task_inv_def)
  then show ?thesis
    by (fastforce simp: logged_in_def login_outcome_def login_seen_def session_of_def)
qed

theorem bridge_runs_for_who_logged_in_witness:
  "\<exists>s b cmds rest. system_reaches demo_setting demo_start s \<and> sy_task s = Bridging b
    \<and> commands_of (env_data demo_conn) = cmds @ rest
    \<and> last_some nick_of cmds = Some (iuc_nick (br_irc_conn b))
    \<and> last_some pass_of cmds = Some (iuc_password (br_irc_conn b))"
proof -
  obtain s b where s: "system_reaches demo_setting demo_start s" "sy_task s = Bridging b"
    using demo_bridging by blast
  from bridge_runs_for_who_logged_in [OF demo_http_ok s(1) [unfolded demo_start_def] s(2)] s
  show ?thesis by blast
qed

section \<open>A session\<close>

text \<open>C24: the names a client sees never change while its session runs: a room keeps the channel it has been
  given, a Matrix user the nick, the client its own nick, prefix and Matrix user, and a closed bridge
  stays closed.\<close>

theorem names_are_stable:
  assumes "http_syntax_ok (se_http se)" "system_reaches se (system_start se conn ms ss) s"
    and "sy_task s = Bridging b" "system_reaches se s t" "sy_task t = Bridging b'"
  shows "same_session b b'"
  using system_reaches_session [OF assms(1,4) system_reaches_inv [OF assms(1,2)] assms(3)] assms(5) by blast

lemma demo_closes:
  "\<exists>s b t b'. system_reaches demo_setting demo_start s \<and> sy_task s = Bridging b
     \<and> system_reaches demo_setting s t \<and> sy_task t = Bridging b'"
  using demo_bridging system_reaches.start by blast

theorem names_are_stable_witness:
  "\<exists>s b t b'. system_reaches demo_setting demo_start s \<and> sy_task s = Bridging b
     \<and> system_reaches demo_setting s t \<and> sy_task t = Bridging b' \<and> same_session b b'"
  using names_are_stable [OF demo_http_ok _ _ _ , of demo_conn demo_script "[]"] demo_closes
  unfolding demo_start_def by blast

text \<open>C11: in every run, each request has one ticket and gets one answer: on both connections the tickets
  that wait at the server, those still queued and those already answered are all different, the joins
  wait for different tickets, and the answers of the next poll go to tickets that have none yet.\<close>

theorem each_request_gets_one_answer:
  assumes "http_syntax_ok (se_http se)" "system_reaches se (system_start se conn ms ss) s"
    and "sy_task s = Bridging b"
  shows "distinct (map fst (br_joins b))
    \<and> (\<exists>stream. sy_main s = Some stream
         \<and> tickets_once (se_http se) stream (mc_http_stream (br_matrix_client b)) (sy_main_script s) (sy_main_cells s))
    \<and> (\<exists>stream. sy_sync s = Some stream
         \<and> tickets_once (se_http se) stream (sync_http b) (sy_sync_script s) (sy_sync_cells s))"
proof -
  have "task_inv se conn s" by (rule system_reaches_inv [OF assms(1,2)])
  with assms(3) have "joins_wf b" "connection_wf (sy_main s) (mc_http_stream (br_matrix_client b)) (sy_main_cells s)"
    "connection_wf (sy_sync s) (sync_http b) (sy_sync_cells s)" by (simp_all add: task_inv_def)
  then show ?thesis
    using connection_tickets_once [OF assms(1)] by (auto simp: joins_wf_def connection_wf_def split: option.splits)
qed

theorem each_request_gets_one_answer_witness:
  "\<exists>s b. system_reaches demo_setting demo_start s \<and> sy_task s = Bridging b
     \<and> (\<exists>stream. sy_sync s = Some stream
         \<and> tickets_once tiny_syntax stream (sync_http b) (sy_sync_script s) (sy_sync_cells s))"
proof -
  obtain s b where s: "system_reaches demo_setting demo_start s" "sy_task s = Bridging b"
    using demo_bridging by blast
  from each_request_gets_one_answer [OF demo_http_ok s(1) [unfolded demo_start_def] s(2)] s
  show ?thesis by (auto simp: demo_setting_def)
qed

section \<open>Creation\<close>

text \<open>C7: nothing a connection waits for is ever lost. In every run, the login, every join and the sync
  request that a client's task waits for is a request that is still queued, one that waits at the home
  server, or one whose outcome is there to be taken, whatever the scheduler and the network do,
  reconnections and failed writes included.\<close>

theorem awaited_requests_are_never_lost:
  assumes "http_syntax_ok (se_http se)" "system_reaches se (system_start se conn ms ss) s"
  shows "awaited s"
  by (rule system_reaches_awaited [OF assms])

theorem awaited_requests_are_never_lost_witness:
  "\<exists>s b. system_reaches demo_setting demo_start s \<and> sy_task s = Bridging b \<and> awaited s"
proof -
  obtain s b where s: "system_reaches demo_setting demo_start s" "sy_task s = Bridging b"
    using demo_bridging by blast
  from awaited_requests_are_never_lost [OF demo_http_ok s(1) [unfolded demo_start_def]] s
  show ?thesis by blast
qed



text \<open>C19: the login at the home server is asked for with the user and the password the client last sent:
  one POST of the password login for that user, as the first request on a connection to the host of the
  home server's address.\<close>

theorem login_asks_with_the_clients_password:
  assumes "http_syntax_ok (se_http se)" "system_reaches se (system_start se conn ms ss) s"
    and "sy_task s = Awaiting_irc st"
    and "create_irc_login se st = Some (Awaiting_matrix c http t, Some stream)"
  shows "\<exists>cmds rest user real_name password target login_url body.
    commands_of (env_data conn) = cmds @ rest
    \<and> last_some user_of cmds = Some (user, real_name) \<and> last_some pass_of cmds = Some password
    \<and> http_target_of (cr_url (se_crates se)) (se_url se) = Inr target
    \<and> rst_reconnect_func stream = target \<and> rst_host stream = ht_host target
    \<and> uo_join (cr_url (se_crates se)) (se_url se) (lit ''/_matrix/client/r0/login'') = Some login_url
    \<and> jo_login_to_vec (cr_json (se_crates se))
        \<lparr>lp_user = user, lp_password = password, lp_login_type = lit ''m.login.password''\<rparr> = Some body
    \<and> hci_requests http = [(json_post_request (cr_url (se_crates se)) (lit ''POST'') login_url body, t)]"
proof -
  let ?s = "s\<lparr>sy_task := Awaiting_matrix c http t, sy_main := Some stream\<rparr>"
  have "task_inv se conn ?s"
    by (rule irc_login_keeps [OF system_reaches_inv [OF assms(1,2)] assms(3,4)])
  then obtain cmds rest where seen: "commands_of (env_data conn) = cmds @ rest"
    "last_some user_of cmds = Some (iuc_user c, iuc_real_name c)" "last_some pass_of cmds = Some (iuc_password c)"
    by (auto simp: task_inv_def logged_in_def login_outcome_def login_seen_def)
  have "login_request (cr_url (se_crates se)) (cr_json (se_crates se)) (se_url se)
      (iuc_user c) (iuc_password c) = Inr (t, http, stream)"
    using assms(4) by (auto simp: create_irc_login_def split: option.splits login_result.splits sum.splits)
  from login_request_wf(3) [OF this] seen show ?thesis by blast
qed

theorem login_asks_with_the_clients_password_witness:
  "\<exists>c http t stream user body. create_irc_login demo_setting (await_login (lit ''localhost'') demo_conn)
       = Some (Awaiting_matrix c http t, Some stream)
     \<and> utf8_bytes user = body \<and> hci_requests http = [(json_post_request text_url (lit ''POST'')
         (lit ''h/_matrix/client/r0/login'') body, t)]"
proof -
  obtain c http t stream where login:
    "create_irc_login demo_setting (await_login (lit ''localhost'') demo_conn) = Some (Awaiting_matrix c http t, Some stream)"
    using demo_login_answered by (auto split: option.splits prod.splits task.splits)
  have start: "system_reaches demo_setting (system_start demo_setting demo_conn [] []) (system_start demo_setting demo_conn [] [])"
    "sy_task (system_start demo_setting demo_conn [] []) = Awaiting_irc (await_login (lit ''localhost'') demo_conn)"
    by (rule system_reaches.start, simp add: system_start_def demo_setting_def)
  have [simp]: "lit ''h'' @ lit ''/_matrix/client/r0/login'' = lit ''h/_matrix/client/r0/login''"
    by (simp add: lit_def)
  from login_asks_with_the_clients_password [OF demo_http_ok start login] login show ?thesis
    by (fastforce simp: demo_setting_def text_url_def no_json_def)
qed

text \<open>C21: when the home server answers 401 or 403, the client is told that the password is invalid and the
  connection fails: the line of ERR_PASSWDMISMATCH is the only one ever queued for it.\<close>

theorem wrong_password_is_told_to_the_client:
  assumes "http_syntax_ok (se_http se)" "system_reaches se (system_start se conn ms ss) s"
    and "sy_task s = Awaiting_matrix c http t" "rp_code resp = 401 \<or> rp_code resp = 403"
  shows "\<exists>d. create_matrix_login se c http (Some (Inr resp))
      = (Failed (IoErr (IoError Other (lit ''Invalid password''))) (Some d), None)
    \<and> queued d = sent conn @ line_bytes
        (numeric_line (se_server_name se) ErrPasswdmismatch (iuc_nick c) (lit '':Invalid password''))"
proof -
  let ?d = "iuc_conn (write_invalid_password c)"
  have "logged_in se conn c"
    using system_reaches_inv [OF assms(1,2)] assms(3) by (simp add: task_inv_def)
  then have c: "cursor_ok (iuc_conn c)" "queued (iuc_conn c) = sent conn"
    "isc_server_name (iuc_conn c) = se_server_name se"
    by (auto simp: logged_in_def login_outcome_def login_seen_def isc_inv_def)
  have "emits (iuc_conn c) ?d
      [numeric_line (se_server_name se) ErrPasswdmismatch (iuc_nick c) (lit '':Invalid password'')]"
    using emits_write_numeric [OF c(1)] c(3)
    by (simp add: write_invalid_password_def on_conn_def isc_write_invalid_password_def)
  with c(2) have "queued ?d = sent conn @ line_bytes
      (numeric_line (se_server_name se) ErrPasswdmismatch (iuc_nick c) (lit '':Invalid password''))"
    by (simp add: emits_def)
  moreover have "create_matrix_login se c http (Some (Inr resp))
      = (Failed (IoErr (IoError Other (lit ''Invalid password''))) (Some ?d), None)"
    using assms(4) by (auto simp: create_matrix_login_def login_finish_response_def json_post_result_def
        login_map_err_def create_answered_def)
  ultimately show ?thesis by blast
qed

definition refused :: response where
  "refused = \<lparr>rp_code = 403, rp_content_type = None, rp_data = []\<rparr>"

theorem wrong_password_is_told_to_the_client_witness:
  "\<exists>c http d. create_matrix_login demo_setting c http (Some (Inr refused))
      = (Failed (IoErr (IoError Other (lit ''Invalid password''))) (Some d), None)
    \<and> queued d = line_bytes (numeric_line (lit ''localhost'') ErrPasswdmismatch (iuc_nick c) (lit '':Invalid password''))"
proof -
  let ?s = "system_start demo_setting demo_conn [] []"
  obtain c http t stream where login:
    "create_irc_login demo_setting (await_login (lit ''localhost'') demo_conn) = Some (Awaiting_matrix c http t, Some stream)"
    using demo_login_answered by (auto split: option.splits prod.splits task.splits)
  have "system_step demo_setting ?s (?s\<lparr>sy_task := Awaiting_matrix c http t, sy_main := Some stream\<rparr>)"
    by (rule system_step.irc_login [of _ "await_login (lit ''localhost'') demo_conn"])
      (use login in \<open>simp_all add: system_start_def demo_setting_def\<close>)
  from system_reaches.further [OF system_reaches.start this]
  have "\<exists>d. create_matrix_login demo_setting c http (Some (Inr refused))
      = (Failed (IoErr (IoError Other (lit ''Invalid password''))) (Some d), None)
    \<and> queued d = sent demo_conn @ line_bytes
        (numeric_line (se_server_name demo_setting) ErrPasswdmismatch (iuc_nick c) (lit '':Invalid password''))"
    by (rule wrong_password_is_told_to_the_client [OF demo_http_ok]) (simp_all add: refused_def)
  then show ?thesis by (auto simp: demo_setting_def demo_conn_def socket_def)
qed

text \<open>C20: no bridge without the home server's consent: a bridge starts only from a response with status 200
  whose body is a login response, acts for the user and with the token of that response, on the
  connection that asked, and with a fresh sync connection to the same server.\<close>

theorem bridge_needs_the_home_servers_consent:
  assumes "create_matrix_login se c http result = (Bridging b, stream)"
  shows "\<exists>resp login target sync. result = Some (Inr resp) \<and> rp_code resp = 200
    \<and> jo_parse_login (cr_json (se_crates se)) (rp_data resp) = Inr login
    \<and> mc_user_id (br_matrix_client b) = lr_user_id login
    \<and> mc_access_token (br_matrix_client b) = lr_access_token login
    \<and> msc_access_token (mc_sync_client (br_matrix_client b)) = lr_access_token login
    \<and> msc_next_token (mc_sync_client (br_matrix_client b)) = None
    \<and> mc_http_stream (br_matrix_client b) = http
    \<and> http_target_of (cr_url (se_crates se)) (se_url se) = Inr target
    \<and> stream = Some sync \<and> rst_reconnect_func sync = target
    \<and> get_nick_from_matrix (br_mappings b) (lr_user_id login) = Some (iuc_nick c)
    \<and> br_is_first_sync b \<and> \<not> br_closed b"
proof -
  obtain resp login where resp: "result = Some (Inr resp)" "rp_code resp = 200"
    "jo_parse_login (cr_json (se_crates se)) (rp_data resp) = Inr login"
    using assms
    by (auto simp: create_matrix_login_def login_finish_response_def create_answered_def json_post_result_def
        split: option.splits sum.splits if_splits login_error.splits)
  then obtain mc sync where mc: "matrix_client_new (cr_url (se_crates se)) http (se_url se)
      (lr_user_id login) (lr_access_token login) = Inr (mc, sync)"
    and b: "b = bridge_new c mc" "stream = Some sync"
    using assms
    by (auto simp: create_matrix_login_def login_finish_response_def create_answered_def json_post_result_def
        split: sum.splits)
  from mc obtain target where t: "http_target_of (cr_url (se_crates se)) (se_url se) = Inr target"
    "rst_reconnect_func sync = target" "mc_user_id mc = lr_user_id login" "mc_access_token mc = lr_access_token login"
    "msc_access_token (mc_sync_client mc) = lr_access_token login" "msc_next_token (mc_sync_client mc) = None"
    "mc_http_stream mc = http"
    by (cases "http_target_of (cr_url (se_crates se)) (se_url se)")
      (auto simp: matrix_client_new_def matrix_sync_client_new_def http_client_of_def http_client_new_def
        spawn_def split: option.splits)
  have "get_nick_from_matrix (br_mappings b) (mc_user_id mc) = Some (iuc_nick c)"
    "br_is_first_sync b" "\<not> br_closed b"
    by (simp_all add: b bridge_new_def insert_nick_def get_nick_from_matrix_def iuc_create_user_def)
  with resp t b show ?thesis by (auto simp: bridge_new_fields)
qed

theorem bridge_needs_the_home_servers_consent_witness:
  "\<exists>c b http stream login. create_matrix_login demo_setting c http (Some ok_response) = (Bridging b, Some stream)
    \<and> login = demo_login \<and> mc_user_id (br_matrix_client b) = lr_user_id login"
proof -
  obtain task sync where create:
    "create_matrix_login demo_setting (session split_ping) http_client_inner_new (Some ok_response) = (task, sync)"
    by fastforce
  then obtain b stream where b: "task = Bridging b" "sync = Some stream"
    by (auto simp: create_matrix_login_def login_finish_response_def json_post_result_def ok_response_def
        demo_setting_def matrix_client_new_def matrix_sync_client_new_def http_target_of_def text_url_def
        create_answered_def split: prod.splits)
  from bridge_needs_the_home_servers_consent [OF create [unfolded b]] create b show ?thesis
    by (fastforce simp: ok_response_def demo_setting_def)
qed

end
