(* ===== verification/Daemon_Properties.thy ===== *)
theory Daemon_Properties
  imports Startup Logging System_Properties
begin

text \<open>
  The properties of the daemon: what a start comes to, that with a certificate no client is served on a
  plain socket, and what it logs of a client.
\<close>

section \<open>The start\<close>

text \<open>C30: a start whose command line the argument parser accepts either listens, on the address given or
  the default one, for the home server given, with TLS exactly if a certificate is given, or it panics;
  it panics only over the certificate, the reactor or the socket, never over an address or a missing
  argument. Every other command line is answered with the usage; that includes one which gives only one
  of the certificate and its password, for which the README promises plain TCP.\<close>

theorem start_listens_or_fails_early:
  assumes "clap_checks (pf_get_matches P)" "pf_parse_addr P default_bind = Inr a0"
  shows "case pf_get_matches P (app_args P) argv of
      None \<Rightarrow> main_start P K H argv = Usage
    | Some m \<Rightarrow>
        \<exists>addr hs url. pf_parse_addr P (unwrap_or (lit ''127.0.0.1:5999'') (m (lit ''BIND''))) = Inr addr
          \<and> m (lit ''MATRIX_HS'') = Some hs \<and> pf_parse_url P hs = Inr url
          \<and> (m (lit ''PKCS12'') \<noteq> None \<longleftrightarrow> m (lit ''PASSWORD'') \<noteq> None)
          \<and> (if certificate_ok P m \<and> \<not> isl (pf_new_core P) \<and> \<not> isl (pf_bind P addr)
             then main_start P K H argv = Listening addr \<lparr>cf_crates = K, cf_http = H, cf_matrix_url = url,
               cf_tls_acceptor = (m (lit ''PKCS12'') \<noteq> None)\<rparr>
             else \<exists>msg. main_start P K H argv = Panicked (Panic msg))"
proof (cases "pf_get_matches P (app_args P) argv")
  case None
  then show ?thesis by (simp add: main_start_def)
next
  case (Some m)
  from main_start_spec [OF assms(1) Some assms(2)] show ?thesis
    unfolding Some option.case default_bind_def by metis
qed

text \<open>A parser of long options that keeps the contract, for the examples.\<close>

fun option_value :: "rstr \<Rightarrow> rstr list \<Rightarrow> rstr option" where
  "option_value flag (a # v # argv) = (if a = flag then Some v else option_value flag argv)"
| "option_value flag _ = None"

definition demo_clap :: "arg_decl list \<Rightarrow> rstr list \<Rightarrow> arg_matches option" where
  "demo_clap decls argv =
     (let m = (\<lambda>name. case find (\<lambda>d. ad_name d = name) decls of
           None \<Rightarrow> None
         | Some d \<Rightarrow> option_value (lit ''--'' @ ad_long d) argv) in
      if list_all (arg_checked m) decls then Some m else None)"

lemma demo_clap_checks: "clap_checks demo_clap"
  by (simp add: clap_checks_def demo_clap_def Let_def)

definition demo_platform :: "(rstr, rstr, rstr) platform" where
  "demo_platform = \<lparr>pf_get_matches = demo_clap, pf_parse_addr = Inr, pf_parse_url = Inr,
     pf_read_file = (\<lambda>f. if f = lit ''cert'' then Inr [1] else Inl (lit ''no file'')),
     pf_from_pkcs12 = (\<lambda>buf pw. if pw = lit ''secret'' then Inr pw else Inl (lit ''mac'')),
     pf_build_acceptor = (\<lambda>_. Inr ()), pf_new_core = Inr (), pf_bind = (\<lambda>_. Inr ())\<rparr>"

definition tls_args :: "rstr \<Rightarrow> rstr list" where
  "tls_args password = [lit ''--pkcs12'', lit ''cert'', lit ''--password'', password, lit ''--url'', lit ''h'']"

lemma demo_matches:
  "\<exists>m. pf_get_matches demo_platform (app_args demo_platform) (tls_args pw) = Some m
     \<and> m (lit ''BIND'') = None \<and> m (lit ''PKCS12'') = Some (lit ''cert'') \<and> m (lit ''PASSWORD'') = Some pw
     \<and> m (lit ''MATRIX_HS'') = Some (lit ''h'')"
  by (simp add: demo_platform_def demo_clap_def app_args_def tls_args_def arg_checked_def Let_def lit_def
      validate_matrix_hs_def)

theorem start_listens_or_fails_early_witness:
  "(\<exists>cf. main_start demo_platform (se_crates demo_setting) tiny_syntax (tls_args (lit ''secret'')) = Listening default_bind cf \<and> cf_tls_acceptor cf)
   \<and> (\<exists>msg. main_start demo_platform (se_crates demo_setting) tiny_syntax (tls_args (lit ''wrong'')) = Panicked (Panic msg))
   \<and> main_start demo_platform (se_crates demo_setting) tiny_syntax [lit ''--pkcs12'', lit ''cert'', lit ''--url'', lit ''h''] = Usage"
proof -
  let ?K = "se_crates demo_setting" and ?alone = "[lit ''--pkcs12'', lit ''cert'', lit ''--url'', lit ''h'']"
  have "clap_checks (pf_get_matches demo_platform)" "pf_parse_addr demo_platform default_bind = Inr default_bind"
    by (simp_all add: demo_platform_def demo_clap_checks)
  note start = start_listens_or_fails_early [OF this, where K = ?K and H = tiny_syntax]
  obtain m where m: "pf_get_matches demo_platform (app_args demo_platform) (tls_args (lit ''secret'')) = Some m"
    "m (lit ''BIND'') = None" "m (lit ''PKCS12'') = Some (lit ''cert'')" "m (lit ''PASSWORD'') = Some (lit ''secret'')"
    using demo_matches by blast
  then have "certificate_ok demo_platform m"
    by (simp add: certificate_ok_def load_pkcs12_from_file_def demo_platform_def)
  with start [of "tls_args (lit ''secret'')"] m
  have "\<exists>cf. main_start demo_platform ?K tiny_syntax (tls_args (lit ''secret'')) = Listening default_bind cf \<and> cf_tls_acceptor cf"
    by (auto simp: demo_platform_def unwrap_or_def default_bind_def)
  moreover
  obtain w where w: "pf_get_matches demo_platform (app_args demo_platform) (tls_args (lit ''wrong'')) = Some w"
    "w (lit ''PKCS12'') = Some (lit ''cert'')" "w (lit ''PASSWORD'') = Some (lit ''wrong'')"
    using demo_matches by blast
  then have "\<not> certificate_ok demo_platform w"
    by (simp add: certificate_ok_def load_pkcs12_from_file_def demo_platform_def)
  with start [of "tls_args (lit ''wrong'')"] w
  have "\<exists>msg. main_start demo_platform ?K tiny_syntax (tls_args (lit ''wrong'')) = Panicked (Panic msg)" by auto
  moreover have "pf_get_matches demo_platform (app_args demo_platform) ?alone = None"
    by (simp add: demo_platform_def demo_clap_def app_args_def arg_checked_def Let_def lit_def)
  ultimately show ?thesis using start [of ?alone] by simp
qed

section \<open>The clients\<close>

definition demo_config :: "(rstr, jv) config" where
  "demo_config = \<lparr>cf_crates = se_crates demo_setting, cf_http = tiny_syntax, cf_matrix_url = lit ''h'',
     cf_tls_acceptor = False\<rparr>"

definition demo_network :: network where
  "demo_network = \<lparr>nw_socket = demo_conn, nw_main = demo_script, nw_sync = []\<rparr>"

text \<open>C27: a daemon started with a certificate serves no client on a plain socket: what the bridge of a client
  reads and writes is the socket that client's own TLS handshake gave, whatever the order of events.\<close>

theorem certificate_protects_every_client:
  assumes "main_start P K H argv = Listening addr cf"
    and "pf_get_matches P (app_args P) argv = Some m" "m (lit ''PKCS12'') \<noteq> None"
    and "daemon_reaches cf arrivals ds" "i < length ds" "ds ! i = Connection s"
  shows "\<exists>conn. handshake_result (fst (arrivals ! i)) = Some (Inr conn)
    \<and> system_reaches (connection_setting cf) (system_start (connection_setting cf) conn
        (nw_main (snd (arrivals ! i))) (nw_sync (snd (arrivals ! i)))) s"
proof -
  have "own_run cf (arrivals ! i) (Connection s)"
    using daemon_own_runs [OF assms(4)] assms(5,6) by (auto dest: list_all2_nthD2)
  moreover have "cf_tls_acceptor cf" using listening_tls [OF assms(1,2)] assms(3) by simp
  ultimately show ?thesis by (auto simp: own_run_def socket_of_def)
qed

theorem certificate_protects_every_client_witness:
  "\<exists>cf s. main_start demo_platform (se_crates demo_setting) tiny_syntax (tls_args (lit ''secret'')) = Listening default_bind cf
     \<and> daemon_reaches cf [([NotReady, Ready (Inr demo_conn)], demo_network)] [Connection s]
     \<and> system_reaches (connection_setting cf) (system_start (connection_setting cf) demo_conn demo_script []) s"
proof -
  let ?hs = "[NotReady, Ready (Inr demo_conn)]" and ?cf = "demo_config\<lparr>cf_tls_acceptor := True\<rparr>"
  obtain m where m: "pf_get_matches demo_platform (app_args demo_platform) (tls_args (lit ''secret'')) = Some m"
    "m (lit ''BIND'') = None" "m (lit ''PKCS12'') = Some (lit ''cert'')" "m (lit ''PASSWORD'') = Some (lit ''secret'')"
    "m (lit ''MATRIX_HS'') = Some (lit ''h'')"
    using demo_matches by blast
  then have start: "main_start demo_platform (se_crates demo_setting) tiny_syntax (tls_args (lit ''secret''))
      = Listening default_bind ?cf"
    unfolding main_start_def m(1) option.case tls_setup_def start_simps unwrap_or_def m(2-5)
    by (simp add: demo_platform_def load_pkcs12_from_file_def demo_config_def)
  let ?s = "system_start (connection_setting ?cf) demo_conn demo_script []"
  have "daemon_reaches ?cf [(?hs, demo_network)] [Handshaking ?hs demo_network]"
    using daemon_reaches.accept [OF daemon_reaches.start, of ?cf ?hs demo_network] by (simp add: accepted_def)
  moreover have "daemon_step ?cf [Handshaking ?hs demo_network] [Handshaking (tl ?hs) demo_network]"
    using daemon_step.handshake [of 0 "[Handshaking ?hs demo_network]" ?hs demo_network ?cf] by simp
  moreover have "daemon_step ?cf [Handshaking (tl ?hs) demo_network] [Connection ?s]"
    using daemon_step.handshake [of 0 "[Handshaking (tl ?hs) demo_network]" "tl ?hs" demo_network ?cf]
    by (simp add: create_connection_def demo_network_def)
  ultimately have d: "daemon_reaches ?cf [(?hs, demo_network)] [Connection ?s]"
    by (blast intro: daemon_reaches.further)
  from certificate_protects_every_client [OF start m(1) _ d, of 0 ?s] m(3) start d show ?thesis
    by (auto simp: demo_network_def)
qed

section \<open>The log\<close>

text \<open>C29: of the lines \<open>main.rs\<close> itself logs for a client (the lines other parts of its task log, of an
  invalid IRC line or an unknown channel say, are not among them), each carries the address of that
  client; there is one warning if the handshake or the connection has failed, with the text of the
  error, and none otherwise; and the line \<open>Finished\<close> of a client that has ended is written with a
  certificate only.\<close>

theorem every_end_is_logged_once:
  assumes "logged_reaches display cf (spawned cf addr hs nw) l"
  shows "list_all (\<lambda>line. ll_logger line = Peer_logger (fst addr) (snd addr)) (lt_lines l)
    \<and> map (\<lambda>line. (ll_message line, map snd (ll_pairs line))) (filter (\<lambda>line. ll_level line = Level_Warning) (lt_lines l))
      = (case lt_task l of
           Handshake_failed e \<Rightarrow> [(lit ''TLS handshake failed'', [display e])]
         | Handshaking hs nw \<Rightarrow> []
         | Connection s \<Rightarrow>
             (case sy_task s of Failed (IoErr e) c \<Rightarrow> [(lit ''Unhandled IO error'', [display e])] | _ \<Rightarrow> []))
    \<and> (list_ex (\<lambda>line. ll_message line = lit ''Finished'') (lt_lines l) \<longleftrightarrow>
        cf_tls_acceptor cf \<and> (case lt_task l of
           Handshake_failed e \<Rightarrow> True
         | Handshaking hs nw \<Rightarrow> False
         | Connection s \<Rightarrow> (case sy_task s of Finished \<Rightarrow> True | Failed (IoErr e) c \<Rightarrow> True | _ \<Rightarrow> False)))"
proof (cases "lt_context l")
  case None
  with logged_reaches_inv [OF assms] have "lt_lines l = []" "going_on (lt_task l)"
    by (auto simp: logged_inv_def log_of_def)
  then show ?thesis by (auto simp: going_on_def split: client_task.splits task.splits)
next
  case (Some ctx)
  with logged_reaches_inv [OF assms]
  have "lt_lines l = accepted_line addr # end_lines display (cf_tls_acceptor cf) (Some (context_of_peer addr)) (lt_task l)"
    by (auto simp: logged_inv_def log_of_def)
  then show ?thesis
    by (auto simp: accepted_line_def end_lines_def log_error_def task_warn_def task_info_def task_log_pick
        context_of_peer_def Let_def split: client_task.split task.split exn.split)
qed

theorem every_end_is_logged_once_witness:
  "\<exists>l. logged_reaches err_msg (demo_config\<lparr>cf_tls_acceptor := True\<rparr>)
      (spawned (demo_config\<lparr>cf_tls_acceptor := True\<rparr>) (lit ''10.0.0.1'', 4000) [Ready (Inl (lit ''no cipher''))] demo_network) l
    \<and> lt_task l = Handshake_failed (IoError Other (lit ''no cipher''))
    \<and> map (\<lambda>line. (ll_message line, map snd (ll_pairs line))) (filter (\<lambda>line. ll_level line = Level_Warning) (lt_lines l))
      = [(lit ''TLS handshake failed'', [lit ''no cipher''])]"
proof -
  let ?cf = "demo_config\<lparr>cf_tls_acceptor := True\<rparr>" and ?hs = "[Ready (Inl (lit ''no cipher''))]"
  let ?l0 = "spawned ?cf (lit ''10.0.0.1'', 4000) ?hs demo_network"
  let ?l1 = "setup_future ?l0"
  let ?l2 = "log_step err_msg ?cf (handshake_poll ?cf ?hs demo_network) ?l1"
  have "logged_step err_msg ?cf ?l0 ?l1" by (rule logged_step.setup_poll) (simp add: spawned_def)
  moreover have "logged_step err_msg ?cf ?l1 ?l2"
    by (rule logged_step.handshake) (simp_all add: spawned_def setup_future_def accepted_def Let_def)
  ultimately have run: "logged_reaches err_msg ?cf ?l0 ?l2"
    by (blast intro: logged_reaches.start logged_reaches.further)
  moreover have "lt_task ?l2 = Handshake_failed (IoError Other (lit ''no cipher''))" by (simp add: log_step_def)
  ultimately show ?thesis using every_end_is_logged_once [OF run] by (intro exI [of _ ?l2]) simp
qed

end
