(* ===== verification/Matrix_Wire.thy ===== *)
theory Matrix_Wire
  imports Matrix_Client "HOL-Library.Multiset"
begin

text \<open>
  The JSON form of the structs of \<open>src/matrix/protocol.rs\<close>: for every field its name on the wire, and
  whether it may be missing. The structs derive \<open>Deserialize\<close> and \<open>Serialize\<close>, and the readers and
  writers here give the declarations the meaning \<open>serde\<close> documents for them: a struct is read from an
  object, in which the order of the fields does not matter, unknown fields are skipped and a known field
  may not come twice, or from an array of exactly its fields; a field must be there unless its type is an
  \<open>Option\<close>, which also takes \<open>null\<close>; a \<open>BTreeMap\<close> keeps the last of two equal keys. Cutting text into a
  document and printing one belong to \<open>serde_json\<close> and are a parameter (\<open>serde\<close>).
\<close>

section \<open>Documents\<close>

text \<open>
  \<open>JFloat\<close> is a number that is neither an \<open>i64\<close> nor a \<open>u64\<close>, as it is written. The entries of an object
  are in the order of the text, double keys included. \<open>sd_parse\<close> is the document a read of the named
  struct meets in a text (a value that the struct skips need not be well formed in every detail), and
  \<open>sd_error\<close> the message of its error.
\<close>

datatype json =
    JNull
  | JBool bool
  | JInt int
  | JFloat rstr
  | JString rstr
  | JArray "json list"
  | JObject "(rstr \<times> json) list"

record serde =
  sd_parse :: "string \<Rightarrow> u8 list \<Rightarrow> json option"
  sd_print :: "json \<Rightarrow> u8 list"
  sd_error :: "string \<Rightarrow> u8 list \<Rightarrow> rstr"

text \<open>\<open>serde_json::Value\<close>: its objects are \<open>BTreeMap\<close>s.\<close>

primrec to_value :: "json \<Rightarrow> json" where
  "to_value JNull = JNull"
| "to_value (JBool b) = JBool b"
| "to_value (JInt n) = JInt n"
| "to_value (JFloat s) = JFloat s"
| "to_value (JString s) = JString s"
| "to_value (JArray vs) = JArray (map to_value vs)"
| "to_value (JObject es) = JObject (bt_collect (map (map_prod id to_value) es))"

definition json_value :: "json value_ops" where
  "json_value =
     \<lparr>vo_get = (\<lambda>v k. case v of JObject m \<Rightarrow> bt_get m k | _ \<Rightarrow> None),
      vo_as_str = (\<lambda>v. case v of JString s \<Rightarrow> Some s | _ \<Rightarrow> None),
      vo_as_object = (\<lambda>v. case v of JObject m \<Rightarrow> Some m | _ \<Rightarrow> None),
      vo_as_u64 = (\<lambda>v. case v of JInt n \<Rightarrow> if 0 \<le> n \<and> n < 2 ^ 64 then Some (of_int n) else None | _ \<Rightarrow> None)\<rparr>"

section \<open>Reading\<close>

definition read_string :: "json \<Rightarrow> rstr option" where
  "read_string d = (case d of JString s \<Rightarrow> Some s | _ \<Rightarrow> None)"

definition read_bool :: "json \<Rightarrow> bool option" where
  "read_bool d = (case d of JBool b \<Rightarrow> Some b | _ \<Rightarrow> None)"

fun read_all :: "('a \<Rightarrow> 'b option) \<Rightarrow> 'a list \<Rightarrow> 'b list option" where
  "read_all r [] = Some []"
| "read_all r (d # ds) =
     (case r d of None \<Rightarrow> None | Some x \<Rightarrow> map_option (Cons x) (read_all r ds))"

definition read_vec :: "(json \<Rightarrow> 'a option) \<Rightarrow> json \<Rightarrow> 'a list option" where
  "read_vec r d = (case d of JArray ds \<Rightarrow> read_all r ds | _ \<Rightarrow> None)"

definition read_map :: "(json \<Rightarrow> 'a option) \<Rightarrow> json \<Rightarrow> (rstr, 'a) btree option" where
  "read_map r d =
     (case d of
        JObject es \<Rightarrow> map_option bt_collect (read_all (\<lambda>(k, v). map_option (Pair k) (r v)) es)
      | _ \<Rightarrow> None)"

text \<open>The fields of a struct, in the order of its declaration: \<open>None\<close> for one that is missing.\<close>

definition struct_fields :: "rstr list \<Rightarrow> json \<Rightarrow> json option list option" where
  "struct_fields names d =
     (case d of
        JObject es \<Rightarrow>
          if distinct (filter (\<lambda>k. k \<in> set names) (map fst es)) then Some (map (map_of es) names) else None
      | JArray ds \<Rightarrow> if length ds = length names then Some (map Some ds) else None
      | _ \<Rightarrow> None)"

definition required :: "(json \<Rightarrow> 'a option) \<Rightarrow> json option \<Rightarrow> 'a option" where
  "required r field = (case field of None \<Rightarrow> None | Some d \<Rightarrow> r d)"

definition optional :: "(json \<Rightarrow> 'a option) \<Rightarrow> json option \<Rightarrow> 'a option option" where
  "optional r field =
     (case field of
        None \<Rightarrow> Some None
      | Some d \<Rightarrow> if d = JNull then Some None else map_option Some (r d))"

definition read_struct :: "rstr list \<Rightarrow> (json option list \<Rightarrow> 'a option) \<Rightarrow> json \<Rightarrow> 'a option" where
  "read_struct names build d = Option.bind (struct_fields names d) build"

definition unsigned_fields :: "rstr list" where
  "unsigned_fields = [lit ''transaction_id'']"

definition read_unsigned :: "json \<Rightarrow> event_unsigned option" where
  "read_unsigned d =
     read_struct unsigned_fields (\<lambda>fields. case fields of
        [transaction_id] \<Rightarrow>
          (case optional read_string transaction_id of
             Some t \<Rightarrow> Some \<lparr>eu_transaction_id = t\<rparr>
           | None \<Rightarrow> None)
      | _ \<Rightarrow> None) d"

definition event_fields :: "rstr list" where
  "event_fields =
     [lit ''sender'', lit ''event_id'', lit ''type'', lit ''state_key'', lit ''content'', lit ''unsigned'']"

definition read_event :: "json \<Rightarrow> json event option" where
  "read_event d =
     read_struct event_fields (\<lambda>fields. case fields of
        [sender, event_id, etype, state_key, content, unsigned_data] \<Rightarrow>
          (case (required read_string sender, required read_string event_id, required read_string etype,
              optional read_string state_key, map_option to_value content, required read_unsigned unsigned_data) of
             (Some s, Some i, Some t, Some k, Some c, Some u) \<Rightarrow>
               Some \<lparr>ev_sender = s, ev_event_id = i, ev_etype = t, ev_state_key = k, ev_content = c,
                 ev_unsigned = u\<rparr>
           | _ \<Rightarrow> None)
      | _ \<Rightarrow> None) d"

definition timeline_fields :: "rstr list" where
  "timeline_fields = [lit ''limited'', lit ''prev_batch'', lit ''events'']"

definition read_timeline :: "json \<Rightarrow> json room_timeline_sync_response option" where
  "read_timeline d =
     read_struct timeline_fields (\<lambda>fields. case fields of
        [limited, prev_batch, events] \<Rightarrow>
          (case (required read_bool limited, required read_string prev_batch, required (read_vec read_event) events) of
             (Some l, Some p, Some es) \<Rightarrow> Some \<lparr>tl_limited = l, tl_prev_batch = p, tl_events = es\<rparr>
           | _ \<Rightarrow> None)
      | _ \<Rightarrow> None) d"

definition state_fields :: "rstr list" where
  "state_fields = [lit ''events'']"

definition read_state :: "json \<Rightarrow> json room_state_sync_response option" where
  "read_state d =
     read_struct state_fields (\<lambda>fields. case fields of
        [events] \<Rightarrow> map_option (\<lambda>es. \<lparr>st_events = es\<rparr>) (required (read_vec read_event) events)
      | _ \<Rightarrow> None) d"

definition joined_fields :: "rstr list" where
  "joined_fields = [lit ''timeline'', lit ''state'']"

definition read_joined :: "json \<Rightarrow> json joined_room_sync_response option" where
  "read_joined d =
     read_struct joined_fields (\<lambda>fields. case fields of
        [timeline, state] \<Rightarrow>
          (case (required read_timeline timeline, required read_state state) of
             (Some t, Some s) \<Rightarrow> Some \<lparr>jr_timeline = t, jr_state = s\<rparr>
           | _ \<Rightarrow> None)
      | _ \<Rightarrow> None) d"

definition rooms_fields :: "rstr list" where
  "rooms_fields = [lit ''join'']"

definition read_rooms :: "json \<Rightarrow> json rooms_sync_response option" where
  "read_rooms d =
     read_struct rooms_fields (\<lambda>fields. case fields of
        [join] \<Rightarrow> map_option (\<lambda>js. \<lparr>rs_join = js\<rparr>) (required (read_map read_joined) join)
      | _ \<Rightarrow> None) d"

definition sync_fields :: "rstr list" where
  "sync_fields = [lit ''next_batch'', lit ''rooms'']"

definition read_sync :: "json \<Rightarrow> json sync_response option" where
  "read_sync d =
     read_struct sync_fields (\<lambda>fields. case fields of
        [next_batch, rooms] \<Rightarrow>
          (case (required read_string next_batch, required read_rooms rooms) of
             (Some n, Some r) \<Rightarrow> Some \<lparr>sr_next_batch = n, sr_rooms = r\<rparr>
           | _ \<Rightarrow> None)
      | _ \<Rightarrow> None) d"

definition read_login :: "json \<Rightarrow> login_response option" where
  "read_login d =
     read_struct [lit ''access_token'', lit ''device_id'', lit ''home_server'', lit ''user_id''] (\<lambda>fields. case fields of
        [access_token, device_id, home_server, user_id] \<Rightarrow>
          (case (required read_string access_token, required read_string device_id,
              required read_string home_server, required read_string user_id) of
             (Some a, Some i, Some h, Some u) \<Rightarrow>
               Some \<lparr>lr_access_token = a, lr_device_id = i, lr_home_server = h, lr_user_id = u\<rparr>
           | _ \<Rightarrow> None)
      | _ \<Rightarrow> None) d"

definition read_join_response :: "json \<Rightarrow> room_join_response option" where
  "read_join_response d =
     read_struct [lit ''room_id''] (\<lambda>fields. case fields of
        [room_id] \<Rightarrow> map_option (\<lambda>r. \<lparr>rj_room_id = r\<rparr>) (required read_string room_id)
      | _ \<Rightarrow> None) d"

definition read_send_response :: "json \<Rightarrow> room_send_response option" where
  "read_send_response d =
     read_struct [lit ''event_id''] (\<lambda>fields. case fields of
        [event_id] \<Rightarrow> map_option (\<lambda>i. \<lparr>rsr_event_id = i\<rparr>) (required read_string event_id)
      | _ \<Rightarrow> None) d"

section \<open>Writing\<close>

definition string_object :: "(rstr \<times> rstr) list \<Rightarrow> json" where
  "string_object es = JObject (map (map_prod id JString) es)"

definition write_login :: "login_password_input \<Rightarrow> json" where
  "write_login i =
     string_object [(lit ''user'', lp_user i), (lit ''password'', lp_password i), (lit ''type'', lp_login_type i)]"

definition write_join_input :: json where
  "write_join_input = string_object []"

definition write_send :: "room_send_input \<Rightarrow> json" where
  "write_send i = string_object [(lit ''msgtype'', ri_msgtype i), (lit ''body'', ri_body i)]"

text \<open>
  What is asked of printing: a reader of JSON, such as the home server's, gets back an object of strings
  that was printed, whatever characters the strings hold.
\<close>

definition strings_ok :: "(rstr \<times> rstr) list \<Rightarrow> bool" where
  "strings_ok es \<longleftrightarrow> list_all (\<lambda>(k, v). valid_str k \<and> valid_str v) es"

definition prints_strings :: "serde \<Rightarrow> (u8 list \<Rightarrow> json option) \<Rightarrow> bool" where
  "prints_strings S reader \<longleftrightarrow>
     (\<forall>es. strings_ok es \<longrightarrow> reader (sd_print S (string_object es)) = Some (string_object es))"

text \<open>The operations the client takes as a parameter, with the structs of the program.\<close>

definition from_slice :: "serde \<Rightarrow> string \<Rightarrow> (json \<Rightarrow> 'a option) \<Rightarrow> u8 list \<Rightarrow> rstr + 'a" where
  "from_slice S name r bs =
     (case Option.bind (sd_parse S name bs) r of None \<Rightarrow> Inl (sd_error S name bs) | Some x \<Rightarrow> Inr x)"

definition wire_json :: "serde \<Rightarrow> json json_ops" where
  "wire_json S =
     \<lparr>jo_parse_sync = from_slice S ''SyncResponse'' read_sync,
      jo_parse_login = from_slice S ''LoginResponse'' read_login,
      jo_parse_join = from_slice S ''RoomJoinResponse'' read_join_response,
      jo_parse_send = from_slice S ''RoomSendResponse'' read_send_response,
      jo_login_to_vec = (\<lambda>i. Some (sd_print S (write_login i))),
      jo_send_to_vec = (\<lambda>i. Some (sd_print S (write_send i))),
      jo_join_to_vec = Some (sd_print S write_join_input)\<rparr>"

section \<open>What a reader looks at\<close>

text \<open>
  The part of a document the structs name: \<open>prune\<close> drops every other field of an object that is read as
  a struct, at every depth.
\<close>

datatype schema = SAny | SStruct "(rstr \<times> schema) list" | SVec schema | SMap schema

definition prune_fields :: "(rstr \<times> (json \<Rightarrow> json)) list \<Rightarrow> json \<Rightarrow> json" where
  "prune_fields ps d =
     (case d of
        JObject es \<Rightarrow> JObject (List.map_filter (\<lambda>(k, v). map_option (\<lambda>p. (k, p v)) (map_of ps k)) es)
      | JArray ds \<Rightarrow> if length ds = length ps then JArray (map2 (\<lambda>(_, p) v. p v) ps ds) else JArray ds
      | _ \<Rightarrow> d)"

definition prune_elements :: "(json \<Rightarrow> json) \<Rightarrow> json \<Rightarrow> json" where
  "prune_elements p d = (case d of JArray ds \<Rightarrow> JArray (map p ds) | _ \<Rightarrow> d)"

definition prune_entries :: "(json \<Rightarrow> json) \<Rightarrow> json \<Rightarrow> json" where
  "prune_entries p d = (case d of JObject es \<Rightarrow> JObject (map (map_prod id p) es) | _ \<Rightarrow> d)"

primrec prune :: "schema \<Rightarrow> json \<Rightarrow> json" where
  "prune SAny = id"
| "prune (SStruct fs) = prune_fields (map (map_prod id prune) fs)"
| "prune (SVec s) = prune_elements (prune s)"
| "prune (SMap s) = prune_entries (prune s)"

definition event_schema :: schema where
  "event_schema =
     SStruct [(lit ''sender'', SAny), (lit ''event_id'', SAny), (lit ''type'', SAny), (lit ''state_key'', SAny),
       (lit ''content'', SAny), (lit ''unsigned'', SStruct [(lit ''transaction_id'', SAny)])]"

definition joined_schema :: schema where
  "joined_schema =
     SStruct
       [(lit ''timeline'',
          SStruct [(lit ''limited'', SAny), (lit ''prev_batch'', SAny), (lit ''events'', SVec event_schema)]),
        (lit ''state'', SStruct [(lit ''events'', SVec event_schema)])]"

definition sync_schema :: schema where
  "sync_schema =
     SStruct [(lit ''next_batch'', SAny), (lit ''rooms'', SStruct [(lit ''join'', SMap joined_schema)])]"

lemma map_of_map_filter:
  "map_of (List.map_filter (\<lambda>(k, v). map_option (\<lambda>p. (k, p v)) (map_of ps k)) es) k =
     (case map_of ps k of None \<Rightarrow> None | Some p \<Rightarrow> map_option p (map_of es k))"
  by (induction es) (auto simp: List.map_filter_simps split: option.splits)

lemma fst_map_filter:
  "map fst (List.map_filter (\<lambda>(k, v). map_option (\<lambda>p. (k, p v)) (map_of ps k)) es) =
     filter (\<lambda>k. k \<in> set (map fst ps)) (map fst es)"
proof -
  have "k \<in> set (map fst ps) \<longleftrightarrow> map_of ps k \<noteq> None" for k by (simp add: map_of_eq_None_iff)
  then show ?thesis by (induction es) (auto simp: List.map_filter_simps simp del: set_map split: option.splits)
qed

lemma length_struct_fields: "struct_fields names d = Some fs \<Longrightarrow> length fs = length names"
  by (auto simp: struct_fields_def split: json.splits if_splits)

lemma map_of_fields_prune:
  assumes "distinct (map fst ps)"
  shows "map (map_of (List.map_filter (\<lambda>(k, v). map_option (\<lambda>p. (k, p v)) (map_of ps k)) es)) (map fst ps) =
     map2 (\<lambda>(_, p). map_option p) ps (map (map_of es) (map fst ps))"
proof (rule nth_equalityI)
  fix i
  assume "i < length (map (map_of (List.map_filter (\<lambda>(k, v). map_option (\<lambda>p. (k, p v)) (map_of ps k)) es)) (map fst ps))"
  moreover from this have "map_of ps (fst (ps ! i)) = Some (snd (ps ! i))"
    using map_of_is_SomeI [OF assms, of "fst (ps ! i)" "snd (ps ! i)"] by simp
  ultimately show "map (map_of (List.map_filter (\<lambda>(k, v). map_option (\<lambda>p. (k, p v)) (map_of ps k)) es)) (map fst ps) ! i =
      map2 (\<lambda>(_, p). map_option p) ps (map (map_of es) (map fst ps)) ! i"
    by (simp add: split_beta map_of_map_filter)
qed simp

lemma struct_fields_prune:
  assumes "distinct (map fst ps)"
  shows "struct_fields (map fst ps) (prune_fields ps d) =
     map_option (map2 (\<lambda>(_, p). map_option p) ps) (struct_fields (map fst ps) d)"
proof (cases d)
  case (JObject es)
  then show ?thesis
    using map_of_fields_prune [OF assms, of es]
    by (simp add: struct_fields_def prune_fields_def fst_map_filter del: map_map set_map)
next
  case (JArray ds)
  then show ?thesis
    by (auto simp: struct_fields_def prune_fields_def intro!: nth_equalityI simp: split_beta)
qed (simp_all add: struct_fields_def prune_fields_def)

lemma read_struct_prune:
  assumes "names = map fst ps" "distinct names"
    "\<And>fs. length fs = length ps \<Longrightarrow> build (map2 (\<lambda>(_, p). map_option p) ps fs) = build fs"
  shows "read_struct names build (prune_fields ps d) = read_struct names build d"
  using assms
  by (auto simp: read_struct_def struct_fields_prune dest!: length_struct_fields split: bind_split)

lemma required_prune: "(\<And>d. r (p d) = r d) \<Longrightarrow> required r (map_option p x) = required r x"
  by (cases x) (simp_all add: required_def)

lemma read_all_map: "(\<And>x. r (p x) = r x) \<Longrightarrow> read_all r (map p xs) = read_all r xs"
  by (induction xs) (auto split: option.splits)

lemma read_vec_prune: "(\<And>d. r (p d) = r d) \<Longrightarrow> read_vec r (prune_elements p d) = read_vec r d"
  by (cases d) (simp_all add: read_vec_def prune_elements_def read_all_map)

lemma read_map_prune: "(\<And>d. r (p d) = r d) \<Longrightarrow> read_map r (prune_entries p d) = read_map r d"
proof (cases d)
  case (JObject es)
  assume "\<And>d. r (p d) = r d"
  then show ?thesis
    unfolding JObject by (simp add: read_map_def prune_entries_def read_all_map split_beta)
qed (simp_all add: read_map_def prune_entries_def)

lemmas field_simps_wire = length_Suc_conv option.map_id required_prune read_vec_prune read_map_prune

lemma read_unsigned_prune [simp]:
  "read_unsigned (prune (SStruct [(lit ''transaction_id'', SAny)]) d) = read_unsigned d"
  unfolding read_unsigned_def prune.simps
  by (rule read_struct_prune) (auto simp: unsigned_fields_def field_simps_wire)

lemma read_event_prune [simp]: "read_event (prune event_schema d) = read_event d"
  unfolding read_event_def event_schema_def prune.simps(2)
  by (rule read_struct_prune) (auto simp: event_fields_def field_simps_wire simp del: prune.simps(2) split: option.split)

lemma read_timeline_prune [simp]:
  "read_timeline (prune (SStruct [(lit ''limited'', SAny), (lit ''prev_batch'', SAny),
     (lit ''events'', SVec event_schema)]) d) = read_timeline d"
  unfolding read_timeline_def prune.simps(2)
  by (rule read_struct_prune) (auto simp: timeline_fields_def field_simps_wire split: option.split)

lemma read_state_prune [simp]:
  "read_state (prune (SStruct [(lit ''events'', SVec event_schema)]) d) = read_state d"
  unfolding read_state_def prune.simps(2)
  by (rule read_struct_prune) (auto simp: state_fields_def field_simps_wire)

lemma read_joined_prune [simp]: "read_joined (prune joined_schema d) = read_joined d"
  unfolding read_joined_def joined_schema_def prune.simps(2)
  by (rule read_struct_prune) (auto simp: joined_fields_def field_simps_wire simp del: prune.simps(2) split: option.split)

lemma read_rooms_prune [simp]:
  "read_rooms (prune (SStruct [(lit ''join'', SMap joined_schema)]) d) = read_rooms d"
  unfolding read_rooms_def prune.simps(2)
  by (rule read_struct_prune) (auto simp: rooms_fields_def field_simps_wire)

lemma read_sync_prune: "read_sync (prune sync_schema d) = read_sync d"
  unfolding read_sync_def sync_schema_def prune.simps(2)
  by (rule read_struct_prune) (auto simp: sync_fields_def field_simps_wire simp del: prune.simps(2) split: option.split)

end
