(* ===== verification/Sync_Documents.thy ===== *)
theory Sync_Documents
  imports Matrix_Wire
begin

text \<open>
  The documents of sync responses: the reference writer, which is what a home server sends for a
  response, with the proof that the readers of \<open>Matrix_Wire\<close> read it back, and the events a document
  holds, every one of which has to be readable for the document to be.
\<close>

section \<open>Values are in the form of a \<open>Value\<close>\<close>

lemma bt_insert_last: "\<forall>k' \<in> fst ` set m. k' < k \<Longrightarrow> bt_insert k v m = m @ [(k, v)]"
  by (induction k v m rule: bt_insert.induct) auto

lemma bt_collect_wf: "bt_wf m \<Longrightarrow> bt_collect m = m"
proof (induction m rule: rev_induct)
  case (snoc e m)
  then have "bt_wf m" "\<forall>k' \<in> fst ` set m. k' < fst e"
    by (auto simp: bt_wf_def sorted_wrt_append)
  with snoc.IH show ?case by (cases e) (simp add: bt_collect_def bt_insert_last)
qed (simp add: bt_collect_def)

lemma bt_wf_map_values: "bt_wf (map (map_prod id f) m) = bt_wf m"
  by (simp add: bt_wf_def)

lemma set_bt_collect_subset: "set (bt_collect xs) \<subseteq> set xs"
proof
  fix e
  assume "e \<in> set (bt_collect xs)"
  then have "bt_get (bt_collect xs) (fst e) = Some (snd e)"
    using bt_get_mem [of "bt_collect xs" "fst e" "snd e"] by simp
  then show "e \<in> set xs"
    by (cases e) (auto simp: bt_get_collect dest: map_of_SomeD)
qed

lemma to_value_idem [simp]: "to_value (to_value d) = to_value d"
proof (induction d)
  case (JArray ds)
  then show ?case by simp
next
  case (JObject es)
  let ?m = "bt_collect (map (map_prod id to_value) es)"
  have "map (map_prod id to_value) ?m = ?m"
  proof (rule map_idI)
    fix e
    assume "e \<in> set ?m"
    then have "e \<in> set (map (map_prod id to_value) es)" by (rule subsetD [OF set_bt_collect_subset])
    then obtain k v where "(k, v) \<in> set es" "e = (k, to_value v)" by auto
    with JObject.IH [of "(k, v)" v] show "map_prod id to_value e = e" by simp
  qed
  then show ?case by (simp add: bt_collect_wf)
qed simp_all

section \<open>The reference writer\<close>

definition opt_field :: "rstr \<Rightarrow> rstr option \<Rightarrow> (rstr \<times> json) list" where
  "opt_field name v = (case v of None \<Rightarrow> [] | Some s \<Rightarrow> [(name, JString s)])"

definition write_event :: "json event \<Rightarrow> json" where
  "write_event e =
     JObject
       ([(lit ''sender'', JString (ev_sender e)), (lit ''event_id'', JString (ev_event_id e)),
         (lit ''type'', JString (ev_etype e))]
        @ opt_field (lit ''state_key'') (ev_state_key e)
        @ [(lit ''content'', ev_content e),
           (lit ''unsigned'', JObject (opt_field (lit ''transaction_id'') (eu_transaction_id (ev_unsigned e))))])"

definition write_joined :: "json joined_room_sync_response \<Rightarrow> json" where
  "write_joined j =
     JObject
       [(lit ''timeline'',
          JObject
            [(lit ''limited'', JBool (tl_limited (jr_timeline j))),
             (lit ''prev_batch'', JString (tl_prev_batch (jr_timeline j))),
             (lit ''events'', JArray (map write_event (tl_events (jr_timeline j))))]),
        (lit ''state'', JObject [(lit ''events'', JArray (map write_event (st_events (jr_state j))))])]"

definition write_sync :: "json sync_response \<Rightarrow> json" where
  "write_sync r =
     JObject
       [(lit ''next_batch'', JString (sr_next_batch r)),
        (lit ''rooms'',
          JObject [(lit ''join'', JObject (map (map_prod id write_joined) (rs_join (sr_rooms r))))])]"

text \<open>The responses that can be held: a map of rooms, and contents that are a \<open>Value\<close>.\<close>

definition event_ok :: "json event \<Rightarrow> bool" where
  "event_ok e \<longleftrightarrow> to_value (ev_content e) = ev_content e"

definition joined_ok :: "json joined_room_sync_response \<Rightarrow> bool" where
  "joined_ok j \<longleftrightarrow> list_all event_ok (tl_events (jr_timeline j)) \<and> list_all event_ok (st_events (jr_state j))"

definition sync_ok :: "json sync_response \<Rightarrow> bool" where
  "sync_ok r \<longleftrightarrow>
     bt_wf (rs_join (sr_rooms r)) \<and> list_all (\<lambda>(_, j). joined_ok j) (rs_join (sr_rooms r))"

section \<open>What was written is read\<close>

lemmas read_simps = read_struct_def struct_fields_def required_def optional_def read_string_def read_bool_def
  read_vec_def opt_field_def

lemma read_write_event: "event_ok e \<Longrightarrow> read_event (write_event e) = Some e"
  by (auto simp: read_event_def write_event_def event_ok_def event_fields_def read_unsigned_def
      unsigned_fields_def read_simps split: option.split)

lemma read_all_write: "list_all ok xs \<Longrightarrow> (\<And>x. ok x \<Longrightarrow> r (w x) = Some x) \<Longrightarrow> read_all r (map w xs) = Some xs"
  by (induction xs) auto

lemma read_events_write: "list_all event_ok es \<Longrightarrow> read_all read_event (map write_event es) = Some es"
  by (rule read_all_write [where ok = event_ok]) (auto intro: read_write_event)

lemma read_write_joined: "joined_ok j \<Longrightarrow> read_joined (write_joined j) = Some j"
  by (simp add: read_joined_def write_joined_def joined_ok_def joined_fields_def read_timeline_def
      timeline_fields_def read_state_def state_fields_def read_simps read_events_write)

lemma read_write_sync: "sync_ok r \<Longrightarrow> read_sync (write_sync r) = Some r"
  using read_all_write [of "\<lambda>(_, j). joined_ok j" "rs_join (sr_rooms r)"
      "\<lambda>(k, v). map_option (Pair k) (read_joined v)" "map_prod id write_joined"]
  by (simp add: read_sync_def write_sync_def sync_ok_def sync_fields_def read_rooms_def rooms_fields_def
      read_map_def read_simps bt_collect_wf read_write_joined split_beta)

section \<open>What was read can be held\<close>

lemma read_all_ok: "read_all r ds = Some xs \<Longrightarrow> (\<And>d x. r d = Some x \<Longrightarrow> ok x) \<Longrightarrow> list_all ok xs"
  by (induction ds arbitrary: xs) (auto split: option.splits)

lemma read_vec_ok:
  "required (read_vec r) field = Some xs \<Longrightarrow> (\<And>d x. r d = Some x \<Longrightarrow> ok x) \<Longrightarrow> list_all ok xs"
  by (auto simp: required_def read_vec_def intro: read_all_ok split: option.splits json.splits)

lemma read_event_ok: "read_event d = Some e \<Longrightarrow> event_ok e"
  by (auto simp: read_event_def read_struct_def event_ok_def split: bind_splits list.splits option.splits)

lemma read_timeline_ok: "read_timeline d = Some t \<Longrightarrow> list_all event_ok (tl_events t)"
  by (auto simp: read_timeline_def read_struct_def split: bind_splits list.splits option.splits
      intro: read_vec_ok read_event_ok)

lemma read_state_ok: "read_state d = Some t \<Longrightarrow> list_all event_ok (st_events t)"
  by (auto simp: read_state_def read_struct_def split: bind_splits list.splits option.splits
      intro: read_vec_ok read_event_ok)

lemma read_joined_ok: "read_joined d = Some j \<Longrightarrow> joined_ok j"
  by (auto simp: read_joined_def read_struct_def joined_ok_def required_def split: bind_splits list.splits option.splits dest: read_timeline_ok read_state_ok)

lemma read_rooms_ok:
  "read_rooms d = Some r \<Longrightarrow> bt_wf (rs_join r) \<and> list_all (\<lambda>(_, j). joined_ok j) (rs_join r)"
proof -
  assume "read_rooms d = Some r"
  then obtain es ms where read: "read_all (\<lambda>(k, v). map_option (Pair k) (read_joined v)) es = Some ms"
    and r: "rs_join r = bt_collect ms"
    by (auto simp: read_rooms_def read_struct_def required_def read_map_def split: bind_splits list.splits option.splits json.splits)
  have "list_all (\<lambda>(_, j). joined_ok j) ms"
    by (rule read_all_ok [OF read]) (auto dest: read_joined_ok)
  then show ?thesis
    unfolding r list_all_iff using set_bt_collect_subset [of ms] by auto
qed

lemma read_sync_ok: "read_sync d = Some r \<Longrightarrow> sync_ok r"
  by (auto simp: read_sync_def read_struct_def sync_ok_def required_def split: bind_splits list.splits option.splits dest: read_rooms_ok)

section \<open>The events of a document\<close>

text \<open>\<open>field names k d\<close> is the field \<open>k\<close> of a document that is read as a struct with those fields.\<close>

definition field_docs :: "rstr list \<Rightarrow> rstr \<Rightarrow> json \<Rightarrow> json list" where
  "field_docs names k d =
     (case struct_fields names d of
        None \<Rightarrow> []
      | Some fs \<Rightarrow> (case map_of (zip names fs) k of Some (Some v) \<Rightarrow> [v] | _ \<Rightarrow> []))"

definition element_docs :: "json \<Rightarrow> json list" where
  "element_docs d = (case d of JArray ds \<Rightarrow> ds | _ \<Rightarrow> [])"

definition entry_docs :: "json \<Rightarrow> json list" where
  "entry_docs d = (case d of JObject es \<Rightarrow> map snd es | _ \<Rightarrow> [])"

definition timeline_docs :: "json \<Rightarrow> json list" where
  "timeline_docs j =
     concat (map element_docs (concat (map (field_docs timeline_fields (lit ''events''))
       (field_docs joined_fields (lit ''timeline'') j))))"

definition state_docs :: "json \<Rightarrow> json list" where
  "state_docs j =
     concat (map element_docs (concat (map (field_docs state_fields (lit ''events''))
       (field_docs joined_fields (lit ''state'') j))))"

definition room_docs :: "json \<Rightarrow> json list" where
  "room_docs d =
     concat (map entry_docs (concat (map (field_docs rooms_fields (lit ''join''))
       (field_docs sync_fields (lit ''rooms'') d))))"

definition event_docs :: "json \<Rightarrow> json list" where
  "event_docs d = concat (map (\<lambda>j. timeline_docs j @ state_docs j) (room_docs d))"

lemma read_all_Some: "read_all r ds = Some xs \<Longrightarrow> d \<in> set ds \<Longrightarrow> r d \<noteq> None"
  by (induction ds arbitrary: xs) (auto split: option.splits)

lemma field_docs_read:
  assumes "read_struct names build d = Some x" "v \<in> set (field_docs names k d)"
  obtains fs where "struct_fields names d = Some fs" "build fs = Some x" "length fs = length names"
    "map_of (zip names fs) k = Some (Some v)"
  using assms length_struct_fields
  by (fastforce simp: read_struct_def field_docs_def bind_eq_Some_conv split: option.splits)

lemma list_case_Some1: "(case fs of [a] \<Rightarrow> f a | _ \<Rightarrow> None) = Some x \<Longrightarrow> \<exists>a. fs = [a] \<and> f a = Some x"
  by (auto split: list.splits)

lemma list_case_Some2: "(case fs of [a, b] \<Rightarrow> f a b | _ \<Rightarrow> None) = Some x \<Longrightarrow> \<exists>a b. fs = [a, b] \<and> f a b = Some x"
  by (auto split: list.splits)

lemma list_case_Some3:
  "(case fs of [a, b, c] \<Rightarrow> f a b c | _ \<Rightarrow> None) = Some x \<Longrightarrow> \<exists>a b c. fs = [a, b, c] \<and> f a b c = Some x"
  by (auto split: list.splits)

lemmas field_dests = list_case_Some1 list_case_Some2 list_case_Some3

lemma read_vec_elements: "read_vec r v = Some xs \<Longrightarrow> e \<in> set (element_docs v) \<Longrightarrow> r e \<noteq> None"
  using read_all_Some [of r] by (auto simp: read_vec_def element_docs_def split: json.splits)

lemma read_map_entries: "read_map r v = Some m \<Longrightarrow> e \<in> set (entry_docs v) \<Longrightarrow> r e \<noteq> None"
proof -
  assume read: "read_map r v = Some m" and e: "e \<in> set (entry_docs v)"
  from read obtain es xs where v: "v = JObject es"
    and all: "read_all (\<lambda>(k, v). map_option (Pair k) (r v)) es = Some xs"
    by (auto simp: read_map_def split: json.splits)
  from e v obtain k where "(k, e) \<in> set es" by (auto simp: entry_docs_def)
  with read_all_Some [OF all, of "(k, e)"] show ?thesis by auto
qed

lemma timeline_events_readable:
  assumes "read_joined j = Some x" "e \<in> set (timeline_docs j)"
  shows "read_event e \<noteq> None"
proof -
  from assms(2) obtain t v where t: "t \<in> set (field_docs joined_fields (lit ''timeline'') j)"
    and v: "v \<in> set (field_docs timeline_fields (lit ''events'') t)" and e: "e \<in> set (element_docs v)"
    by (auto simp: timeline_docs_def)
  obtain tl where tl: "read_timeline t = Some tl"
    by (rule field_docs_read [OF assms(1) [unfolded read_joined_def] t])
      (auto simp: joined_fields_def required_def dest!: field_dests split: option.splits)
  obtain es where "read_vec read_event v = Some es"
    by (rule field_docs_read [OF tl [unfolded read_timeline_def] v])
      (auto simp: timeline_fields_def required_def dest!: field_dests split: option.splits)
  from read_vec_elements [OF this e] show ?thesis .
qed

lemma state_events_readable:
  assumes "read_joined j = Some x" "e \<in> set (state_docs j)"
  shows "read_event e \<noteq> None"
proof -
  from assms(2) obtain t v where t: "t \<in> set (field_docs joined_fields (lit ''state'') j)"
    and v: "v \<in> set (field_docs state_fields (lit ''events'') t)" and e: "e \<in> set (element_docs v)"
    by (auto simp: state_docs_def)
  obtain st where st: "read_state t = Some st"
    by (rule field_docs_read [OF assms(1) [unfolded read_joined_def] t])
      (auto simp: joined_fields_def required_def dest!: field_dests split: option.splits)
  obtain es where "read_vec read_event v = Some es"
    by (rule field_docs_read [OF st [unfolded read_state_def] v])
      (auto simp: state_fields_def required_def dest!: field_dests split: option.splits)
  from read_vec_elements [OF this e] show ?thesis .
qed

lemma rooms_readable:
  assumes "read_sync d = Some x" "j \<in> set (room_docs d)"
  shows "read_joined j \<noteq> None"
proof -
  from assms(2) obtain t v where t: "t \<in> set (field_docs sync_fields (lit ''rooms'') d)"
    and v: "v \<in> set (field_docs rooms_fields (lit ''join'') t)" and j: "j \<in> set (entry_docs v)"
    by (auto simp: room_docs_def)
  obtain rs where rs: "read_rooms t = Some rs"
    by (rule field_docs_read [OF assms(1) [unfolded read_sync_def] t])
      (auto simp: sync_fields_def required_def dest!: field_dests split: option.splits)
  obtain js where "read_map read_joined v = Some js"
    by (rule field_docs_read [OF rs [unfolded read_rooms_def] v])
      (auto simp: rooms_fields_def required_def dest!: field_dests split: option.splits)
  from read_map_entries [OF this j] show ?thesis .
qed

lemma events_readable:
  assumes "e \<in> set (event_docs d)" "read_event e = None"
  shows "read_sync d = None"
proof (rule ccontr)
  assume "read_sync d \<noteq> None"
  then obtain x where x: "read_sync d = Some x" by blast
  from assms(1) obtain j where j: "j \<in> set (room_docs d)" and e: "e \<in> set (timeline_docs j) \<union> set (state_docs j)"
    by (auto simp: event_docs_def)
  from rooms_readable [OF x j] obtain y where "read_joined j = Some y" by blast
  from timeline_events_readable [OF this, of e] state_events_readable [OF this, of e] e assms(2)
  show False by auto
qed

text \<open>An event without one of its five required fields is not readable.\<close>

definition required_event_fields :: "rstr list" where
  "required_event_fields = [lit ''sender'', lit ''event_id'', lit ''type'', lit ''content'', lit ''unsigned'']"

lemma missing_field_unreadable:
  assumes "k \<in> set required_event_fields" "k \<notin> fst ` set es"
  shows "read_event (JObject es) = None"
proof -
  from assms(2) have "map_of es k = None" by (simp add: map_of_eq_None_iff)
  with assms(1) show ?thesis
    by (auto simp: required_event_fields_def read_event_def read_struct_def struct_fields_def event_fields_def
        required_def split: option.split bind_split)
qed

end
