(* ===== verification/Json_Text.thy ===== *)
theory Json_Text
  imports Matrix_Wire
begin

text \<open>
  A concrete text form of documents: a reader and a printer by RFC 8259, less fractions, exponents and
  the escapes of surrogate pairs. It stands in for the \<open>serde_json\<close> crate where a concrete one is needed,
  in the unit test of \<open>src/matrix/protocol.rs\<close> and in the instances, and its last lemma shows that the
  law asked of the crate, that an object of strings which was printed is read back, can hold.
\<close>

section \<open>Reading\<close>

definition is_ws :: "rchar \<Rightarrow> bool" where
  "is_ws c \<longleftrightarrow> c = 32 \<or> c = 10 \<or> c = 13 \<or> c = 9"

definition hex_char :: "rchar \<Rightarrow> nat option" where
  "hex_char c =
     (if 48 \<le> c \<and> c \<le> 57 then Some (c - 48)
      else if 97 \<le> c \<and> c \<le> 102 then Some (c - 87)
      else if 65 \<le> c \<and> c \<le> 70 then Some (c - 55) else None)"

definition hex4 :: "rchar \<Rightarrow> rchar \<Rightarrow> rchar \<Rightarrow> rchar \<Rightarrow> rchar option" where
  "hex4 a b c d =
     (case (hex_char a, hex_char b, hex_char c, hex_char d) of
        (Some a', Some b', Some c', Some d') \<Rightarrow>
          (let n = 4096 * a' + 256 * b' + 16 * c' + d' in if scalar n then Some n else None)
      | _ \<Rightarrow> None)"

definition escaped :: "(rchar \<times> rchar) list" where
  "escaped = [(34, 34), (92, 92), (47, 47), (98, 8), (102, 12), (110, 10), (114, 13), (116, 9)]"

fun read_chars :: "rstr \<Rightarrow> (rstr \<times> rstr) option" where
  "read_chars [] = None"
| "read_chars (ch # s) =
     (if ch = 34 then Some ([], s)
      else if ch < 32 then None
      else if ch = 92 then
        (case s of
           [] \<Rightarrow> None
         | e # s' \<Rightarrow>
             if e = 117 then
               (case s' of
                  a # b # c # d # s'' \<Rightarrow>
                    (case hex4 a b c d of
                       None \<Rightarrow> None
                     | Some n \<Rightarrow> map_option (apfst (Cons n)) (read_chars s''))
                | _ \<Rightarrow> None)
             else
               (case map_of escaped e of
                  None \<Rightarrow> None
                | Some n \<Rightarrow> map_option (apfst (Cons n)) (read_chars s')))
      else map_option (apfst (Cons ch)) (read_chars s))"

fun read_digits :: "nat \<Rightarrow> rstr \<Rightarrow> nat \<times> rstr" where
  "read_digits acc [] = (acc, [])"
| "read_digits acc (c # s) = (if 48 \<le> c \<and> c \<le> 57 then read_digits (10 * acc + (c - 48)) s else (acc, c # s))"

definition read_number :: "rstr \<Rightarrow> (json \<times> rstr) option" where
  "read_number s =
     (case s of
        [] \<Rightarrow> None
      | c # s' \<Rightarrow>
          if 48 \<le> c \<and> c \<le> 57 then (case read_digits 0 s of (n, r) \<Rightarrow> Some (JInt (int n), r))
          else if c = 45 \<and> s' \<noteq> [] \<and> 48 \<le> hd s' \<and> hd s' \<le> 57 then
            (case read_digits 0 s' of (n, r) \<Rightarrow> Some (JInt (- int n), r))
          else None)"

definition read_word :: "rstr \<Rightarrow> (json \<times> rstr) option" where
  "read_word s =
     (if take 4 s = lit ''null'' then Some (JNull, drop 4 s)
      else if take 4 s = lit ''true'' then Some (JBool True, drop 4 s)
      else if take 5 s = lit ''false'' then Some (JBool False, drop 5 s)
      else read_number s)"

text \<open>Tokens. No token spans lines, so a text is cut line by line.\<close>

datatype token = TString rstr | TValue json | TMark rchar

definition lex_one :: "rchar \<Rightarrow> rstr \<Rightarrow> (token \<times> rstr) option" where
  "lex_one c s =
     (if c = 34 then map_option (apfst TString) (read_chars s)
      else if c \<in> {44, 58, 91, 93, 123, 125} then Some (TMark c, s)
      else map_option (apfst TValue) (read_word (c # s)))"

lemma read_chars_shorter: "read_chars s = Some (k, r) \<Longrightarrow> length r < length s"
  by (induction s arbitrary: k r rule: read_chars.induct)
    (fastforce split: if_splits list.splits option.splits)+

lemma read_digits_shorter: "length (snd (read_digits n s)) \<le> length s"
  by (induction n s rule: read_digits.induct) auto

lemma read_word_shorter: "read_word (c # s) = Some (v, r) \<Longrightarrow> length r \<le> length s"
  using read_digits_shorter [of c s] read_digits_shorter [of 0 s]
    read_digits_shorter [of "10 * 0 + (c - 48)" s]
  by (auto simp: read_word_def read_number_def split: if_splits prod.splits)

lemma lex_one_shorter: "lex_one c s = Some (t, r) \<Longrightarrow> length r \<le> length s"
  by (auto simp: lex_one_def dest: read_chars_shorter read_word_shorter split: if_splits)

function tokenize :: "rstr \<Rightarrow> token list option" where
  "tokenize [] = Some []"
| "tokenize (c # s) =
     (if is_ws c then tokenize s
      else (case lex_one c s of None \<Rightarrow> None | Some (t, r) \<Rightarrow> map_option (Cons t) (tokenize r)))"
  by pat_completeness auto
termination
  by (relation "measure length") (auto dest: lex_one_shorter)

fun tokenize_lines :: "rstr list \<Rightarrow> token list option" where
  "tokenize_lines [] = Some []"
| "tokenize_lines (l # ls) =
     (case tokenize l of None \<Rightarrow> None | Some ts \<Rightarrow> map_option ((@) ts) (tokenize_lines ls))"

text \<open>The first argument bounds the number of values, which are fewer than the tokens.\<close>

fun read_value :: "nat \<Rightarrow> token list \<Rightarrow> (json \<times> token list) option"
  and read_elements :: "nat \<Rightarrow> token list \<Rightarrow> (json list \<times> token list) option"
  and read_entries :: "nat \<Rightarrow> token list \<Rightarrow> ((rstr \<times> json) list \<times> token list) option" where
  "read_value 0 ts = None"
| "read_value (Suc n) ts =
     (case ts of
        TString s # r \<Rightarrow> Some (JString s, r)
      | TValue v # r \<Rightarrow> Some (v, r)
      | TMark c # t # r \<Rightarrow>
          if c = 91 then
            if t = TMark 93 then Some (JArray [], r) else map_option (apfst JArray) (read_elements n (t # r))
          else if c = 123 then
            if t = TMark 125 then Some (JObject [], r) else map_option (apfst JObject) (read_entries n (t # r))
          else None
      | _ \<Rightarrow> None)"
| "read_elements 0 ts = None"
| "read_elements (Suc n) ts =
     (case read_value n ts of
        Some (v, TMark c # r) \<Rightarrow>
          if c = 93 then Some ([v], r)
          else if c = 44 then map_option (apfst (Cons v)) (read_elements n r)
          else None
      | _ \<Rightarrow> None)"
| "read_entries 0 ts = None"
| "read_entries (Suc n) ts =
     (case ts of
        TString k # TMark colon # r \<Rightarrow>
          if colon \<noteq> 58 then None
          else
            (case read_value n r of
               Some (v, TMark c # r') \<Rightarrow>
                 if c = 125 then Some ([(k, v)], r')
                 else if c = 44 then map_option (apfst (Cons (k, v))) (read_entries n r')
                 else None
             | _ \<Rightarrow> None)
      | _ \<Rightarrow> None)"

definition read_lines :: "rstr list \<Rightarrow> json option" where
  "read_lines ls =
     (case tokenize_lines ls of
        None \<Rightarrow> None
      | Some ts \<Rightarrow> (case read_value (Suc (length ts)) ts of Some (d, []) \<Rightarrow> Some d | _ \<Rightarrow> None))"

definition read_text :: "rstr \<Rightarrow> json option" where
  "read_text s = read_lines (split_on 10 s)"

section \<open>Printing\<close>

definition hex_of :: "nat \<Rightarrow> rchar" where
  "hex_of n = (if n < 10 then 48 + n else 87 + n)"

definition print_char :: "rchar \<Rightarrow> rstr" where
  "print_char c =
     (if c = 34 then [92, 34] else if c = 92 then [92, 92] else if c = 8 then [92, 98]
      else if c = 12 then [92, 102] else if c = 10 then [92, 110] else if c = 13 then [92, 114]
      else if c = 9 then [92, 116]
      else if c < 32 then [92, 117, 48, 48, hex_of (c div 16), hex_of (c mod 16)]
      else [c])"

definition print_chars :: "rstr \<Rightarrow> rstr" where
  "print_chars s = 34 # concat (map print_char s) @ [34]"

fun commas :: "rstr list \<Rightarrow> rstr" where
  "commas [] = []"
| "commas [s] = s"
| "commas (s # ss) = s @ 44 # commas ss"

primrec print_text :: "json \<Rightarrow> rstr" where
  "print_text JNull = lit ''null''"
| "print_text (JBool b) = (if b then lit ''true'' else lit ''false'')"
| "print_text (JInt n) = (if n < 0 then 45 # decimal (nat (- n)) else decimal (nat n))"
| "print_text (JFloat s) = s"
| "print_text (JString s) = print_chars s"
| "print_text (JArray ds) = 91 # commas (map print_text ds) @ [93]"
| "print_text (JObject es) =
     123 # commas (map (\<lambda>(k, v). print_chars k @ 58 # v) (map (map_prod id print_text) es)) @ [125]"

definition plain_serde :: serde where
  "plain_serde =
     \<lparr>sd_parse = \<lambda>_ bs. Option.bind (from_utf8 bs) read_text, sd_print = \<lambda>d. utf8_bytes (print_text d),
      sd_error = \<lambda>name _. lit ''not a '' @ lit name\<rparr>"

section \<open>Printed strings are read back\<close>

lemma hex_char_of [simp]: "n < 16 \<Longrightarrow> hex_char (hex_of n) = Some n"
  by (auto simp: hex_char_def hex_of_def)

lemma hex4_control: "c < 32 \<Longrightarrow> hex4 48 48 (hex_of (c div 16)) (hex_of (c mod 16)) = Some c"
proof -
  assume c: "c < 32"
  have "hex_char 48 = Some 0" by (simp add: hex_char_def)
  moreover from c have "hex_char (hex_of (c div 16)) = Some (c div 16)" by (intro hex_char_of) simp
  moreover have "hex_char (hex_of (c mod 16)) = Some (c mod 16)" by simp
  ultimately show ?thesis using c by (simp add: hex4_def scalar_def)
qed

lemma read_print_char: "scalar c \<Longrightarrow> read_chars (print_char c @ r) = map_option (apfst (Cons c)) (read_chars r)"
  using hex4_control [of c] by (simp add: print_char_def escaped_def)

lemma read_print_chars: "valid_str s \<Longrightarrow> read_chars (concat (map print_char s) @ 34 # r) = Some (s, r)"
  by (induction s) (simp_all add: read_print_char)

lemma lex_string: "valid_str s \<Longrightarrow> tokenize (print_chars s @ r) = map_option (Cons (TString s)) (tokenize r)"
  by (simp add: print_chars_def read_print_chars lex_one_def is_ws_def)

lemma lex_mark: "c \<in> {44, 58, 91, 93, 123, 125} \<Longrightarrow> tokenize (c # r) = map_option (Cons (TMark c)) (tokenize r)"
  by (auto simp: lex_one_def is_ws_def)

declare tokenize.simps(2) [simp del]

definition entry_text :: "rstr \<times> rstr \<Rightarrow> rstr" where
  "entry_text = (\<lambda>(k, v). print_chars k @ 58 # print_chars v)"

fun entry_tokens :: "(rstr \<times> rstr) list \<Rightarrow> token list" where
  "entry_tokens [] = []"
| "entry_tokens [(k, v)] = [TString k, TMark 58, TString v]"
| "entry_tokens ((k, v) # es) = TString k # TMark 58 # TString v # TMark 44 # entry_tokens es"

lemma lex_entries:
  "strings_ok es \<Longrightarrow> tokenize (commas (map entry_text es) @ r) = map_option ((@) (entry_tokens es)) (tokenize r)"
  by (cases "tokenize r"; induction es rule: entry_tokens.induct)
    (auto simp: strings_ok_def entry_text_def lex_string lex_mark)

lemma read_entry:
  "read_entries (Suc (Suc n)) (TString k # TMark 58 # TString v # TMark 125 # r) = Some ([(k, JString v)], r)"
  "read_entries (Suc (Suc n)) (TString k # TMark 58 # TString v # TMark 44 # r) =
     map_option (apfst (Cons (k, JString v))) (read_entries (Suc n) r)"
  by simp_all

lemma read_entry_tokens:
  "es \<noteq> [] \<Longrightarrow> length es < n \<Longrightarrow>
     read_entries n (entry_tokens es @ TMark 125 # r) = Some (map (map_prod id JString) es, r)"
proof (induction es arbitrary: n rule: entry_tokens.induct)
  case (2 k v)
  then have "n = Suc (Suc (n - 2))" by simp
  then obtain m where "n = Suc (Suc m)" by blast
  then show ?case by simp
next
  case (3 k v e es)
  then have "n = Suc (Suc (n - 2))" by simp
  then obtain m where "n = Suc (Suc m)" by blast
  with 3 show ?case by (cases e) (simp add: read_entry del: read_entries.simps)
qed simp

lemma print_object: "print_text (string_object es) = 123 # commas (map entry_text es) @ [125]"
proof -
  have "map (\<lambda>(k, v). print_chars k @ 58 # v) (map (map_prod id print_text) (map (map_prod id JString) es))
      = map entry_text es"
    by (induction es) (auto simp: entry_text_def)
  then show ?thesis by (simp only: string_object_def print_text.simps)
qed

lemma length_entry_tokens: "length es \<le> length (entry_tokens es)"
  by (induction es rule: entry_tokens.induct) auto

lemma lex_object:
  "strings_ok es \<Longrightarrow>
     tokenize (print_text (string_object es)) = Some (TMark 123 # entry_tokens es @ [TMark 125])"
  by (simp add: print_object lex_entries lex_mark)

lemma read_object_tokens:
  "length es \<le> n \<Longrightarrow>
     read_value (Suc (Suc n)) (TMark 123 # entry_tokens es @ [TMark 125]) = Some (string_object es, [])"
proof (cases es)
  case (Cons e es')
  assume "length es \<le> n"
  with read_entry_tokens [of es "Suc n" "[]"] show ?thesis
    by (cases e; cases es') (simp_all add: Cons string_object_def del: read_entries.simps)
qed (simp add: string_object_def)

lemma print_char_no_newline: "10 \<notin> set (print_char c)"
  by (auto simp: print_char_def hex_of_def)

lemma entry_text_no_newline: "10 \<notin> set (entry_text e)"
  using print_char_no_newline by (cases e) (auto simp: entry_text_def print_chars_def)

lemma commas_no_newline: "list_all (\<lambda>s. 10 \<notin> set s) ss \<Longrightarrow> 10 \<notin> set (commas ss)"
  by (induction ss rule: commas.induct) auto

lemma print_object_no_newline: "10 \<notin> set (print_text (string_object es))"
proof -
  have "10 \<notin> set (commas (map entry_text es))"
    by (rule commas_no_newline) (simp add: list_all_iff entry_text_no_newline)
  then show ?thesis by (simp add: print_object)
qed

lemma read_print_object:
  assumes "strings_ok es"
  shows "read_text (print_text (string_object es)) = Some (string_object es)"
proof -
  let ?ts = "TMark 123 # entry_tokens es @ [TMark 125]"
  have "read_value (Suc (length ?ts)) ?ts = Some (string_object es, [])"
    using read_object_tokens [of es "Suc (length (entry_tokens es))"] length_entry_tokens [of es]
    by (simp del: read_value.simps)
  with assms show ?thesis
    by (simp add: read_text_def read_lines_def split_on_none print_object_no_newline lex_object
        del: read_value.simps)
qed

text \<open>The bytes of what is printed are UTF-8.\<close>

lemma valid_print_char: "scalar c \<Longrightarrow> valid_str (print_char c)"
proof -
  have "hex_of (c mod 16) < 103" by (simp add: hex_of_def)
  then show "scalar c \<Longrightarrow> valid_str (print_char c)"
    by (auto simp: print_char_def scalar_def hex_of_def [of "c div 16"])
qed

lemma valid_print_chars: "valid_str s \<Longrightarrow> valid_str (print_chars s)"
  using valid_print_char by (auto simp: print_chars_def valid_str_def scalar_def list_all_iff)

lemma valid_entry_text: "valid_str k \<Longrightarrow> valid_str v \<Longrightarrow> valid_str (entry_text (k, v))"
  by (simp add: entry_text_def valid_print_chars scalar_def)

lemma valid_commas: "list_all valid_str ss \<Longrightarrow> valid_str (commas ss)"
  by (induction ss rule: commas.induct) (simp_all add: scalar_def)

lemma valid_print_object: "strings_ok es \<Longrightarrow> valid_str (print_text (string_object es))"
proof -
  assume es: "strings_ok es"
  have "valid_str (commas (map entry_text es))"
    using es by (intro valid_commas) (auto simp: strings_ok_def list_all_iff intro: valid_entry_text)
  then show ?thesis by (simp add: print_object scalar_def)
qed

lemma plain_serde_prints: "prints_strings plain_serde (\<lambda>bs. Option.bind (from_utf8 bs) read_text)"
  by (simp add: prints_strings_def plain_serde_def valid_print_object read_print_object)

end
