(* ===== verification/Wire_Properties.thy ===== *)
theory Wire_Properties
  imports Sync_Documents Json_Text System_Properties
begin

text \<open>
  The properties of the JSON the program exchanges with the home server: what a sync response is read
  to, what happens to one that cannot be read, and that the text of a message is the same on both sides
  of the home server, whatever characters it holds.
\<close>

section \<open>Reading a response\<close>

text \<open>C14: a home server may add fields. What is read from a sync response is what is read from the part of
  it that \<open>SyncResponse\<close> and the structs below it name: fields of other names, in any object at any
  depth that is read as a struct and whatever their values are, are skipped.\<close>

theorem unknown_fields_are_skipped: "read_sync (prune sync_schema d) = read_sync d"
  by (rule read_sync_prune)

text \<open>C28: nothing of a response is lost in reading. A response that is written out the way a home server
  writes it is read to itself; this covers every response whose rooms are a map and whose contents are
  values, and so every response that was ever read, from whatever document.\<close>

theorem sync_round_trip:
  assumes "sync_ok r \<or> read_sync d = Some r"
  shows "read_sync (write_sync r) = Some r"
  using assms read_sync_ok by (blast intro: read_write_sync)

definition wire_event :: "(rstr \<times> rstr) list \<Rightarrow> json event" where
  "wire_event content =
     \<lparr>ev_sender = lit ''@a:s'', ev_event_id = lit ''$1'', ev_etype = lit ''m.room.message'', ev_state_key = None,
      ev_content = string_object content, ev_unsigned = \<lparr>eu_transaction_id = Some (lit ''7'')\<rparr>\<rparr>"

definition wire_response :: "json event list \<Rightarrow> json sync_response" where
  "wire_response events =
     \<lparr>sr_next_batch = lit ''s1'',
      sr_rooms = \<lparr>rs_join =
        [(lit ''!r'', \<lparr>jr_timeline = \<lparr>tl_limited = False, tl_prev_batch = lit ''s0'', tl_events = events\<rparr>,
           jr_state = \<lparr>st_events = []\<rparr>\<rparr>)]\<rparr>\<rparr>"

theorem sync_round_trip_witness:
  "sync_ok (wire_response [wire_event [(lit ''body'', lit ''hi''), (lit ''msgtype'', lit ''m.text'')]])
    \<and> read_sync (write_sync (wire_response [wire_event [(lit ''body'', lit ''hi''), (lit ''msgtype'', lit ''m.text'')]]))
      = Some (wire_response [wire_event [(lit ''body'', lit ''hi''), (lit ''msgtype'', lit ''m.text'')]])"
proof -
  have "sync_ok (wire_response [wire_event [(lit ''body'', lit ''hi''), (lit ''msgtype'', lit ''m.text'')]])"
    by code_simp
  with sync_round_trip show ?thesis by blast
qed

section \<open>A response that cannot be read\<close>

text \<open>C13: one event without one of the five fields \<open>Event\<close> requires, in the timeline or the state of any
  joined room, makes the whole response unreadable, and the connection of the client ends: the next
  poll fails with the error of the read, and nothing of the response, not even the events that are
  complete, reaches the client.\<close>

theorem bad_event_ends_the_session:
  assumes "sy_task s = Bridging b" "cr_json (se_crates se) = wire_json S"
    and "msc_current_sync (mc_sync_client (br_matrix_client b)) = Some t"
    and "bt_get (sy_sync_cells s) t = Some (Some (Inr response))" "rp_code response = 200"
    and "sd_parse S ''SyncResponse'' (rp_data response) = Some d"
    and "JObject es \<in> set (event_docs d)" "k \<in> set required_event_fields" "k \<notin> fst ` set es"
  shows "system_step se s
    (s\<lparr>sy_task := Failed
         (IoErr (IoError Other (lit ''Sync returned invalid JSON: '' @ sd_error S ''SyncResponse'' (rp_data response))))
         (Some (iuc_conn (br_irc_conn b))),
       sy_sync_cells := bt_remove t (sy_sync_cells s)\<rparr>)"
proof -
  let ?K = "se_crates se" and ?e = "IoErr (IoError Other
    (lit ''Sync returned invalid JSON: '' @ sd_error S ''SyncResponse'' (rp_data response)))"
  have "read_sync d = None"
    by (rule events_readable [OF assms(7) missing_field_unreadable [OF assms(8,9)]])
  with assms(2,5,6) have "sync_result (cr_json ?K) response = Inl ?e"
    by (simp add: sync_result_def wire_json_def from_slice_def)
  with sync_poll_current(2) [OF assms(3,4), of "cr_url ?K" "cr_json ?K"] obtain c' where
    "sync_client_poll (cr_url ?K) (cr_json ?K) (mc_sync_client (br_matrix_client b)) (sy_sync_cells s)
      = (Inl ?e, c', bt_remove t (sy_sync_cells s))" by auto
  then obtain mc where "poll_matrix ?K b (sy_sync_cells s)
      = (Inl ?e, b\<lparr>br_matrix_client := mc\<rparr>, bt_remove t (sy_sync_cells s))"
    by (auto simp: poll_matrix.simps [of ?K b] matrix_poll_sync_def)
  from system_step.matrix [OF assms(1) this] show ?thesis by (simp add: after_poll_def)
qed

definition wire_setting :: "(rstr, json) setting" where
  "wire_setting =
     \<lparr>se_crates = \<lparr>cr_url = text_url, cr_json = wire_json plain_serde, cr_value = json_value, cr_rng = (\<lambda>_. 7)\<rparr>,
      se_http = tiny_syntax, se_server_name = lit ''irc'', se_url = lit ''h''\<rparr>"

definition wire_client :: "(rstr, json) matrix_client" where
  "wire_client = \<lparr>mc_url = lit ''h'', mc_user_id = lit ''@u:s'', mc_access_token = lit ''t'',
     mc_sync_client = fresh_sync\<lparr>msc_current_sync := Some 0, msc_http_stream := two_requests\<rparr>,
     mc_rooms = bt_empty, mc_http_stream = http_client_inner_new\<rparr>"

definition wire_bridge :: "(rstr, json) bridge" where
  "wire_bridge = bridge_new (session (socket [] [])) wire_client"

text \<open>A response whose second event has no \<open>unsigned\<close>, which Matrix leaves to the home server.\<close>

definition bare_event :: "(rstr \<times> json) list" where
  "bare_event =
     [(lit ''sender'', JString (lit ''@b:s'')), (lit ''event_id'', JString (lit ''$2'')),
      (lit ''type'', JString (lit ''m.room.message'')), (lit ''content'', JObject [])]"

definition bare_document :: json where
  "bare_document =
     JObject [(lit ''next_batch'', JString (lit ''s1'')), (lit ''rooms'', JObject [(lit ''join'', JObject [(lit ''!r'',
       JObject
         [(lit ''timeline'', JObject [(lit ''limited'', JBool False), (lit ''prev_batch'', JString (lit ''s0'')),
            (lit ''events'', JArray [write_event (wire_event []), JObject bare_event])]),
          (lit ''state'', JObject [(lit ''events'', JArray [])])])])])]"

definition bare_response :: response where
  "bare_response = \<lparr>rp_code = 200, rp_content_type = None, rp_data = sd_print plain_serde bare_document\<rparr>"

definition wire_system :: "outcome \<Rightarrow> (rstr, json) system" where
  "wire_system result =
     (system_start wire_setting (socket [] []) [] [])\<lparr>sy_task := Bridging wire_bridge, sy_sync_cells := [(0, Some result)]\<rparr>"

lemma bare_document_parses: "sd_parse plain_serde ''SyncResponse'' (rp_data bare_response) = Some bare_document"
  by code_simp

lemma bare_event_in_document:
  "JObject bare_event \<in> set (event_docs bare_document)"
  "list_ex (\<lambda>k. k = lit ''unsigned'') required_event_fields"
  "list_all (\<lambda>e. fst e \<noteq> lit ''unsigned'') bare_event"
  by code_simp+

theorem bad_event_ends_the_session_witness:
  "\<exists>cells. system_step wire_setting (wire_system (Inr bare_response))
    ((wire_system (Inr bare_response))\<lparr>sy_task := Failed
       (IoErr (IoError Other (lit ''Sync returned invalid JSON: '' @ lit ''not a SyncResponse'')))
       (Some (iuc_conn (br_irc_conn wire_bridge))), sy_sync_cells := cells\<rparr>)"
proof -
  have "lit ''unsigned'' \<in> set required_event_fields" "lit ''unsigned'' \<notin> fst ` set bare_event"
    using bare_event_in_document(2,3) by (auto simp: list_ex_iff list_all_iff)
  moreover have "sd_error plain_serde ''SyncResponse'' (rp_data bare_response) = lit ''not a SyncResponse''"
    by code_simp
  ultimately show ?thesis
    using bad_event_ends_the_session [of "wire_system (Inr bare_response)" wire_bridge wire_setting plain_serde 0
        bare_response bare_document bare_event "lit ''unsigned''"] bare_document_parses bare_event_in_document(1)
    by (auto simp: wire_system_def wire_setting_def wire_bridge_def bridge_new_def insert_nick_def wire_client_def
        bare_response_def bt_get_def Let_def split: prod.splits)
qed

section \<open>Messages\<close>

lemma content_str_string_object:
  assumes "distinct (map fst es)"
  shows "content_str json_value (to_value (string_object es)) key = map_of es key"
proof -
  have "map_of (rev (map (\<lambda>(k, s). (k, JString s)) es)) key = map_option JString (map_of es key)"
    using assms map_of_rev_distinct [of "map (\<lambda>(k, s). (k, JString s)) es"]
    by (simp add: map_of_map split_beta comp_def)
  moreover have "map (map_prod id to_value) (map (map_prod id JString) es) = map (\<lambda>(k, s). (k, JString s)) es"
    by auto
  ultimately show ?thesis
    by (simp add: content_str_def json_value_def string_object_def bt_get_collect split: option.split del: map_map)
qed

lemma valid_lit: "list_all (\<lambda>c. of_char c < (0xD800 :: nat)) s \<Longrightarrow> valid_str (lit s)"
  by (auto simp: valid_str_def lit_def scalar_def list_all_iff)

lemma message_fields_ok:
  "valid_str t \<Longrightarrow> handle_privmsg_action t = (msgtype, body) \<Longrightarrow>
     strings_ok [(lit ''msgtype'', msgtype), (lit ''body'', body)]"
  by (auto simp: handle_privmsg_action_def strings_ok_def strip_prefix_Some_iff strip_suffix_Some_iff
      intro!: valid_lit split: option.splits)

lemma handle_privmsg_action_cases:
  assumes "handle_privmsg_action t = (msgtype, body)"
  shows "msgtype = lit ''m.emote'' \<and> t = [1] @ lit ''ACTION'' @ body @ [1]
    \<or> msgtype = lit ''m.text'' \<and> t = body \<and> (\<nexists>v. t = [1] @ lit ''ACTION'' @ v @ [1])"
proof (cases "\<exists>v. t = (1 # lit ''ACTION'') @ v @ [1]")
  case True
  then obtain v where t: "t = (1 # lit ''ACTION'') @ v @ [1]" by blast
  then have "strip_prefix (1 # lit ''ACTION'') t = Some (v @ [1])" "strip_suffix [1] (v @ [1]) = Some v"
    by (simp_all only: strip_prefix_Some_iff strip_suffix_Some_iff)
  with assms t show ?thesis by (simp add: handle_privmsg_action_def)
next
  case False
  then have "(msgtype, body) = (lit ''m.text'', t)"
    using assms by (auto simp: handle_privmsg_action_def strip_prefix_Some_iff strip_suffix_Some_iff split: option.splits)
  with False show ?thesis by simp
qed

text \<open>The lines a relayed text is queued as.\<close>

lemma relayed_text_queued:
  assumes "iuc_inv c"
  shows "queued (iuc_conn (send_message channel nick body c)) = queued (iuc_conn c) @ concat (map (\<lambda>l. utf8_bytes
      (lit '':'' @ nick @ lit '' PRIVMSG '' @ channel @ lit '' :'' @ l) @ [10]) (split_on 10 body))"
    and "queued (iuc_conn (send_action channel nick body c)) = queued (iuc_conn c) @ concat (map (\<lambda>l. utf8_bytes
      (lit '':'' @ nick @ lit '' PRIVMSG '' @ channel @ lit '' :'' @ [1] @ lit ''ACTION '' @ l @ [1]) @ [10]) (split_on 10 body))"
  using iuc_emits_queued [OF send_message_emits [OF assms, of channel nick body]]
    iuc_emits_queued [OF send_action_emits [OF assms, of channel nick body]]
  by (simp_all add: message_lines_def action_lines_def privmsg_line_def action_text_def line_bytes_def comp_def)

text \<open>C12: the text of a message is the same on both sides of the home server, whatever characters are in
  it. What a client sends to a channel is, in the body of the request, one object of exactly the two
  strings \<open>msgtype\<close> and \<open>body\<close>, so no text can add a field or end the object: an action if the text is
  \<open>ACTION\<close> and more between two bytes 1, whose body is what follows \<open>ACTION\<close>, and otherwise a message
  with the text itself. A bridge that gets an event with this content shows its client the lines of the
  body, all of them and in order, as messages, or each as an action. An action comes back with one more
  space than it was sent with: the one before its text is part of the body, and a second is put in.\<close>

theorem text_crosses_the_home_server:
  assumes "prints_strings S reader" "cr_json K = wire_json S" "valid_str t"
    and "channel_to_room_id (br_mappings b) channel = Some room_id" "handle_irc_cmd K (PrivMsg channel t) b = Inr b'"
  shows "\<exists>req msgtype body.
    (msgtype = lit ''m.emote'' \<and> t = [1] @ lit ''ACTION'' @ body @ [1]
      \<or> msgtype = lit ''m.text'' \<and> t = body \<and> (\<nexists>v. t = [1] @ lit ''ACTION'' @ v @ [1]))
    \<and> main_queue b' = main_queue b @ [(req, hci_next_ticket (mc_http_stream (br_matrix_client b)))]
    \<and> reader (rq_body req) = Some (string_object [(lit ''msgtype'', msgtype), (lit ''body'', body)])
    \<and> (cr_value K' = json_value \<and> ev_etype ev = lit ''m.room.message''
        \<and> reader (rq_body req) = Some content \<and> ev_content ev = to_value content
        \<and> get_nick_from_matrix mp (ev_sender ev) = Some nick \<and> iuc_inv c \<longrightarrow>
       (\<exists>c' ls. relay_event K' mc mp channel' ev c = Inr c'
         \<and> ls \<noteq> [] \<and> join_on 10 ls = body \<and> (\<forall>l \<in> set ls. 10 \<notin> set l)
         \<and> queued (iuc_conn c') = queued (iuc_conn c) @ concat (map (\<lambda>l. utf8_bytes
             (lit '':'' @ nick @ lit '' PRIVMSG '' @ channel' @ lit '' :''
              @ (if msgtype = lit ''m.emote'' then [1] @ lit ''ACTION '' @ l @ [1] else l)) @ [10]) ls)))"
proof -
  obtain msgtype body where action: "handle_privmsg_action t = (msgtype, body)" by fastforce
  note kind = handle_privmsg_action_cases [OF action]
  let ?es = "[(lit ''msgtype'', msgtype), (lit ''body'', body)]"
  obtain req where req: "message_request K b room_id t = Some req"
    and queue: "main_queue b' = main_queue b @ [(req, hci_next_ticket (mc_http_stream (br_matrix_client b)))]"
    using handle_privmsg_request(1) [OF assms(4,5)] by blast
  from req action have "rq_body req = sd_print S (string_object ?es)"
    by (auto simp: message_request_def assms(2) wire_json_def write_send_def json_post_request_def Let_def
        split: option.splits)
  with assms(1) message_fields_ok [OF assms(3) action]
  have read: "reader (rq_body req) = Some (string_object ?es)" by (simp add: prints_strings_def)
  have shown: "\<exists>c' ls. relay_event K' mc mp channel' ev c = Inr c'
         \<and> ls \<noteq> [] \<and> join_on 10 ls = body \<and> (\<forall>l \<in> set ls. 10 \<notin> set l)
         \<and> queued (iuc_conn c') = queued (iuc_conn c) @ concat (map (\<lambda>l. utf8_bytes
             (lit '':'' @ nick @ lit '' PRIVMSG '' @ channel' @ lit '' :''
              @ (if msgtype = lit ''m.emote'' then [1] @ lit ''ACTION '' @ l @ [1] else l)) @ [10]) ls)"
    if "cr_value K' = json_value" "ev_etype ev = lit ''m.room.message''" "reader (rq_body req) = Some content"
      "ev_content ev = to_value content" "get_nick_from_matrix mp (ev_sender ev) = Some nick" "iuc_inv c"
  proof -
    have "relay_event K' mc mp channel' ev c =
      Inr (if msgtype = lit ''m.emote'' then send_action channel' nick body c else send_message channel' nick body c)"
      using that(1-5) read kind content_str_string_object [of ?es] by (auto simp: relay_event_def)
    with relayed_text_queued [OF that(6), of channel' nick body] show ?thesis
      by (intro exI [of _ "if msgtype = lit ''m.emote'' then send_action channel' nick body c
        else send_message channel' nick body c"] exI [of _ "split_on 10 body"])
        (auto simp: join_split_on dest: split_on_pieces)
  qed
  show ?thesis
    by (intro exI [of _ req] exI [of _ msgtype] exI [of _ body] conjI kind queue read impI shown; elim conjE; assumption)
qed

definition wire_mapped :: "(rstr, json) bridge" where
  "wire_mapped = wire_bridge\<lparr>br_mappings := mapping_store_default
     \<lparr>mp_channel_to_room_id := [(lit ''#tea'', lit ''!r'')]\<rparr>\<rparr>"

definition two_users :: mapping_store where
  "two_users = mapping_store_default\<lparr>mp_matrix_uid_to_nick := [(lit ''@a:s'', lit ''ann'')]\<rparr>"

text \<open>A text that would close the string and add a field, were it not escaped.\<close>

definition sly_text :: rstr where
  "sly_text = lit ''\",\"msgtype\":\"m.notice'' @ [10, 1]"

theorem text_crosses_the_home_server_witness:
  "\<exists>b' req c'. handle_irc_cmd (se_crates wire_setting) (PrivMsg (lit ''#tea'') sly_text) wire_mapped = Inr b'
    \<and> main_queue b' = [(req, 0)]
    \<and> Option.bind (from_utf8 (rq_body req)) read_text
        = Some (string_object [(lit ''msgtype'', lit ''m.text''), (lit ''body'', sly_text)])
    \<and> relay_event (se_crates wire_setting) wire_client two_users (lit ''#tea'')
        (wire_event [(lit ''body'', sly_text), (lit ''msgtype'', lit ''m.text'')]) (session (socket [] [])) = Inr c'"
proof -
  let ?K = "se_crates wire_setting"
  let ?ev = "wire_event [(lit ''body'', sly_text), (lit ''msgtype'', lit ''m.text'')]"
  have K: "cr_json ?K = wire_json plain_serde" "cr_value ?K = json_value"
    by (simp_all add: wire_setting_def)
  have mapped: "channel_to_room_id (br_mappings wire_mapped) (lit ''#tea'') = Some (lit ''!r'')"
    by (simp add: channel_to_room_id_def wire_mapped_def bt_get_def)
  have sly: "valid_str sly_text" "handle_privmsg_action sly_text = (lit ''m.text'', sly_text)"
    by code_simp+
  have "message_request ?K wire_mapped (lit ''!r'') sly_text \<noteq> None"
    by (simp add: message_request_def wire_setting_def text_url_def wire_json_def Let_def split: prod.splits)
  then obtain b' where b': "handle_irc_cmd ?K (PrivMsg (lit ''#tea'') sly_text) wire_mapped = Inr b'"
    using handle_privmsg_request(2) [OF mapped] by blast
  have queue: "main_queue wire_mapped = []" "hci_next_ticket (mc_http_stream (br_matrix_client wire_mapped)) = 0"
    by code_simp+
  have ev: "ev_etype ?ev = lit ''m.room.message''" "get_nick_from_matrix two_users (ev_sender ?ev) = Some (lit ''ann'')"
    "ev_content ?ev = to_value (string_object [(lit ''msgtype'', lit ''m.text''), (lit ''body'', sly_text)])"
    by code_simp+
  have no_action: "sly_text \<noteq> [1] @ lit ''ACTION'' @ v @ [1]" for v by (simp add: sly_text_def lit_def)
  note crosses = text_crosses_the_home_server [OF plain_serde_prints K(1) sly(1) mapped b', of ?K ?ev
      "string_object [(lit ''msgtype'', lit ''m.text''), (lit ''body'', sly_text)]" two_users "lit ''ann''"
      "session (socket [] [])" wire_client "lit ''#tea''"]
  then obtain req where "main_queue b' = [(req, 0)]"
    "Option.bind (from_utf8 (rq_body req)) read_text
        = Some (string_object [(lit ''msgtype'', lit ''m.text''), (lit ''body'', sly_text)])"
    "\<exists>c'. relay_event ?K wire_client two_users (lit ''#tea'') ?ev (session (socket [] [])) = Inr c'"
    using queue ev K(2) session_inv no_action by auto
  with b' show ?thesis by blast
qed

end
