(* ===== verification/Unit_Tests.thy ===== *)
theory Unit_Tests
  imports Irc_Protocol Json_Text
begin

text \<open>
  The unit tests of \<open>src/irc/protocol.rs\<close>, \<open>src/http.rs\<close>, \<open>src/matrix/mod.rs\<close>,
  \<open>src/matrix/sync.rs\<close> and \<open>src/matrix/protocol.rs\<close>, run on the model: each test function is a boolean, true when all its assertions
  hold, and the lemmas evaluate them. The tests of the parser need the HTTP syntax of the \<open>httparse\<close>
  crate, a parameter everywhere else; here it is instantiated with the part of RFC 7230 the tests use,
  a status line and headers up to an empty line and a chunk size in hexadecimal, which also shows that
  the laws asked of the parameter can hold together. The tests of the Matrix client let a mock server
  check the method, the path and the query of one request: the model checks the request that is queued,
  over addresses that are a path and its query pairs, written as the \<open>url\<close> crate documents it.
\<close>

section \<open>Lines\<close>

definition simple_nick :: bool where
  "simple_nick \<longleftrightarrow>
     parse_irc_line (lit ''NICK test'')
       = Inr (Some \<lparr>il_prefix = None, il_command = CNick, il_args = [lit ''test'']\<rparr>)
     \<and> irc_command_from_str (lit ''NICK test'') = Inr (Some (Nick (lit ''test'')))"

definition simple_user :: bool where
  "simple_user \<longleftrightarrow>
     parse_irc_line (lit ''USER test * * :Real Name'')
       = Inr (Some \<lparr>il_prefix = None, il_command = CUser,
           il_args = [lit ''test'', lit ''*'', lit ''*'', lit ''Real Name'']\<rparr>)
     \<and> irc_command_from_str (lit ''USER test * * :Real Name'') = Inr (Some (User (lit ''test'') (lit ''Real Name'')))"

definition simple_prefix :: bool where
  "simple_prefix \<longleftrightarrow>
     parse_irc_line (lit '':example.com PRIVMSG #test :Some text'')
       = Inr (Some \<lparr>il_prefix = Some (lit ''example.com''), il_command = CPrivMsg,
           il_args = [lit ''#test'', lit ''Some text'']\<rparr>)
     \<and> irc_command_from_str (lit '':example.com PRIVMSG #test :Some text'')
       = Inr (Some (PrivMsg (lit ''#test'') (lit ''Some text'')))"

definition simple_numeric :: bool where
  "simple_numeric \<longleftrightarrow>
     parse_irc_line (lit ''001 test :Some text'')
       = Inr (Some \<lparr>il_prefix = None, il_command = CNumeric 1 (48, 48, 49),
           il_args = [lit ''test'', lit ''Some text'']\<rparr>)"

lemma line_tests_pass: "simple_nick" "simple_user" "simple_prefix" "simple_numeric"
  by code_simp+

section \<open>An HTTP syntax\<close>

fun find_sub :: "u8 list \<Rightarrow> u8 list \<Rightarrow> nat option" where
  "find_sub pat [] = (if pat = [] then Some 0 else None)"
| "find_sub pat (b # bs) =
     (if take (length pat) (b # bs) = pat then Some 0 else map_option Suc (find_sub pat bs))"

text \<open>What is read up to a mark and what follows from it.\<close>

definition up_to :: "u8 list \<Rightarrow> (u8 list \<Rightarrow> 'a option) \<Rightarrow> u8 list \<Rightarrow> (nat \<times> 'a) parsed" where
  "up_to mark f bs =
     (case find_sub mark bs of
        None \<Rightarrow> Partial
      | Some n \<Rightarrow>
          (case f (take n bs) of None \<Rightarrow> Malformed | Some a \<Rightarrow> Complete (n + length mark, a)))"

lemma find_sub_fits: "find_sub pat bs = Some n \<Longrightarrow> n + length pat \<le> length bs"
proof (induction bs arbitrary: n)
  case (Cons b bs)
  show ?case
  proof (cases "take (length pat) (b # bs) = pat")
    case True
    then have "length pat \<le> length (b # bs)" by (metis length_take min.cobounded1)
    with True Cons.prems show ?thesis by simp
  next
    case False
    with Cons show ?thesis by auto
  qed
qed (simp split: if_splits)

lemma find_sub_append: "find_sub pat bs = Some n \<Longrightarrow> find_sub pat (bs @ xs) = Some n"
proof (induction bs arbitrary: n)
  case Nil
  then show ?case by (cases xs) (auto split: if_splits)
next
  case (Cons b bs)
  have "length pat \<le> length (b # bs)" using find_sub_fits [OF Cons.prems] by simp
  then have "take (length pat) (b # bs @ xs) = take (length pat) (b # bs)"
    by (metis append_Cons append_take_drop_id take_append diff_is_0_eq' take0 append_Nil2)
  with Cons show ?case by (auto split: if_splits)
qed

lemma up_to_left_to_right: "left_to_right (up_to mark f)"
proof -
  have "up_to mark f (bs @ xs) = up_to mark f bs" if "find_sub mark bs = Some n" for bs xs n
    using find_sub_append [OF that] find_sub_fits [OF that] by (simp add: up_to_def that)
  then show ?thesis
    using find_sub_fits
    by (fastforce simp: left_to_right_def up_to_def [of _ _ "_ :: u8 list"] split: option.splits)
qed

definition hex_digit :: "u8 \<Rightarrow> nat option" where
  "hex_digit b =
     (if 48 \<le> b \<and> b \<le> 57 then Some (unat b - 48)
      else if 97 \<le> b \<and> b \<le> 102 then Some (unat b - 87)
      else if 65 \<le> b \<and> b \<le> 70 then Some (unat b - 55) else None)"

fun hex_value :: "nat \<Rightarrow> u8 list \<Rightarrow> nat option" where
  "hex_value acc [] = Some acc"
| "hex_value acc (b # bs) =
     (case hex_digit b of None \<Rightarrow> None | Some d \<Rightarrow> hex_value (16 * acc + d) bs)"

definition chunk_line :: "u8 list \<Rightarrow> nat option" where
  "chunk_line bs = (if bs = [] then None else hex_value 0 bs)"

definition header_line :: "u8 list \<Rightarrow> rstr \<times> u8 list" where
  "header_line l =
     (map unat (takeWhile (\<lambda>b. b \<noteq> 58) l), dropWhile (\<lambda>b. b = 32) (drop 1 (dropWhile (\<lambda>b. b \<noteq> 58) l)))"

definition head_lines :: "u8 list \<Rightarrow> (16 word option \<times> (rstr \<times> u8 list) list) option" where
  "head_lines bs =
     (case split_on 10 (filter (\<lambda>b. b \<noteq> 13) bs) of
        [] \<Rightarrow> None
      | status # headers \<Rightarrow>
          if take 9 status = utf8_bytes (lit ''HTTP/1.1 '')
          then map_option (\<lambda>code. (Some (of_nat code), map header_line headers))
            (parse_uint 999 (map unat (take 3 (drop 9 status))))
          else None)"

definition plain_syntax :: http_syntax where
  "plain_syntax = \<lparr>hs_response = up_to [13, 10, 13, 10] head_lines, hs_chunk_size = up_to [13, 10] chunk_line\<rparr>"

lemma plain_syntax_ok: "http_syntax_ok plain_syntax"
proof -
  have "up_to m head_lines bs \<noteq> Complete (n, None, hs)" for m bs n hs
    by (auto simp: up_to_def head_lines_def split: option.splits list.splits if_splits)
  then show ?thesis
    by (simp add: http_syntax_ok_def plain_syntax_def up_to_left_to_right)
qed

section \<open>Responses\<close>

text \<open>
  \<open>TestReader\<close> and \<open>Cursor\<close>: the chunks in their order, \<open>None\<close> a read that would block, and end of
  file after the last. Lines of the literals end in the two bytes a backslash escape stands for.
\<close>

definition test_reader :: "u8 list option list \<Rightarrow> io_env" where
  "test_reader chunks =
     \<lparr>rd = map (\<lambda>c. case c of Some bs \<Rightarrow> Inr bs | None \<Rightarrow> Inl would_block) chunks @ [Inr []],
      wr = [], fl = [], sent = []\<rparr>"

definition cursor :: "u8 list \<Rightarrow> io_env" where
  "cursor bs = test_reader [Some bs]"

definition crlf :: "u8 list" where
  "crlf = [13, 10]"

definition bytes :: "string \<Rightarrow> u8 list" where
  "bytes s = utf8_bytes (lit s)"

definition is_ok_response :: "u8 list \<Rightarrow> exn + response async \<Rightarrow> bool" where
  "is_ok_response body r \<longleftrightarrow>
     (case r of
        Inr (Ready resp) \<Rightarrow> rp_code resp = 200 \<and> rp_content_type resp = None \<and> rp_data resp = body
      | _ \<Rightarrow> False)"

text \<open>\<open>n\<close> polls in a row, with their results.\<close>

fun polls :: "nat \<Rightarrow> http_parser \<Rightarrow> io_env \<Rightarrow> (exn + response async) list" where
  "polls 0 p e = []"
| "polls (Suc n) p e =
     (case poll_for_response plain_syntax p e of (r, p', e') \<Rightarrow> r # polls n p' e')"

definition response_head :: "string \<Rightarrow> u8 list" where
  "response_head header = bytes ''HTTP/1.1 200 Ok'' @ crlf @ bytes header @ crlf @ crlf"

definition chunked :: "u8 list" where
  "chunked = response_head ''Transfer-Encoding: chunked''"

definition hello_chunks :: "u8 list" where
  "hello_chunks = bytes ''1'' @ crlf @ bytes ''H'' @ crlf @ bytes ''4'' @ crlf @ bytes ''ello'' @ crlf
     @ bytes ''0'' @ crlf"

definition basic_response :: bool where
  "basic_response \<longleftrightarrow>
     list_all (is_ok_response []) (polls 1 http_parser_new (cursor (bytes ''HTTP/1.1 200 Ok'' @ crlf @ crlf)))"

definition basic_length_response :: bool where
  "basic_length_response \<longleftrightarrow>
     (case polls 2 http_parser_new (cursor (response_head ''Content-Length: 5'' @ bytes ''Hello'')) of
        [r1, r2] \<Rightarrow> is_ok_response (bytes ''Hello'') r1 \<and> isl r2
      | _ \<Rightarrow> False)"

definition basic_chunked_response :: bool where
  "basic_chunked_response \<longleftrightarrow>
     list_all (is_ok_response (bytes ''Hello'')) (polls 1 http_parser_new (cursor (chunked @ hello_chunks @ crlf)))"

definition chunked_response_missing_last_newline :: bool where
  "chunked_response_missing_last_newline \<longleftrightarrow>
     list_all (is_ok_response (bytes ''Hello''))
       (polls 1 http_parser_new (test_reader [Some (chunked @ hello_chunks @ [13]), Some [10]]))"

definition slow_chunks :: "u8 list list" where
  "slow_chunks =
     [bytes ''HTTP/1.1 200 Ok'', crlf @ bytes ''Transfer-Encoding: chunked'' @ crlf @ [13],
      [10] @ bytes ''1'' @ crlf @ bytes ''H'' @ crlf @ bytes ''4'' @ [13],
      [10] @ bytes ''ello'' @ crlf @ bytes ''0'' @ crlf @ [13], [10]]"

definition chunked_response_slow :: bool where
  "chunked_response_slow \<longleftrightarrow>
     list_all (is_ok_response (bytes ''Hello''))
       (polls 1 http_parser_new (test_reader (map Some slow_chunks)))"

text \<open>The loop of this test polls until a response is there: four reads block, so the fifth poll gives it.\<close>

definition chunked_response_slow_block :: bool where
  "chunked_response_slow_block \<longleftrightarrow>
     (case polls 5 http_parser_new
         (test_reader (concat (map (\<lambda>c. [Some c, None]) (butlast slow_chunks)) @ [Some (last slow_chunks)])) of
        [r1, r2, r3, r4, r5] \<Rightarrow>
          [r1, r2, r3, r4] = replicate 4 (Inr NotReady) \<and> is_ok_response (bytes ''Hello'') r5
      | _ \<Rightarrow> False)"

definition mutliple :: bool where
  "mutliple \<longleftrightarrow>
     (let once = response_head ''Content-Length: 5'' @ bytes ''Hello'' in
      list_all (is_ok_response (bytes ''Hello'')) (polls 2 http_parser_new (cursor (once @ once))))"

lemma response_tests_pass: "basic_response" "basic_length_response"
  by code_simp+

lemma chunked_tests_pass: "basic_chunked_response" "chunked_response_missing_last_newline" "chunked_response_slow"
  by code_simp+

lemma chunked_response_slow_block_passes: "chunked_response_slow_block"
  by code_simp

lemma mutliple_passes: "mutliple"
  by code_simp

section \<open>Requests\<close>

definition form_byte :: "u8 \<Rightarrow> rstr" where
  "form_byte b =
     (let hex = (\<lambda>d. if d < 10 then 48 + d else 55 + d); n = unat b in
      if 48 \<le> n \<and> n \<le> 57 \<or> 65 \<le> n \<and> n \<le> 90 \<or> 97 \<le> n \<and> n \<le> 122 \<or> n \<in> {42, 45, 46, 95} then [n]
      else if n = 32 then [43] else [37, hex (n div 16), hex (n mod 16)])"

definition form_encode :: "rstr \<Rightarrow> rstr" where
  "form_encode s = concat (map form_byte (utf8_bytes s))"

definition form_pair :: "rstr \<times> rstr \<Rightarrow> rstr" where
  "form_pair = (\<lambda>(k, v). form_encode k @ lit ''='' @ form_encode v)"

fun form_pairs :: "(rstr \<times> rstr) list \<Rightarrow> rstr" where
  "form_pairs [] = []"
| "form_pairs [kv] = form_pair kv"
| "form_pairs (kv # kvs) = form_pair kv @ lit ''&'' @ form_pairs kvs"

definition plain_url :: "(rstr \<times> (rstr \<times> rstr) list option) url_ops" where
  "plain_url =
     \<lparr>uo_host_str = \<lambda>_. Some (lit ''127.0.0.1''), uo_port_or_known_default = \<lambda>_. Some 1234,
      uo_scheme = \<lambda>_. lit ''http'', uo_join = \<lambda>u s. Some (s, None), uo_path = fst,
      uo_query = \<lambda>u. map_option form_pairs (snd u), uo_set_query = \<lambda>u kvs. (fst u, Some kvs),
      uo_string = fst, uo_percent_encode = \<lambda>bs. concat (map form_byte bs)\<rparr>"

definition server_url :: "rstr \<times> (rstr \<times> rstr) list option" where
  "server_url = (lit ''/'', None)"

text \<open>The mock server answers with an empty body, which is not JSON.\<close>

definition empty_json :: "unit json_ops" where
  "empty_json =
     \<lparr>jo_parse_sync = \<lambda>_. Inl [], jo_parse_login = \<lambda>_. Inl [], jo_parse_join = \<lambda>_. Inl [],
      jo_parse_send = \<lambda>_. Inl [], jo_login_to_vec = \<lambda>_. Some [], jo_send_to_vec = \<lambda>_. Some [],
      jo_join_to_vec = Some []\<rparr>"

definition path_of :: "request \<Rightarrow> rstr" where
  "path_of req = takeWhile (\<lambda>c. c \<noteq> 63) (rq_path req)"

definition query_of :: "request \<Rightarrow> rstr list" where
  "query_of req = split_on 38 (drop 1 (dropWhile (\<lambda>c. c \<noteq> 63) (rq_path req)))"

definition only_request :: "http_client_inner \<Rightarrow> (request \<Rightarrow> bool) \<Rightarrow> bool" where
  "only_request http check = (case hci_requests http of [(req, _)] \<Rightarrow> check req | _ \<Rightarrow> False)"

definition matrix_login :: bool where
  "matrix_login \<longleftrightarrow>
     (case login_request plain_url empty_json server_url (lit ''sample_username'') (lit ''sample_password'') of
        Inr (_, http, _) \<Rightarrow> only_request http (\<lambda>req.
          rq_method req = lit ''POST'' \<and> rq_path req = lit ''/_matrix/client/r0/login?'')
      | Inl _ \<Rightarrow> False)"

definition message_path :: "rstr \<Rightarrow> bool" where
  "message_path path \<longleftrightarrow>
     (case strip_prefix (lit ''/_matrix/client/r0/rooms/room_id/send/m.room.message/mircd-'') path of
        None \<Rightarrow> False
      | Some digits \<Rightarrow> digits \<noteq> [] \<and> list_all is_digit digits)"

definition send_text_message_test :: "16 word \<Rightarrow> bool" where
  "send_text_message_test msg_id \<longleftrightarrow>
     (case matrix_client_new plain_url http_client_inner_new server_url (lit ''sample_user_id'') (lit ''sample_token'') of
        Inl _ \<Rightarrow> False
      | Inr (client, _) \<Rightarrow>
          (case send_text_message plain_url empty_json msg_id (lit ''room_id'') (lit ''sample_body'') (lit ''m.text'')
              (client :: (_, unit) matrix_client) of
             Inl _ \<Rightarrow> False
           | Inr (_, client') \<Rightarrow> only_request (mc_http_stream client') (\<lambda>req.
               rq_method req = lit ''PUT'' \<and> message_path (path_of req)
               \<and> form_pair (lit ''access_token'', lit ''sample_token'') \<in> set (query_of req))))"

definition matrix_sync_request :: bool where
  "matrix_sync_request \<longleftrightarrow>
     (case matrix_sync_client_new plain_url server_url (lit ''sample_access_token'') of
        Inl _ \<Rightarrow> False
      | Inr (client, _) \<Rightarrow>
          (case sync_client_poll plain_url empty_json client bt_empty of
             (_, client', _) \<Rightarrow> only_request (msc_http_stream client') (\<lambda>req.
               rq_method req = lit ''GET'' \<and> path_of req = lit ''/_matrix/client/r0/sync''
               \<and> list_all (\<lambda>kv. form_pair kv \<in> set (query_of req))
                   [(lit ''access_token'', lit ''sample_access_token''),
                    (lit ''filter'', lit ''{\"presence\":{\"not_types\":[\"m.presence\"]}}''),
                    (lit ''timeout'', lit ''30000'')])))"

lemma matrix_login_passes: "matrix_login"
  by code_simp

lemma send_text_message_passes: "send_text_message_test 0" "send_text_message_test 65535"
  by code_simp+

lemma matrix_sync_request_passes: "matrix_sync_request"
  by code_simp

section \<open>A sync response\<close>

text \<open>The text of the test, line by line.\<close>

definition sync_response_lines :: "string list" where
  "sync_response_lines =
   [[],
    ''        {'',
    ''          \"next_batch\": \"s2240646_7037295_67564_1482345_530_40_551\",'',
    ''          \"rooms\": {'',
    ''            \"leave\": {},'',
    ''            \"join\": {'',
    ''              \"!SDFsdfqsf24SB:matrix.org\": {'',
    ''                \"unread_notifications\": {'',
    ''                  \"highlight_count\": 0,'',
    ''                  \"notification_count\": 0'',
    ''                },'',
    ''                \"timeline\": {'',
    ''                  \"limited\": false,'',
    ''                  \"prev_batch\": \"s2240646_7037295_67564_1482345_530_40_551\",'',
    ''                  \"events\": ['',
    ''                    {'',
    ''                      \"origin_server_ts\": 1475512030637,'',
    ''                      \"sender\": \"@wibble:matrix.org\",'',
    ''                      \"event_id\": \"$147sdfsdfsdfKBLVL:matrix.org\",'',
    ''                      \"unsigned\": {'',
    ''                        \"age\": 1008'',
    ''                      },'',
    ''                      \"content\": {'',
    ''                        \"body\": \"test test test test\",'',
    ''                        \"msgtype\": \"m.text\"'',
    ''                      },'',
    ''                      \"type\": \"m.room.message\"'',
    ''                    }'',
    ''                  ]'',
    ''                },'',
    ''                \"state\": {'',
    ''                  \"events\": []'',
    ''                },'',
    ''                \"ephemeral\": {'',
    ''                  \"events\": []'',
    ''                },'',
    ''                \"account_data\": {'',
    ''                  \"events\": []'',
    ''                }'',
    ''              }'',
    ''            },'',
    ''            \"invite\": {}'',
    ''          },'',
    ''          \"account_data\": {'',
    ''            \"events\": []'',
    ''          },'',
    ''          \"to_device\": {'',
    ''            \"events\": []'',
    ''          },'',
    ''          \"presence\": {}'',
    ''        }'',
    ''        '']"

definition sync_response_parses :: bool where
  "sync_response_parses \<longleftrightarrow>
     (case Option.bind (read_text (join_on 10 (map lit sync_response_lines))) read_sync of
        Some parsed_response \<Rightarrow> True
      | None \<Rightarrow> False)"

lemma lines_are_lines: "list_all (\<lambda>l. 10 \<notin> set (lit l)) sync_response_lines"
  by code_simp

lemma sync_response_passes: "sync_response_parses"
proof -
  have "split_on 10 (join_on 10 (map lit sync_response_lines)) = map lit sync_response_lines"
    using lines_are_lines by (intro split_join_on) (auto simp: list_all_iff sync_response_lines_def)
  moreover have "Option.bind (read_lines (map lit sync_response_lines)) read_sync \<noteq> None"
    by code_simp
  ultimately show ?thesis by (auto simp: sync_response_parses_def read_text_def split: option.split)
qed

end
