(* ===== verification/Spec2Isabelle.thy ===== *)
theory Spec2Isabelle
  imports Daemon_Properties Wire_Properties Unit_Tests
begin

text \<open>
  A verification development for \<open>matrix-ircd\<close>, a daemon that lets IRC clients use Matrix. Paths are
  relative to \<open>src/src/\<close>.

  \<^bold>\<open>The program.\<close> \<open>main.rs\<close> accepts TCP connections and gives each a task. The task (\<open>Bridge::create\<close> in
  \<open>bridge/mod.rs\<close>) waits for the IRC login (\<open>irc/mod.rs\<close> over \<open>stream_fold.rs\<close> and \<open>irc/transport.rs\<close>),
  logs in to the home server with the client's user and password (\<open>matrix/mod.rs\<close> over \<open>http.rs\<close>), and
  becomes a \<open>Bridge\<close>: one loop takes commands from the client and posts requests, the other takes
  responses of the sync long poll (\<open>matrix/sync.rs\<close>) and writes IRC lines. The bridge names rooms and
  users (\<open>MappingStore\<close>), the IRC server model knows the channels and nicks that exist
  (\<open>irc/models.rs\<close>), and \<open>matrix/models.rs\<close> builds rooms from sync responses. Two HTTP connections, one
  for requests and one for the long poll, run as tasks of their own and share a queue of requests with
  the client; answers come back through oneshots.

  \<^bold>\<open>The theories.\<close> Each has the state of its component as records, its data as datatypes, one function for
  each operation, and the lemmas about them; the properties are in theories of their own.
  \<^item> \<open>Prelude\<close>, \<open>Btree_Map\<close>, \<open>Utf8\<close>, \<open>Io_Env\<close>: what the program uses of the standard library. Strings are
    lists of code points, a \<open>BTreeMap\<close> is an ascending association list (locale \<open>ordered_map\<close>), a socket
    is a script of the results its calls will have.
  \<^item> \<open>Irc_Protocol\<close> (\<open>irc/protocol.rs\<close>): the line parser and the typed commands; \<open>Irc_Grammar\<close>: a
    declarative grammar and its equivalence with the parser.
  \<^item> \<open>Irc_Models\<close> (\<open>irc/models.rs\<close>): channels and users; the locale \<open>user_directory\<close> is the interface the
    mapping uses, provided here and by the session in \<open>Irc_Connection\<close>.
  \<^item> \<open>Irc_Transport\<close> (\<open>irc/transport.rs\<close>): the line connection and all it writes.
  \<^item> \<open>Stream_Fold\<close> (\<open>stream_fold.rs\<close>): a partial function, with the locale \<open>item_stream\<close> for when it returns.
  \<^item> \<open>Irc_Connection\<close> (\<open>irc/mod.rs\<close>): login, PING, JOIN, WHO, MODE, and the messages of a session.
  \<^item> \<open>Http_Parser\<close>, \<open>Http_Client\<close> (\<open>http.rs\<close>): cutting bytes into responses; the queue, the pipelining
    handler and the reconnecting stream. The future of a request is a ticket, its oneshot a cell of a map.
    \<open>Http_Service\<close>: the contract of a connection with the futures that use it, as the locale
    \<open>ticket_service\<close>, and that the connection provides it.
  \<^item> \<open>Matrix_Models\<close> (\<open>matrix/models.rs\<close>, structs of \<open>matrix/protocol.rs\<close>), \<open>Matrix_Client\<close>
    (\<open>matrix/sync.rs\<close>, \<open>matrix/mod.rs\<close>): rooms; the sync loop, the login and the requests.
  \<^item> \<open>Matrix_Wire\<close> (\<open>matrix/protocol.rs\<close>): the JSON form of the structs, field by field, as readers from and
    writers to a document (\<open>json\<close>); \<open>Sync_Documents\<close>: a reference writer of sync responses and the events of
    a document; \<open>Json_Text\<close>: a concrete text form of documents for the instances and the unit test.
  \<^item> \<open>Mapping_Store\<close>, \<open>Bridge\<close> (\<open>bridge/mod.rs\<close>): names; both directions of the bridge, and \<open>bridge_step\<close>,
    the steps of a bridge in whatever order the executor takes them. The number behind a name that is taken
    counts in \<open>nat\<close> where the code has an \<open>i32\<close>: it is at most the number of names in use.
  \<^item> \<open>Bridge_Commands\<close>: what the commands of a client come to as a function of the state a poll starts from
    (\<open>requests_of\<close>, \<open>answers_to\<close>), and that the polling loop computes it (\<open>transduces\<close>).
  \<^item> \<open>System\<close> (\<open>Bridge::create\<close>): one client from its first byte on, as \<open>system_step\<close> over the login stages,
    the bridge and the two HTTP tasks; \<open>Awaited\<close>: the tickets its futures wait for stay alive;
    \<open>Client_View\<close>: what its client is sent, as a list of the things the bridge says (\<open>utterance\<close>).
  \<^item> \<open>Daemon\<close>, \<open>Startup\<close> (\<open>main.rs\<close>): the accept loop and all clients; the command line, the certificate and
    the listening socket. \<open>Logging\<close> (\<open>macros.rs\<close>, \<open>main.rs\<close>): the context of a task and the lines it writes.
  \<^item> \<open>Irc_Properties\<close>, \<open>Matrix_Properties\<close>, \<open>Bridge_Properties\<close>, \<open>System_Properties\<close>, \<open>Wire_Properties\<close>,
    \<open>Daemon_Properties\<close>: the properties, each with a concrete instance where it has hypotheses.
  \<^item> \<open>Unit_Tests\<close>: the tests of the repository, evaluated on the model.

  \<^bold>\<open>What is shown.\<close>
  \<^item> Parsing: the line parser accepts exactly the grammar; the commands do not depend on how reads cut the
    bytes or on polls that wait, nor do the HTTP responses, and a line of more than 2048 bytes is refused;
    rendered lines parse back.
  \<^item> Requests: they are written completely and in order, each has one ticket and one answer, which waits
    until it is taken, and the responses parsed go to the requests that wait longest.
  \<^item> Wire data: a sync response loses nothing in reading, whatever fields a home server adds; the text of a
    message is the same on both sides of the home server, whatever it holds; an event without a required
    field ends the session.
  \<^item> Rooms: the state is the last event of each type and key; the first members are the joined users.
  \<^item> Names: in every run, rooms and channels, users and nicks are one to one, agree with the server model
    and never change; a free name is always found.
  \<^item> Both directions: what a command sends to the home server, what a sync response shows on IRC, and that a
    message cannot add lines of its own. One poll and the next poll of the HTTP task turn the commands in
    the client's bytes into the bytes of their requests, and the echo of an own message is not relayed.
  \<^item> Whole runs: a bridge runs only for who logged in, with the consent of the home server; what a
    connection waits for is never lost; what its client is sent is the greeting and then, in whole lines,
    the answers to the commands it has sent and what the rooms showed. The lemma \<open>system_reaches_session\<close>
    gives the invariants of \<open>bridge_step\<close> to \<open>system_step\<close>.
  \<^item> The daemon: arguments that pass their checks lead to a listening socket or a panic over the certificate,
    the reactor or the socket, and with a certificate every client comes through a TLS handshake; of the lines
    \<open>main.rs\<close> logs for a client, one names the error if it failed.
  \<^item> Faults of the code, stated as it behaves: see the theorems on joins after the first response, members
    that leave, topics with a newline, blocked writes, bodies that end with the connection, and huge chunks.

  \<^bold>\<open>Termination and bounds.\<close> No fuel is used. The loops of the transport and the HTTP parser end because each
  pass takes bytes or a call of the finite script (\<open>read_size\<close>, \<open>env_size\<close>); \<open>poll_inner\<close> because each
  pass answers a request; \<open>reconnecting_poll\<close> by the script of connection attempts; \<open>sync_client_poll\<close> and
  \<open>poll_matrix\<close> because each pass receives an outcome; the search for a free name because there are finitely
  many names in use. \<open>sf_loop\<close> follows a stream that is a parameter and is a partial function; that it
  returns on the streams of the program is proved. A line is bounded by 2048 bytes (\<open>max_line\<close>), statuses
  and ports are 16 bit words, and sums of \<open>usize\<close> panic on overflow, as in a build with overflow checks.

  \<^bold>\<open>Parameters.\<close> Code that is not in the repository is an argument of the definitions that use it: \<open>url\<close> and
  \<open>percent_encoding\<close> (\<open>url_ops\<close>), \<open>serde_json\<close> (\<open>json_ops\<close>, \<open>value_ops\<close>, which \<open>Matrix_Wire\<close>
  reduces to cutting a text into a document and printing one, \<open>serde\<close>), \<open>rand\<close> (\<open>cr_rng\<close>), and
  \<open>httparse\<close> (\<open>http_syntax\<close>), of which the documented behaviour \<open>http_syntax_ok\<close> is assumed: it reads from
  left to right, so what follows a complete block does not change it, and a complete response has a status.
  Of \<open>serde_json\<close>, \<open>prints_strings\<close> is asked where a text is followed to the other side: an object of strings
  that was printed is read back. \<open>tiny_syntax\<close>, \<open>plain_syntax\<close> and \<open>plain_serde\<close> show that both can hold.
  The operators of \<open>pest\<close> have their documented meaning as a parsing expression grammar, \<open>netbuf::Buf\<close> is a
  queue of bytes with one write for each \<open>write_to\<close>, the pattern of \<open>media_url\<close> is spelt out, and the executors of \<open>tokio\<close>
  and \<open>tasked-futures\<close> are the freedom of \<open>bridge_step\<close>, \<open>system_step\<close> and \<open>daemon_step\<close> to take any step.
  \<open>platform\<close> holds what the start calls of \<open>clap\<close>, \<open>native-tls\<close>, \<open>tokio\<close> and the system; of \<open>clap\<close>,
  \<open>clap_checks\<close> is assumed, that it returns only arguments which meet their declarations (\<open>app_args\<close>), and
  \<open>demo_clap\<close> shows that this can hold. The README says that without both of the certificate and its
  password the daemon uses plain TCP; the declarations refuse one of the two alone.
  A panic is a value (\<open>Panic\<close>) that ends a task; the process would end with it, so letting the other tasks
  go on only adds runs.

  \<^bold>\<open>Not modelled.\<close> The TCP and TLS libraries (connection attempts and handshakes are scripts of results), the
  texts \<open>clap\<close> prints, the lines the parts of a connection write through the logger they hold, and the
  formatting and levels of \<open>slog\<close>, on which no state depends, wake-ups of tasks beyond the flags the code
  keeps, and what the HTTP tasks do once their client has gone.
\<close>

end
